(* ===== verification/Prelude.thy ===== *)
theory Prelude
  imports Main
begin

text \<open>
  Shared ground of the development: Go's error values, fallible computations on a state,
  the runtime values a Go program reads from its surroundings (clock, identifiers, random
  numbers, cancelled contexts), signed 64-bit arithmetic and decimal formatting, and the
  generic lemmas the components use.
\<close>

section \<open>Error values\<close>

text \<open>
  A Go error is a sentinel made once by \<open>errors.New\<close> and compared by identity, an error
  built from a message only, or \<open>fmt.Errorf\<close> with a \<open>%w\<close> verb, which keeps the formatted
  message and the wrapped error.
\<close>

datatype sentinel =
    ErrIllegalTransition | ErrNonRetriable | ErrDenied | ErrTransient
  | ErrNotFound | ErrConflict | ErrDuplicate | ErrRequired
  | Canceled | DeadlineExceeded

datatype go_error =
    Sentinel sentinel
  | ErrorString string
  | WrapError string go_error

primrec sentinel_text :: "sentinel \<Rightarrow> string" where
  "sentinel_text ErrIllegalTransition = ''statemachine: illegal transition''"
| "sentinel_text ErrNonRetriable = ''saga: non-retriable''"
| "sentinel_text ErrDenied = ''partner: denied''"
| "sentinel_text ErrTransient = ''partner: transient''"
| "sentinel_text ErrNotFound = ''store: not found''"
| "sentinel_text ErrConflict = ''store: version conflict''"
| "sentinel_text ErrDuplicate = ''store: duplicate''"
| "sentinel_text ErrRequired = ''config: required env var missing''"
| "sentinel_text Canceled = ''context canceled''"
| "sentinel_text DeadlineExceeded = ''context deadline exceeded''"

text \<open>\<open>err.Error()\<close>.\<close>

primrec error_text :: "go_error \<Rightarrow> string" where
  "error_text (Sentinel s) = sentinel_text s"
| "error_text (ErrorString m) = m"
| "error_text (WrapError m e) = m"

text \<open>\<open>errors.Is(err, target)\<close>: the unwrap chain reaches the sentinel.\<close>

primrec errors_is :: "go_error \<Rightarrow> sentinel \<Rightarrow> bool" where
  "errors_is (Sentinel s) t = (s = t)"
| "errors_is (ErrorString m) t = False"
| "errors_is (WrapError m e) t = errors_is e t"

text \<open>\<open>fmt.Errorf("%w: <tail>", e)\<close> and \<open>fmt.Errorf("<head>%w", e)\<close>.\<close>

definition errorf_wrap_head :: "go_error \<Rightarrow> string \<Rightarrow> go_error" where
  "errorf_wrap_head e tail = WrapError (error_text e @ '': '' @ tail) e"

definition errorf_wrap_tail :: "string \<Rightarrow> go_error \<Rightarrow> go_error" where
  "errorf_wrap_tail head e = WrapError (head @ error_text e) e"

lemma errors_is_wrap [simp]:
  "errors_is (errorf_wrap_head e m) t = errors_is e t"
  "errors_is (errorf_wrap_tail m e) t = errors_is e t"
  by (simp_all add: errorf_wrap_head_def errorf_wrap_tail_def)

lemma error_text_wrap [simp]:
  "error_text (errorf_wrap_head e m) = error_text e @ '': '' @ m"
  "error_text (errorf_wrap_tail m e) = m @ error_text e"
  by (simp_all add: errorf_wrap_head_def errorf_wrap_tail_def)

section \<open>Fallible computations on a state\<close>

text \<open>
  A Go function that returns \<open>(T, error)\<close> and changes a state \<open>'s\<close> is a function to
  \<open>(go_error + T) \<times> 's\<close>. \<open>bindE\<close> is the idiom \<open>x, err := f(); if err != nil { return err }\<close>,
  \<open>ignE\<close> is \<open>_ = f()\<close> and \<open>reads\<close> is a call that changes nothing.
\<close>

type_synonym ('s, 'a) go = "'s \<Rightarrow> (go_error + 'a) \<times> 's"

definition okE :: "'a \<Rightarrow> ('s, 'a) go" where
  "okE x s = (Inr x, s)"

definition errE :: "go_error \<Rightarrow> ('s, 'a) go" where
  "errE e s = (Inl e, s)"

definition bindE :: "('s, 'a) go \<Rightarrow> ('a \<Rightarrow> ('s, 'b) go) \<Rightarrow> ('s, 'b) go" where
  "bindE m f s = (case m s of (Inl e, s') \<Rightarrow> (Inl e, s') | (Inr x, s') \<Rightarrow> f x s')"

definition thenE :: "('s, 'a) go \<Rightarrow> ('s, 'b) go \<Rightarrow> ('s, 'b) go" where
  "thenE m n = bindE m (\<lambda>_. n)"

definition ignE :: "('s, 'a) go \<Rightarrow> ('s, 'b) go \<Rightarrow> ('s, 'b) go" where
  "ignE m n s = n (snd (m s))"

definition reads :: "('s \<Rightarrow> go_error + 'a) \<Rightarrow> ('s, 'a) go" where
  "reads f s = (f s, s)"

named_theorems go_monad "unfolding rules of the error monad"

lemmas go_monad_defs [go_monad] =
  okE_def errE_def bindE_def thenE_def ignE_def reads_def

text \<open>
  \<open>keeps P m\<close>: the computation keeps \<open>P\<close> of the state, whether it succeeds or fails. The
  rules follow the monad, so an invariant of a composed operation is the invariant of its
  parts.
\<close>

definition keeps :: "('s \<Rightarrow> bool) \<Rightarrow> ('s, 'a) go \<Rightarrow> bool" where
  "keeps P m \<longleftrightarrow> (\<forall>s. P s \<longrightarrow> P (snd (m s)))"

lemma keepsI: "(\<And>s. P s \<Longrightarrow> P (snd (m s))) \<Longrightarrow> keeps P m"
  by (simp add: keeps_def)

lemma keepsD: "keeps P m \<Longrightarrow> P s \<Longrightarrow> P (snd (m s))"
  by (simp add: keeps_def)

lemma keeps_okE [intro!, simp]: "keeps P (okE x)"
  by (simp add: keeps_def okE_def)

lemma keeps_errE [intro!, simp]: "keeps P (errE e)"
  by (simp add: keeps_def errE_def)

lemma keeps_reads [intro!, simp]: "keeps P (reads f)"
  by (simp add: keeps_def reads_def)

lemma keeps_bindE [intro]:
  "keeps P m \<Longrightarrow> (\<And>x. keeps P (f x)) \<Longrightarrow> keeps P (bindE m f)"
  unfolding keeps_def bindE_def
  by (auto split: prod.splits sum.splits)

lemma keeps_thenE [intro]: "keeps P m \<Longrightarrow> keeps P n \<Longrightarrow> keeps P (thenE m n)"
  by (auto simp: thenE_def)

lemma keeps_ignE [intro]: "keeps P m \<Longrightarrow> keeps P n \<Longrightarrow> keeps P (ignE m n)"
  by (simp add: keeps_def ignE_def)

section \<open>What the program reads from its surroundings\<close>

text \<open>
  \<open>time.Now\<close>, \<open>uuid.NewV7\<close>, \<open>rand.Int63n\<close> and the state of a context's \<open>Done\<close> channel are
  not determined by the program. They are streams, read at the position of a counter that
  every reading moves on; theorems hold for every stream. A \<open>None\<close> of \<open>rt_done\<close> means that
  the wait of the \<open>select\<close> at that position ended by its timer, \<open>Some e\<close> that the context
  was done with error \<open>e\<close>.
\<close>

type_synonym time = int
type_synonym uuid = string

record runtime =
  rt_clock :: "nat \<Rightarrow> time"
  rt_uuid :: "nat \<Rightarrow> uuid"
  rt_rand :: "nat \<Rightarrow> int"
  rt_done :: "nat \<Rightarrow> go_error option"

section \<open>Durations and 64-bit integers\<close>

definition wrap64 :: "int \<Rightarrow> int" where
  "wrap64 x = (x + 2 ^ 63) mod 2 ^ 64 - 2 ^ 63"

abbreviation millisecond :: int where "millisecond \<equiv> 1000000"
abbreviation second :: int where "second \<equiv> 1000000000"

lemma wrap64_id: "- (2 ^ 63) \<le> x \<Longrightarrow> x < 2 ^ 63 \<Longrightarrow> wrap64 x = x"
  by (simp add: wrap64_def)

lemma wrap64_range: "- (2 ^ 63) \<le> wrap64 x \<and> wrap64 x < 2 ^ 63"
proof -
  have "0 \<le> (x + 2 ^ 63) mod 2 ^ 64" "(x + 2 ^ 63) mod 2 ^ 64 < 2 ^ 64"
    by simp_all
  then show ?thesis by (simp add: wrap64_def)
qed

section \<open>Decimal formatting\<close>

text \<open>The verb \<open>%d\<close>.\<close>

fun nat_digits :: "nat \<Rightarrow> string" where
  "nat_digits n =
     (if n < 10 then [char_of (48 + n)] else nat_digits (n div 10) @ [char_of (48 + n mod 10)])"

declare nat_digits.simps [simp del]

definition fmt_d :: "int \<Rightarrow> string" where
  "fmt_d i = (if i < 0 then CHR ''-'' # nat_digits (nat (- i)) else nat_digits (nat i))"

text \<open>Reading the digits back: the inverse that shows \<open>%d\<close> loses nothing.\<close>

fun digits_val :: "string \<Rightarrow> nat \<Rightarrow> nat" where
  "digits_val [] acc = acc"
| "digits_val (c # cs) acc = digits_val cs (10 * acc + (of_char c - 48))"

lemma digits_val_append:
  "digits_val (xs @ ys) acc = digits_val ys (digits_val xs acc)"
  by (induction xs arbitrary: acc) simp_all

lemma of_char_digit: "n < 10 \<Longrightarrow> (of_char (char_of (48 + n) :: char) :: nat) = 48 + n"
  by (simp add: of_char_of)

lemma digits_val_nat_digits: "digits_val (nat_digits n) 0 = n"
proof (induction n rule: nat_digits.induct)
  case (1 n)
  show ?case
  proof (cases "n < 10")
    case True
    then show ?thesis by (simp add: nat_digits.simps [of n] of_char_digit)
  next
    case False
    with 1 have "digits_val (nat_digits (n div 10)) 0 = n div 10" by simp
    with False show ?thesis
      by (simp add: nat_digits.simps [of n] digits_val_append of_char_digit)
  qed
qed

lemma nat_digits_inj [simp]: "nat_digits m = nat_digits n \<longleftrightarrow> m = n"
  by (metis digits_val_nat_digits)

lemma nat_digits_chars: "c \<in> set (nat_digits n) \<Longrightarrow> 48 \<le> (of_char c :: nat) \<and> (of_char c :: nat) \<le> 57"
proof (induction n rule: nat_digits.induct)
  case (1 n)
  have low: "(of_char (char_of (48 + n mod 10) :: char) :: nat) = 48 + n mod 10"
    by (rule of_char_digit) simp
  show ?case
  proof (cases "n < 10")
    case True
    then show ?thesis using 1(2) by (auto simp: nat_digits.simps [of n] of_char_digit)
  next
    case False
    then show ?thesis
      using 1(2) 1(1) [OF False] low by (auto simp: nat_digits.simps [of n])
  qed
qed

lemma nat_digits_no_char:
  "(of_char c :: nat) < 48 \<or> 57 < (of_char c :: nat) \<Longrightarrow> c \<notin> set (nat_digits n)"
  using nat_digits_chars by force

lemma fmt_d_inj [simp]: "fmt_d i = fmt_d j \<longleftrightarrow> i = j"
proof
  assume eq: "fmt_d i = fmt_d j"
  have minus: "CHR ''-'' \<notin> set (nat_digits n)" for n
    by (rule nat_digits_no_char) simp
  have hd: "nat_digits n \<noteq> CHR ''-'' # cs" for n cs
    using minus [of n] by auto
  show "i = j"
    using eq by (auto simp: fmt_d_def hd hd [symmetric] split: if_splits)
qed simp

lemma fmt_d_no_bar: "CHR ''|'' \<notin> set (fmt_d i)"
  using nat_digits_no_char [of "CHR ''|''"] by (auto simp: fmt_d_def)

section \<open>Lists joined by a separator\<close>

text \<open>Two joins are equal only if the separator-free heads and the rests are equal.\<close>

lemma takeWhile_sep: "c \<notin> set xs \<Longrightarrow> takeWhile (\<lambda>x. x \<noteq> c) (xs @ c # ys) = xs"
  by (induction xs) auto

lemma sep_split:
  assumes "xs @ c # ys = xs' @ c # ys'" and "c \<notin> set xs" and "c \<notin> set xs'"
  shows "xs = xs' \<and> ys = ys'"
proof -
  have "xs = xs'"
    using takeWhile_sep [OF assms(2), of ys] takeWhile_sep [OF assms(3), of ys'] assms(1) by simp
  with assms(1) show ?thesis by simp
qed

end
