(* ===== verification/State_Machine.thy ===== *)
theory State_Machine
  imports Prelude
begin

text \<open>
  The lifecycle of a transaction saga: \<open>internal/statemachine/statemachine.go\<close>. States and
  steps are Go strings with named constants; a constructor per constant and one for every
  other string (in particular the zero value, the empty string).
\<close>

section \<open>States\<close>

datatype State =
    StateCreated | StatePolicyChecked | StatePaymentCaptured | StateKytScreened
  | StateSigned | StateBroadcasted | StateConfirmed | StateLedgered | StateCompleted
  | StateFailedCompensated | StateFailed
  | StateOther string

primrec state_string :: "State \<Rightarrow> string" where
  "state_string StateCreated = ''CREATED''"
| "state_string StatePolicyChecked = ''POLICY_CHECKED''"
| "state_string StatePaymentCaptured = ''PAYMENT_CAPTURED''"
| "state_string StateKytScreened = ''KYT_SCREENED''"
| "state_string StateSigned = ''SIGNED''"
| "state_string StateBroadcasted = ''BROADCASTED''"
| "state_string StateConfirmed = ''CONFIRMED''"
| "state_string StateLedgered = ''LEDGERED''"
| "state_string StateCompleted = ''COMPLETED''"
| "state_string StateFailedCompensated = ''FAILED_COMPENSATED''"
| "state_string StateFailed = ''FAILED''"
| "state_string (StateOther s) = s"

definition Terminal :: "State \<Rightarrow> bool" where
  "Terminal s = (case s of
     StateCompleted \<Rightarrow> True | StateFailedCompensated \<Rightarrow> True | StateFailed \<Rightarrow> True
   | _ \<Rightarrow> False)"

definition IsFailure :: "State \<Rightarrow> bool" where
  "IsFailure s \<longleftrightarrow> s = StateFailedCompensated \<or> s = StateFailed"

section \<open>Steps\<close>

datatype Step =
    StepPolicy | StepPayment | StepKyt | StepMpcSign | StepBroadcast | StepLedger
  | StepOther string

primrec step_string :: "Step \<Rightarrow> string" where
  "step_string StepPolicy = ''POLICY''"
| "step_string StepPayment = ''PAYMENT''"
| "step_string StepKyt = ''KYT''"
| "step_string StepMpcSign = ''MPC_SIGN''"
| "step_string StepBroadcast = ''BROADCAST''"
| "step_string StepLedger = ''LEDGER''"
| "step_string (StepOther s) = s"

text \<open>The conversion \<open>statemachine.Step(s)\<close> of a string that comes from outside.\<close>

definition step_of_string :: "string \<Rightarrow> Step" where
  "step_of_string s =
     (if s = ''POLICY'' then StepPolicy else if s = ''PAYMENT'' then StepPayment
      else if s = ''KYT'' then StepKyt else if s = ''MPC_SIGN'' then StepMpcSign
      else if s = ''BROADCAST'' then StepBroadcast else if s = ''LEDGER'' then StepLedger
      else StepOther s)"

definition StepOrder :: "Step list" where
  "StepOrder = [StepPolicy, StepPayment, StepKyt, StepMpcSign, StepBroadcast, StepLedger]"

fun step_after_in :: "Step \<Rightarrow> Step list \<Rightarrow> Step option" where
  "step_after_in s (cur # nxt # rest) =
     (if cur = s then Some nxt else step_after_in s (nxt # rest))"
| "step_after_in s _ = None"

definition StepAfter :: "Step \<Rightarrow> Step option" where
  "StepAfter s = step_after_in s StepOrder"

definition StateForStep :: "Step \<Rightarrow> State option" where
  "StateForStep s = (case s of
     StepPolicy \<Rightarrow> Some StatePolicyChecked
   | StepPayment \<Rightarrow> Some StatePaymentCaptured
   | StepKyt \<Rightarrow> Some StateKytScreened
   | StepMpcSign \<Rightarrow> Some StateSigned
   | StepBroadcast \<Rightarrow> Some StateBroadcasted
   | StepLedger \<Rightarrow> Some StateLedgered
   | StepOther _ \<Rightarrow> None)"

definition StepForState :: "State \<Rightarrow> Step option" where
  "StepForState s = (case s of
     StatePolicyChecked \<Rightarrow> Some StepPolicy
   | StatePaymentCaptured \<Rightarrow> Some StepPayment
   | StateKytScreened \<Rightarrow> Some StepKyt
   | StateSigned \<Rightarrow> Some StepMpcSign
   | StateBroadcasted \<Rightarrow> Some StepBroadcast
   | StateLedgered \<Rightarrow> Some StepLedger
   | _ \<Rightarrow> None)"

section \<open>Transitions\<close>

definition forward :: "State \<Rightarrow> State option" where
  "forward s = (case s of
     StateCreated \<Rightarrow> Some StatePolicyChecked
   | StatePolicyChecked \<Rightarrow> Some StatePaymentCaptured
   | StatePaymentCaptured \<Rightarrow> Some StateKytScreened
   | StateKytScreened \<Rightarrow> Some StateSigned
   | StateSigned \<Rightarrow> Some StateBroadcasted
   | StateBroadcasted \<Rightarrow> Some StateConfirmed
   | StateConfirmed \<Rightarrow> Some StateLedgered
   | StateLedgered \<Rightarrow> Some StateCompleted
   | _ \<Rightarrow> None)"

text \<open>\<open>Transition\<close> returns a state beside the error: the target on success, the current
  state otherwise.\<close>

definition Transition :: "State \<Rightarrow> State \<Rightarrow> State \<times> go_error option" where
  "Transition cur nxt =
     (if Terminal cur then
        (cur, Some (errorf_wrap_head (Sentinel ErrIllegalTransition)
                      (state_string cur @ '' is terminal'')))
      else if nxt = StateFailedCompensated \<or> nxt = StateFailed then (nxt, None)
      else if forward cur = Some nxt then (nxt, None)
      else (cur, Some (errorf_wrap_head (Sentinel ErrIllegalTransition)
                         (state_string cur @ '' -> '' @ state_string nxt))))"

text \<open>\<open>MustTransition\<close> panics on an illegal move: \<open>Inl\<close> is the panic value.\<close>

definition MustTransition :: "State \<Rightarrow> State \<Rightarrow> go_error + State" where
  "MustTransition cur nxt =
     (case Transition cur nxt of (out, Some err) \<Rightarrow> Inl err | (out, None) \<Rightarrow> Inr out)"

definition ForwardTarget :: "State \<Rightarrow> State option" where
  "ForwardTarget cur = forward cur"

text \<open>The same table as a step relation, the form the reachability results use.\<close>

inductive moves :: "State \<Rightarrow> State \<Rightarrow> bool" where
  ahead: "forward s = Some t \<Longrightarrow> moves s t"
| compensated: "\<not> Terminal s \<Longrightarrow> moves s StateFailedCompensated"
| exhausted: "\<not> Terminal s \<Longrightarrow> moves s StateFailed"

inductive_cases movesE: "moves s t"

abbreviation moves_to :: "State \<Rightarrow> State \<Rightarrow> bool" where
  "moves_to \<equiv> moves\<^sup>*\<^sup>*"

section \<open>The transition table\<close>

lemmas state_tables = forward_def Terminal_def IsFailure_def StateForStep_def StepForState_def

lemma Terminal_iff: "Terminal s \<longleftrightarrow> s \<in> {StateCompleted, StateFailedCompensated, StateFailed}"
  by (cases s) (simp_all add: Terminal_def)

lemma Terminal_simps [simp]:
  "Terminal StateCompleted" "Terminal StateFailedCompensated" "Terminal StateFailed"
  "\<not> Terminal StateCreated" "\<not> Terminal StatePolicyChecked" "\<not> Terminal StatePaymentCaptured"
  "\<not> Terminal StateKytScreened" "\<not> Terminal StateSigned" "\<not> Terminal StateBroadcasted"
  "\<not> Terminal StateConfirmed" "\<not> Terminal StateLedgered" "\<not> Terminal (StateOther x)"
  by (simp_all add: Terminal_def)

lemma forward_not_terminal: "forward s = Some t \<Longrightarrow> \<not> Terminal s"
  by (cases s) (simp_all add: state_tables)

lemma forward_not_failure: "forward s \<noteq> Some StateFailedCompensated" "forward s \<noteq> Some StateFailed"
  by (cases s; simp add: state_tables)+

lemma Transition_ok_iff: "snd (Transition s t) = None \<longleftrightarrow> moves s t"
  by (auto simp: Transition_def moves.simps forward_not_terminal split: if_splits)

lemma Transition_cases:
  "Transition s t = (t, None) \<and> moves s t \<or>
   (\<exists>e. Transition s t = (s, Some e) \<and> errors_is e ErrIllegalTransition \<and> \<not> moves s t)"
  by (auto simp: Transition_def moves.simps forward_not_terminal)

lemma StepAfter_simps [simp]:
  "StepAfter StepPolicy = Some StepPayment" "StepAfter StepPayment = Some StepKyt"
  "StepAfter StepKyt = Some StepMpcSign" "StepAfter StepMpcSign = Some StepBroadcast"
  "StepAfter StepBroadcast = Some StepLedger" "StepAfter StepLedger = None"
  "StepAfter (StepOther x) = None"
  by (simp_all add: StepAfter_def StepOrder_def)

text \<open>A rank that every legal move increases: no state is entered twice.\<close>

definition state_rank :: "State \<Rightarrow> nat" where
  "state_rank s = (case s of
     StateOther _ \<Rightarrow> 0 | StateCreated \<Rightarrow> 0 | StatePolicyChecked \<Rightarrow> 1 | StatePaymentCaptured \<Rightarrow> 2
   | StateKytScreened \<Rightarrow> 3 | StateSigned \<Rightarrow> 4 | StateBroadcasted \<Rightarrow> 5 | StateConfirmed \<Rightarrow> 6
   | StateLedgered \<Rightarrow> 7 | StateCompleted \<Rightarrow> 8 | StateFailedCompensated \<Rightarrow> 8 | StateFailed \<Rightarrow> 8)"

lemma moves_rank: "moves s t \<Longrightarrow> state_rank s < state_rank t"
  by (cases s) (auto simp: moves.simps state_tables state_rank_def)

lemma state_rank_le: "state_rank s \<le> 8"
  by (cases s) (simp_all add: state_rank_def)

lemma moves_terminal: "moves s t \<Longrightarrow> \<not> Terminal s"
  by (auto elim!: movesE dest: forward_not_terminal)

lemma moves_to_terminal: "moves_to s t \<Longrightarrow> Terminal s \<Longrightarrow> t = s"
  by (induction rule: converse_rtranclp_induct) (auto dest: moves_terminal)

lemma moves_fail [simp, intro]:
  "\<not> Terminal s \<Longrightarrow> moves s StateFailedCompensated" "\<not> Terminal s \<Longrightarrow> moves s StateFailed"
  by (auto intro: moves.intros)

section \<open>Properties of the lifecycle\<close>

lemma moves_pow_rank: "(moves ^^ n) s t \<Longrightarrow> state_rank s + n \<le> state_rank t"
proof (induction n arbitrary: t)
  case 0
  then show ?case by simp
next
  case (Suc n)
  then obtain u where "(moves ^^ n) s u" "moves u t" by auto
  with Suc.IH [of u] moves_rank [of u t] show ?case by simp
qed

lemma not_Terminal_moves: "\<not> Terminal s \<Longrightarrow> snd (Transition s StateFailed) = None"
  by (simp add: Transition_ok_iff)


text \<open>A state is terminal exactly when no transition leaves it, and no sequence of legal
  transitions has more than eight moves, so a saga cannot run in a cycle.\<close>

theorem lifecycle_bounded:
  "(Terminal s \<longleftrightarrow> (\<forall>t. snd (Transition s t) \<noteq> None)) \<and> ((moves ^^ n) s t \<longrightarrow> n \<le> 8)"
proof
  show "Terminal s \<longleftrightarrow> (\<forall>t. snd (Transition s t) \<noteq> None)"
    using not_Terminal_moves [of s] by (auto simp: Transition_def)
  show "(moves ^^ n) s t \<longrightarrow> n \<le> 8"
    using moves_pow_rank [of n s t] state_rank_le [of t] by auto
qed

lemma happy_moves: "(moves ^^ 8) StateCreated StateCompleted"
proof -
  have m: "moves StateCreated StatePolicyChecked" "moves StatePolicyChecked StatePaymentCaptured"
    "moves StatePaymentCaptured StateKytScreened" "moves StateKytScreened StateSigned"
    "moves StateSigned StateBroadcasted" "moves StateBroadcasted StateConfirmed"
    "moves StateConfirmed StateLedgered" "moves StateLedgered StateCompleted"
    by (auto intro!: moves.ahead simp: forward_def)
  have "(moves ^^ Suc (Suc (Suc (Suc (Suc (Suc (Suc (Suc 0)))))))) StateCreated StateCompleted"
    by (rule relpowp_Suc_I2, rule m)+ simp
  moreover have "Suc (Suc (Suc (Suc (Suc (Suc (Suc (Suc 0))))))) = 8" by simp
  ultimately show ?thesis by metis
qed

theorem lifecycle_bounded_witness:
  "(moves ^^ 8) StateCreated StateCompleted \<and> (8 :: nat) \<le> 8 \<and>
   (\<forall>t. snd (Transition StateCompleted t) \<noteq> None)"
  using lifecycle_bounded [of StateCreated 8 StateCompleted] lifecycle_bounded [of StateCompleted 0 StateCompleted]
    happy_moves by simp

text \<open>The tables agree with each other: \<open>StateForStep\<close> and \<open>StepForState\<close> are inverse, and the
  step after another one is entered from the other's state by one move of the machine, or, from
  broadcast to ledger, by one move to \<open>CONFIRMED\<close> first.\<close>

theorem step_tables_agree:
  "(StateForStep st = Some s \<longleftrightarrow> StepForState s = Some st) \<and>
   (StepAfter st = Some nxt \<longrightarrow>
      (\<exists>a b. StateForStep st = Some a \<and> StateForStep nxt = Some b \<and>
         (if st = StepBroadcast then forward a = Some StateConfirmed \<and> forward StateConfirmed = Some b
          else forward a = Some b)))"
  by (cases st; cases s) (auto simp: state_tables)

theorem step_tables_agree_witness:
  "StepAfter StepPayment = Some StepKyt \<and> forward StatePaymentCaptured = Some StateKytScreened"
  using step_tables_agree [of StepPayment StatePaymentCaptured StepKyt] by (simp add: state_tables)

end
