(* ===== verification/Go_Strings.thy ===== *)
theory Go_Strings
  imports Prelude
begin

text \<open>
  The functions of the Go packages \<open>strings\<close> and \<open>strconv\<close> that the program calls, on strings of ASCII characters:
  \<open>HasPrefix\<close>, \<open>TrimPrefix\<close>, \<open>Contains\<close>, \<open>Split\<close>, \<open>Join\<close>, \<open>TrimSpace\<close>, \<open>ToLower\<close> and \<open>Atoi\<close>.
\<close>

section \<open>Package strings\<close>

fun has_prefix :: "string \<Rightarrow> string \<Rightarrow> bool" where
  "has_prefix s [] = True"
| "has_prefix [] (p # ps) = False"
| "has_prefix (c # cs) (p # ps) = (c = p \<and> has_prefix cs ps)"

definition trim_prefix :: "string \<Rightarrow> string \<Rightarrow> string" where
  "trim_prefix s p = (if has_prefix s p then drop (length p) s else s)"

fun str_contains :: "string \<Rightarrow> string \<Rightarrow> bool" where
  "str_contains [] p = (p = [])"
| "str_contains (c # cs) p = (has_prefix (c # cs) p \<or> str_contains cs p)"

text \<open>\<open>strings.Split\<close> by a separator of one character.\<close>

fun split_on :: "char \<Rightarrow> string \<Rightarrow> string list" where
  "split_on sep [] = [[]]"
| "split_on sep (c # cs) =
     (if c = sep then [] # split_on sep cs
      else (case split_on sep cs of [] \<Rightarrow> [[c]] | w # ws \<Rightarrow> (c # w) # ws))"

text \<open>\<open>strings.TrimSpace\<close> on ASCII.\<close>

definition is_space :: "char \<Rightarrow> bool" where
  "is_space c = ((of_char c :: nat) \<in> {9, 10, 11, 12, 13, 32})"

definition trim_space :: "string \<Rightarrow> string" where
  "trim_space s = rev (dropWhile is_space (rev (dropWhile is_space s)))"

fun strings_Join :: "string \<Rightarrow> string list \<Rightarrow> string" where
  "strings_Join sep [] = []"
| "strings_Join sep [x] = x"
| "strings_Join sep (x # y # ys) = x @ sep @ strings_Join sep (y # ys)"

definition char_lower :: "char \<Rightarrow> char" where
  "char_lower c = (if 65 \<le> (of_char c :: nat) \<and> (of_char c :: nat) \<le> 90 then char_of ((of_char c :: nat) + 32) else c)"

definition to_lower :: "string \<Rightarrow> string" where
  "to_lower s = map char_lower s"

section \<open>Package strconv\<close>

text \<open>\<open>Atoi\<close>: an optional sign, then at least one decimal digit and nothing else, within 64 bits.\<close>

definition is_digit :: "char \<Rightarrow> bool" where
  "is_digit c \<longleftrightarrow> 48 \<le> (of_char c :: nat) \<and> (of_char c :: nat) \<le> 57"

definition parse_digits :: "string \<Rightarrow> nat option" where
  "parse_digits s = (if s \<noteq> [] \<and> list_all is_digit s then Some (digits_val s 0) else None)"

definition Atoi :: "string \<Rightarrow> int option" where
  "Atoi s =
     (let neg = has_prefix s ''-'';
          digits = (if has_prefix s ''-'' \<or> has_prefix s ''+'' then tl s else s)
      in case parse_digits digits of
           None \<Rightarrow> None
         | Some m \<Rightarrow>
             (let v = (if neg then - int m else int m)
              in if - (2 ^ 63) \<le> v \<and> v < 2 ^ 63 then Some v else None))"

section \<open>Laws\<close>

lemma digits_nonempty: "nat_digits n \<noteq> []"
  by (simp add: nat_digits.simps [of n])

lemma parse_nat_digits: "parse_digits (nat_digits n) = Some n"
  by (auto simp: parse_digits_def digits_nonempty digits_val_nat_digits list_all_iff is_digit_def dest: nat_digits_chars)

lemma digits_no_sign: "\<not> has_prefix (nat_digits n) ''-''" "\<not> has_prefix (nat_digits n) ''+''"
proof -
  obtain c cs where c: "nat_digits n = c # cs" using digits_nonempty by (cases "nat_digits n") auto
  then have "48 \<le> (of_char c :: nat)" using nat_digits_chars [of c n] by simp
  then show "\<not> has_prefix (nat_digits n) ''-''" "\<not> has_prefix (nat_digits n) ''+''" using c by auto
qed

text \<open>\<open>Atoi\<close> reads what \<open>%d\<close> writes.\<close>

lemma Atoi_fmt_d:
  assumes "- (2 ^ 63) \<le> i" and "i < 2 ^ 63"
  shows "Atoi (fmt_d i) = Some i"
  using assms by (simp add: Atoi_def fmt_d_def parse_nat_digits digits_no_sign Let_def)

lemma split_on_nonempty: "split_on sep s \<noteq> []"
  by (cases s) (simp_all split: list.splits)

lemma split_on_plain: "sep \<notin> set x \<Longrightarrow> split_on sep x = [x]"
  by (induction x) auto

lemma split_on_append: "sep \<notin> set x \<Longrightarrow> split_on sep (x @ sep # rest) = x # split_on sep rest"
  by (induction x) auto

lemma split_join:
  assumes "xs \<noteq> []" and "\<forall>x \<in> set xs. sep \<notin> set x"
  shows "split_on sep (strings_Join [sep] xs) = xs"
  using assms by (induction "[sep]" xs rule: strings_Join.induct) (simp_all add: split_on_plain split_on_append)

lemma set_strings_Join: "set (strings_Join [sep] xs) \<subseteq> insert sep (\<Union> (set ` set xs))"
  by (induction "[sep]" xs rule: strings_Join.induct) auto

lemma has_prefix_append [simp]: "has_prefix (p @ s) p"
  by (induction p) simp_all

lemma has_prefix_iff: "has_prefix u p \<longleftrightarrow> (\<exists>r. u = p @ r)"
  by (induction u p rule: has_prefix.induct) auto

lemma str_contains_iff: "str_contains u p \<longleftrightarrow> (\<exists>q r. u = q @ p @ r)"
proof (induction u)
  case (Cons c cs)
  then show ?case by (auto simp: has_prefix_iff Cons_eq_append_conv)
qed simp

lemma trim_prefix_append [simp]: "trim_prefix (p @ s) p = s"
  by (simp add: trim_prefix_def)



lemma join_split: "strings_Join [sep] (split_on sep s) = s"
proof (induction s)
  case (Cons c cs)
  obtain w ws where "split_on sep cs = w # ws" using split_on_nonempty by (metis neq_Nil_conv)
  with Cons show ?case by (cases ws) auto
qed simp

end
