(* ===== verification/Go_Json.thy ===== *)
theory Go_Json
  imports Go_Hash Go_Strings "HOL-Library.List_Lexorder" "HOL-Library.Char_ord"
begin

text \<open>
  The part of Go's package \<open>encoding/json\<close> that the program calls: \<open>Marshal\<close> of structs and maps, \<open>Unmarshal\<close> and
  \<open>Decoder.Decode\<close> into structs of strings and integers and into \<open>map[string]any\<close>. A Go string is its list of bytes, taken to
  be valid UTF-8 without the line separators U+2028 and U+2029, which the encoder would escape. A number keeps its literal.
  A decoder that fails is \<open>None\<close>: the text of its error is not modelled.
\<close>

section \<open>Values and their encoding\<close>

datatype json =
    JNull
  | JBool bool
  | JNum string
  | JStr string
  | JArr "json list"
  | JObj "(string \<times> json) list"

definition backslash :: char where
  "backslash = char_of (92 :: nat)"

definition dquote :: char where
  "dquote = char_of (34 :: nat)"

text \<open>Strings are escaped with \<open>escapeHTML\<close> on, as \<open>Marshal\<close> and a fresh \<open>Encoder\<close> do.\<close>

definition json_char :: "char \<Rightarrow> string" where
  "json_char c = (let k = (of_char c :: nat) in
     if k = 34 \<or> k = 92 then [backslash, c]
     else if k = 8 then [backslash, CHR ''b''] else if k = 12 then [backslash, CHR ''f'']
     else if k = 10 then [backslash, CHR ''n''] else if k = 13 then [backslash, CHR ''r'']
     else if k = 9 then [backslash, CHR ''t'']
     else if k < 32 \<or> k = 60 \<or> k = 62 \<or> k = 38
     then backslash # ''u00'' @ [hex_digit (k div 16), hex_digit (k mod 16)]
     else [c])"

definition json_escape :: "string \<Rightarrow> string" where
  "json_escape s = concat (map json_char s)"

definition json_string :: "string \<Rightarrow> string" where
  "json_string s = dquote # json_escape s @ [dquote]"

fun json_print :: "json \<Rightarrow> string" where
  "json_print JNull = ''null''"
| "json_print (JBool b) = (if b then ''true'' else ''false'')"
| "json_print (JNum lit) = lit"
| "json_print (JStr s) = json_string s"
| "json_print (JArr vs) = ''['' @ strings_Join '','' (map json_print vs) @ '']''"
| "json_print (JObj ms) = ''{'' @ strings_Join '','' (map (\<lambda>(k, v). json_string k @ '':'' @ json_print v) ms) @ ''}''"

text \<open>A Go map, given by its entries, is written with its keys sorted.\<close>

definition JMap :: "(string \<times> json) list \<Rightarrow> json" where
  "JMap kvs = JObj (sort_key fst kvs)"

definition JInt :: "int \<Rightarrow> json" where
  "JInt i = JNum (fmt_d i)"

text \<open>\<open>time.Time\<close> in UTC as \<open>MarshalJSON\<close> writes it, RFC 3339 with the nanoseconds that are not trailing zeros, for the years
  0 to 9999; the civil date of a day is counted in eras of 400 years that start in March.\<close>

definition civil :: "int \<Rightarrow> int \<times> int \<times> int" where
  "civil days =
     (let z = days + 719468; era = z div 146097; doe = z mod 146097;
          yoe = (doe - doe div 1460 + doe div 36524 - doe div 146096) div 365;
          doy = doe - (365 * yoe + yoe div 4 - yoe div 100); mp = (5 * doy + 2) div 153;
          m = (if mp < 10 then mp + 3 else mp - 9)
      in (yoe + era * 400 + (if m \<le> 2 then 1 else 0), m, doy - (153 * mp + 2) div 5 + 1))"

definition pad :: "nat \<Rightarrow> int \<Rightarrow> string" where
  "pad n i = (let ds = fmt_d i in replicate (n - length ds) (CHR ''0'') @ ds)"

definition time_json :: "time \<Rightarrow> json" where
  "time_json t =
     (let secs = t div second; nanos = t mod second; sod = secs mod 86400 in
      case civil (secs div 86400) of
        (y, m, d) \<Rightarrow> JStr (pad 4 y @ ''-'' @ pad 2 m @ ''-'' @ pad 2 d @ ''T'' @
          pad 2 (sod div 3600) @ '':'' @ pad 2 (sod div 60 mod 60) @ '':'' @ pad 2 (sod mod 60) @
          (if nanos = 0 then '''' else CHR ''.'' # rev (dropWhile (\<lambda>c. c = CHR ''0'') (rev (pad 9 nanos)))) @ ''Z''))"

section \<open>Reading\<close>

definition json_space :: "char \<Rightarrow> bool" where
  "json_space c \<longleftrightarrow> (of_char c :: nat) \<in> {9, 10, 13, 32}"

definition skip_ws :: "string \<Rightarrow> string" where
  "skip_ws s = dropWhile json_space s"

definition hex_val :: "char \<Rightarrow> nat option" where
  "hex_val c = (let k = (of_char c :: nat) in
     if 48 \<le> k \<and> k \<le> 57 then Some (k - 48) else if 97 \<le> k \<and> k \<le> 102 then Some (k - 87)
     else if 65 \<le> k \<and> k \<le> 70 then Some (k - 55) else None)"

text \<open>The four hexadecimal digits of a \<open>\u\<close> escape.\<close>

definition u4 :: "char \<Rightarrow> char \<Rightarrow> char \<Rightarrow> char \<Rightarrow> nat option" where
  "u4 a b c d = (case (hex_val a, hex_val b, hex_val c, hex_val d) of
     (Some w, Some x, Some y, Some z) \<Rightarrow> Some (((w * 16 + x) * 16 + y) * 16 + z) | _ \<Rightarrow> None)"

definition utf8 :: "nat \<Rightarrow> string" where
  "utf8 r = map char_of
     (if r < 128 then [r] else if r < 2048 then [192 + r div 64, 128 + r mod 64]
      else if r < 65536 then [224 + r div 4096, 128 + r div 64 mod 64, 128 + r mod 64]
      else [240 + r div 262144, 128 + r div 4096 mod 64, 128 + r div 64 mod 64, 128 + r mod 64])"

definition unescape :: "char \<Rightarrow> char option" where
  "unescape e = (if e \<in> {dquote, backslash, CHR ''/''} then Some e
     else if e = CHR ''b'' then Some (char_of (8 :: nat)) else if e = CHR ''f'' then Some (char_of (12 :: nat))
     else if e = CHR ''n'' then Some (char_of (10 :: nat)) else if e = CHR ''r'' then Some (char_of (13 :: nat))
     else if e = CHR ''t'' then Some (char_of (9 :: nat)) else None)"

definition surrogate :: "nat \<Rightarrow> bool" where
  "surrogate r \<longleftrightarrow> 55296 \<le> r \<and> r < 57344"

text \<open>A high surrogate joins the low surrogate that follows it; one that stands alone reads as U+FFFD.\<close>

definition surrogate_pair :: "nat \<Rightarrow> nat \<Rightarrow> nat option" where
  "surrogate_pair r s = (if r < 56320 \<and> 56320 \<le> s \<and> s < 57344 then Some ((r - 55296) * 1024 + (s - 56320) + 65536) else None)"

definition prepend :: "string \<Rightarrow> (string \<times> 'a) option \<Rightarrow> (string \<times> 'a) option" where
  "prepend x r = (case r of None \<Rightarrow> None | Some (y, rest) \<Rightarrow> Some (x @ y, rest))"

text \<open>An escape, after its backslash: the bytes it stands for and the rest.\<close>

definition read_escape :: "string \<Rightarrow> (string \<times> string) option" where
  "read_escape s =
     (case s of
        [] \<Rightarrow> None
      | e # s1 \<Rightarrow>
          if e \<noteq> CHR ''u'' then map_option (\<lambda>x. ([x], s1)) (unescape e)
          else (case s1 of
                  h1 # h2 # h3 # h4 # s2 \<Rightarrow>
                    (case u4 h1 h2 h3 h4 of
                       None \<Rightarrow> None
                     | Some r \<Rightarrow>
                         if \<not> surrogate r then Some (utf8 r, s2)
                         else (case s2 of
                                 x # y # l1 # l2 # l3 # l4 # s3 \<Rightarrow>
                                   (case (if x = backslash \<and> y = CHR ''u'' then Option.bind (u4 l1 l2 l3 l4) (surrogate_pair r)
                                          else None) of
                                      Some p \<Rightarrow> Some (utf8 p, s3)
                                    | None \<Rightarrow> Some (utf8 65533, s2))
                               | _ \<Rightarrow> Some (utf8 65533, s2)))
                | _ \<Rightarrow> None))"

lemma read_escape_length: "read_escape s = Some (x, t) \<Longrightarrow> length t < length s"
  by (auto simp: read_escape_def split: list.splits option.splits if_splits)

text \<open>The rest of a string after its opening quote, up to the closing one.\<close>

function read_string :: "string \<Rightarrow> (string \<times> string) option" where
  "read_string [] = None"
| "read_string (c # s) =
     (if c = dquote then Some ([], s)
      else if c = backslash then
        (case read_escape s of None \<Rightarrow> None | Some (x, s1) \<Rightarrow> prepend x (read_string s1))
      else if (of_char c :: nat) < 32 then None
      else prepend [c] (read_string s))"
  by pat_completeness auto
termination by (relation "measure length") (auto dest: read_escape_length)

text \<open>A number: a sign, digits without a leading zero, a fraction and an exponent; the literal and what follows it.\<close>

definition read_digits :: "string \<Rightarrow> (string \<times> string) option" where
  "read_digits s = (let ds = takeWhile is_digit s in if ds = [] then None else Some (ds, drop (length ds) s))"

definition read_int :: "string \<Rightarrow> (string \<times> string) option" where
  "read_int s = (if has_prefix s ''0'' then Some (''0'', tl s) else read_digits s)"

definition read_frac :: "string \<Rightarrow> (string \<times> string) option" where
  "read_frac s = (if has_prefix s ''.'' then prepend ''.'' (read_digits (tl s)) else Some ([], s))"

definition read_exp :: "string \<Rightarrow> (string \<times> string) option" where
  "read_exp s = (case s of
     c # t \<Rightarrow> if c \<notin> {CHR ''e'', CHR ''E''} then Some ([], s)
              else if has_prefix t ''+'' \<or> has_prefix t ''-'' then prepend [c, hd t] (read_digits (tl t))
              else prepend [c] (read_digits t)
   | [] \<Rightarrow> Some ([], s))"

definition and_then :: "(string \<times> string) option \<Rightarrow> (string \<Rightarrow> (string \<times> string) option) \<Rightarrow> (string \<times> string) option" where
  "and_then p q = (case p of None \<Rightarrow> None | Some (x, s) \<Rightarrow> prepend x (q s))"

definition read_number :: "string \<Rightarrow> (string \<times> string) option" where
  "read_number s =
     and_then (and_then (if has_prefix s ''-'' then prepend ''-'' (read_int (tl s)) else read_int s) read_frac) read_exp"

text \<open>Values, with fuel \<open>n\<close> (\<open>fuel_enough\<close> below: twice the length of the text is enough) and the number \<open>d\<close> of arrays and objects that may still be opened inside each other: the
  scanner gives up beyond 10000.\<close>

fun read_value :: "nat \<Rightarrow> nat \<Rightarrow> string \<Rightarrow> (json \<times> string) option"
and read_members :: "nat \<Rightarrow> nat \<Rightarrow> string \<Rightarrow> ((string \<times> json) list \<times> string) option"
and read_elements :: "nat \<Rightarrow> nat \<Rightarrow> string \<Rightarrow> (json list \<times> string) option" where
  "read_value 0 d s = None"
| "read_value (Suc n) d s =
     (case skip_ws s of
        [] \<Rightarrow> None
      | c # t \<Rightarrow>
          if c = CHR ''{'' then
            if d = 0 then None
            else if has_prefix (skip_ws t) ''}'' then Some (JObj [], tl (skip_ws t))
            else map_option (map_prod JObj id) (read_members n (d - 1) t)
          else if c = CHR ''['' then
            if d = 0 then None
            else if has_prefix (skip_ws t) '']'' then Some (JArr [], tl (skip_ws t))
            else map_option (map_prod JArr id) (read_elements n (d - 1) t)
          else if c = dquote then map_option (map_prod JStr id) (read_string t)
          else if has_prefix (c # t) ''true'' then Some (JBool True, drop 4 (c # t))
          else if has_prefix (c # t) ''false'' then Some (JBool False, drop 5 (c # t))
          else if has_prefix (c # t) ''null'' then Some (JNull, drop 4 (c # t))
          else map_option (map_prod JNum id) (read_number (c # t)))"
| "read_members 0 d s = None"
| "read_members (Suc n) d s =
     (if \<not> has_prefix (skip_ws s) [dquote] then None
      else
        (case read_string (tl (skip_ws s)) of
           None \<Rightarrow> None
         | Some (k, u) \<Rightarrow>
             (if \<not> has_prefix (skip_ws u) '':'' then None
              else
                (case read_value n d (tl (skip_ws u)) of
                   None \<Rightarrow> None
                 | Some (v, w) \<Rightarrow>
                     (if has_prefix (skip_ws w) ''}'' then Some ([(k, v)], tl (skip_ws w))
                      else if has_prefix (skip_ws w) '','' then
                        map_option (map_prod (Cons (k, v)) id) (read_members n d (tl (skip_ws w)))
                      else None)))))"
| "read_elements 0 d s = None"
| "read_elements (Suc n) d s =
     (case read_value n d s of
        None \<Rightarrow> None
      | Some (v, w) \<Rightarrow>
          if has_prefix (skip_ws w) '']'' then Some ([v], tl (skip_ws w))
          else if has_prefix (skip_ws w) '','' then
            map_option (map_prod (Cons v) id) (read_elements n d (tl (skip_ws w)))
          else None)"

definition maxNestingDepth :: nat where
  "maxNestingDepth = 10000"

text \<open>\<open>Decoder.Decode\<close> reads one value and leaves the rest of the stream; \<open>Unmarshal\<close> wants nothing after it but white
  space.\<close>

definition json_decode :: "string \<Rightarrow> json option" where
  "json_decode s = map_option fst (read_value (2 * length s + 1) maxNestingDepth s)"

definition json_unmarshal :: "string \<Rightarrow> json option" where
  "json_unmarshal s =
     (case read_value (2 * length s + 1) maxNestingDepth s of
        Some (v, rest) \<Rightarrow> if skip_ws rest = [] then Some v else None
      | None \<Rightarrow> None)"

section \<open>Lemmas\<close>

lemma json_chars [simp]:
  "(of_char dquote :: nat) = 34" "(of_char backslash :: nat) = 92" "dquote \<noteq> backslash" "backslash \<noteq> dquote"
  by (simp_all add: dquote_def backslash_def)

lemma char_eq_iff: "c = c' \<longleftrightarrow> (of_char c :: nat) = of_char c'"
  by (metis char_of_char)

lemma json_char_iff:
  "c = dquote \<longleftrightarrow> (of_char c :: nat) = 34" "c = backslash \<longleftrightarrow> (of_char c :: nat) = 92"
  by (simp_all add: char_eq_iff)

lemma json_char_neq [simp]: "CHR ''u'' \<noteq> dquote" "CHR ''u'' \<noteq> backslash" "dquote \<noteq> CHR ''u''" "backslash \<noteq> CHR ''u''"
  by (simp_all add: char_eq_iff)

lemma hex_val_digit: "n < 16 \<Longrightarrow> hex_val (hex_digit n) = Some n"
  by (simp add: hex_val_def hex_digit_def Let_def)

lemma utf8_byte: "(of_char c :: nat) < 128 \<Longrightarrow> utf8 (of_char c) = [c]"
  by (simp add: utf8_def)

lemma u4_byte: "k < 256 \<Longrightarrow> u4 CHR ''0'' CHR ''0'' (hex_digit (k div 16)) (hex_digit (k mod 16)) = Some k"
  by (simp add: u4_def hex_val_digit) (simp add: hex_val_def)
lemma read_string_simple:
  assumes "c \<noteq> dquote" and "c \<noteq> backslash" and "\<not> (of_char c :: nat) < 32"
  shows "read_string (c # s) = prepend [c] (read_string s)"
  using assms by simp

lemma read_string_unescape:
  assumes "unescape e = Some x" and "e \<noteq> CHR ''u''"
  shows "read_string (backslash # e # s) = prepend [x] (read_string s)"
  using assms by (simp add: read_escape_def)

lemma read_string_u4:
  assumes "u4 a b d e = Some r" and "\<not> surrogate r"
  shows "read_string (backslash # CHR ''u'' # a # b # d # e # s) = prepend (utf8 r) (read_string s)"
  using assms by (simp add: read_escape_def)

lemma json_char_cases:
  obtains (quote) "c = dquote \<or> c = backslash"
    | (short) e where "json_char c = [backslash, e]" "unescape e = Some c" "e \<noteq> CHR ''u''"
    | (hex) k where "k = (of_char c :: nat)" "k < 128"
        "json_char c = backslash # ''u00'' @ [hex_digit (k div 16), hex_digit (k mod 16)]"
    | (plain) "json_char c = [c]" "c \<noteq> dquote" "c \<noteq> backslash" "\<not> (of_char c :: nat) < 32"
proof -
  define k where "k = (of_char c :: nat)"
  have c: "c = char_of k" by (simp add: k_def)
  have q: "c = dquote \<longleftrightarrow> k = 34" "c = backslash \<longleftrightarrow> k = 92" by (simp_all add: char_eq_iff k_def)
  consider "k = 34 \<or> k = 92" | "k \<in> {8, 12, 10, 13, 9}"
    | "k \<notin> {34, 92, 8, 12, 10, 13, 9}" "k < 32 \<or> k = 60 \<or> k = 62 \<or> k = 38"
    | "k \<notin> {34, 92}" "\<not> k < 32" "k \<noteq> 60 \<and> k \<noteq> 62 \<and> k \<noteq> 38" by blast
  then show thesis
  proof cases
    case 1
    then show thesis using quote q by blast
  next
    case 2
    then consider "k = 8" | "k = 12" | "k = 10" | "k = 13" | "k = 9" by blast
    then show thesis
    proof cases
      case 1 then show thesis by (intro short [of "CHR ''b''"]) (simp_all add: json_char_def c unescape_def json_char_iff)
    next
      case 2 then show thesis by (intro short [of "CHR ''f''"]) (simp_all add: json_char_def c unescape_def json_char_iff)
    next
      case 3 then show thesis by (intro short [of "CHR ''n''"]) (simp_all add: json_char_def c unescape_def json_char_iff)
    next
      case 4 then show thesis by (intro short [of "CHR ''r''"]) (simp_all add: json_char_def c unescape_def json_char_iff)
    next
      case 5 then show thesis by (intro short [of "CHR ''t''"]) (simp_all add: json_char_def c unescape_def json_char_iff)
    qed
  next
    case 3
    then have "json_char c = backslash # ''u00'' @ [hex_digit (k div 16), hex_digit (k mod 16)]"
      by (simp add: json_char_def Let_def k_def [symmetric])
    with 3 show thesis by (intro hex [of k]) (auto simp: k_def)
  next
    case 4
    then have "json_char c = [c]" by (auto simp: json_char_def Let_def k_def [symmetric])
    with 4 show thesis by (intro plain) (auto simp: q k_def [symmetric])
  qed
qed

lemma read_json_char: "read_string (json_char c @ s) = prepend [c] (read_string s)"
proof (cases c rule: json_char_cases)
  case quote
  then have j: "json_char c = [backslash, c]" "unescape c = Some c"
    by (auto simp: json_char_def unescape_def)
  have "c \<noteq> CHR ''u''" using quote json_char_neq by metis
  with j show ?thesis by (simp del: read_string.simps add: read_string_unescape)
next
  case (hex k)
  then have "u4 CHR ''0'' CHR ''0'' (hex_digit (k div 16)) (hex_digit (k mod 16)) = Some k" by (simp add: u4_byte)
  moreover have "utf8 k = [c]" "\<not> surrogate k" using hex(1,2) by (simp_all add: utf8_byte surrogate_def)
  ultimately show ?thesis using hex(3) by (simp del: read_string.simps add: read_string_u4)
qed (simp_all del: read_string.simps add: read_string_simple read_string_unescape)

lemma read_json_escape: "read_string (json_escape s @ dquote # rest) = Some (s, rest)"
  by (induction s) (simp_all add: json_escape_def read_json_char prepend_def)

lemma skip_ws_id [simp]: "\<not> json_space c \<Longrightarrow> skip_ws (c # s) = c # s"
  by (simp add: skip_ws_def)

lemma skip_ws_dquote [simp]: "skip_ws (dquote # s) = dquote # s"
  by (simp add: json_space_def)

text \<open>What may follow a number without being read as a part of it.\<close>

definition stops :: "string \<Rightarrow> bool" where
  "stops s = (case s of [] \<Rightarrow> True | c # _ \<Rightarrow> \<not> is_digit c \<and> c \<notin> {CHR ''.'', CHR ''e'', CHR ''E''})"

lemma stops_sep [simp]: "stops []" "stops (CHR '','' # s)" "stops (CHR ''}'' # s)" "stops (CHR '']'' # s)"
  by (simp_all add: stops_def is_digit_def)

lemma digits_list_all: "list_all is_digit (nat_digits n)"
  by (auto simp: list_all_iff is_digit_def dest: nat_digits_chars)

lemma read_digits_digits: "stops rest \<Longrightarrow> read_digits (nat_digits n @ rest) = Some (nat_digits n, rest)"
proof -
  assume r: "stops rest"
  have "takeWhile is_digit rest = []" using r by (cases rest) (auto simp: stops_def)
  then have "takeWhile is_digit (nat_digits n @ rest) = nat_digits n"
    using digits_list_all [of n] by (simp add: list_all_iff)
  then show ?thesis by (simp add: read_digits_def digits_nonempty)
qed

lemma nat_digits_zero: "nat_digits 0 = ''0''"
  by (simp add: nat_digits.simps [of 0] char_eq_iff)

lemma nat_digits_hd: "n > 0 \<Longrightarrow> hd (nat_digits n) \<noteq> CHR ''0''"
proof (induction n rule: nat_digits.induct)
  case (1 n)
  show ?case
  proof (cases "n < 10")
    case True
    then have "hd (nat_digits n) = char_of (48 + n)" by (simp add: nat_digits.simps [of n])
    then show ?thesis using True 1(2) by (simp add: char_eq_iff)
  next
    case False
    then have "hd (nat_digits n) = hd (nat_digits (n div 10))"
      by (subst nat_digits.simps) (simp add: digits_nonempty)
    then show ?thesis using 1 False by simp
  qed
qed

lemma read_int_digits: "stops rest \<Longrightarrow> read_int (nat_digits n @ rest) = Some (nat_digits n, rest)"
proof (cases "n = 0")
  case False
  then have "\<not> has_prefix (nat_digits n @ rest) ''0''"
    using nat_digits_hd [of n] digits_nonempty [of n] by (cases "nat_digits n") auto
  moreover assume "stops rest"
  ultimately show ?thesis by (simp add: read_int_def read_digits_digits)
qed (simp add: read_int_def nat_digits_zero)

lemma read_number_fmt_d: "stops rest \<Longrightarrow> read_number (fmt_d i @ rest) = Some (fmt_d i, rest)"
proof -
  assume r: "stops rest"
  have f: "read_frac rest = Some ([], rest)" using r by (cases rest) (auto simp: read_frac_def stops_def)
  have e: "read_exp rest = Some ([], rest)" using r by (cases rest) (auto simp: read_exp_def stops_def)
  have p: "\<not> has_prefix (nat_digits n @ rest) ''-''" for n
    using digits_no_sign(1) [of n] digits_nonempty [of n] by (cases "nat_digits n") auto
  show ?thesis
    by (simp add: read_number_def fmt_d_def p read_int_digits r and_then_def prepend_def f e)
qed

lemma fmt_d_hd:
  obtains c t where "fmt_d i = c # t" "c = CHR ''-'' \<or> is_digit c"
proof (cases "i < 0")
  case False
  obtain c t where c: "nat_digits (nat i) = c # t" using digits_nonempty [of "nat i"] by (cases "nat_digits (nat i)") auto
  then have "is_digit c" using digits_list_all [of "nat i"] by simp
  then show thesis using that c False by (simp add: fmt_d_def)
qed (use that in \<open>simp add: fmt_d_def\<close>)

section \<open>What is written reads back\<close>

text \<open>The values that \<open>d\<close> levels of arrays and objects hold and whose numbers are written integers.\<close>

fun json_fits :: "nat \<Rightarrow> json \<Rightarrow> bool" where
  "json_fits d (JNum lit) = (\<exists>i. lit = fmt_d i)"
| "json_fits d (JArr vs) = (d > 0 \<and> (\<forall>v \<in> set vs. json_fits (d - 1) v))"
| "json_fits d (JObj ms) = (d > 0 \<and> (\<forall>kv \<in> set ms. json_fits (d - 1) (snd kv)))"
| "json_fits d _ = True"

definition reads_back :: "json \<Rightarrow> bool" where
  "reads_back v \<longleftrightarrow> (\<forall>n d rest. json_fits d v \<longrightarrow> length (json_print v) < n \<longrightarrow> stops rest \<longrightarrow>
     read_value n d (json_print v @ rest) = Some (v, rest))"

lemma reads_backD:
  "reads_back v \<Longrightarrow> json_fits d v \<Longrightarrow> length (json_print v) < n \<Longrightarrow> stops rest \<Longrightarrow>
   read_value n d (json_print v @ rest) = Some (v, rest)"
  by (simp add: reads_back_def)

definition print_member :: "string \<times> json \<Rightarrow> string" where
  "print_member kv = json_string (fst kv) @ '':'' @ json_print (snd kv)"

lemma json_print_obj: "json_print (JObj ms) = ''{'' @ strings_Join '','' (map print_member ms) @ ''}''"
  by (simp add: print_member_def [abs_def] case_prod_unfold)

lemma read_member:
  assumes "reads_back v" and "json_fits d v" and "length (json_print v) < n" and "stops w"
  shows "read_members (Suc n) d (print_member (k, v) @ w) =
    (if has_prefix (skip_ws w) ''}'' then Some ([(k, v)], tl (skip_ws w))
     else if has_prefix (skip_ws w) '','' then map_option (map_prod (Cons (k, v)) id) (read_members n d (tl (skip_ws w))) else None)"
proof -
  have "read_string (json_escape k @ dquote # CHR '':'' # json_print v @ w) = Some (k, CHR '':'' # json_print v @ w)"
    by (rule read_json_escape)
  moreover have "skip_ws (CHR '':'' # json_print v @ w) = CHR '':'' # json_print v @ w" by (simp add: json_space_def)
  moreover have "read_value n d (json_print v @ w) = Some (v, w)" using assms by (rule reads_backD)
  ultimately show ?thesis by (simp add: print_member_def json_string_def del: skip_ws_id)
qed

lemma read_members_print:
  assumes "ms \<noteq> []" and "\<forall>kv \<in> set ms. reads_back (snd kv) \<and> json_fits d (snd kv)"
    and "length (strings_Join '','' (map print_member ms)) < n"
  shows "read_members n d (strings_Join '','' (map print_member ms) @ ''}'' @ rest) = Some (ms, rest)"
  using assms
proof (induction ms arbitrary: n)
  case (Cons kv ms)
  obtain k v where kv: "kv = (k, v)" by force
  obtain m where n: "n = Suc m" using Cons.prems(3) by (cases n) auto
  have v: "reads_back v" "json_fits d v" using Cons.prems(2) kv by auto
  have sp: "\<not> json_space CHR ''}''" "\<not> json_space CHR '',''" by (simp_all add: json_space_def)
  show ?case
  proof (cases ms)
    case Nil
    then have "length (json_print v) < m" using Cons.prems(3) n kv by (simp add: print_member_def json_string_def)
    then show ?thesis using read_member [OF v, of m "''}'' @ rest" k] Nil kv n sp by simp
  next
    case (Cons kv' ms')
    let ?tail = "strings_Join '','' (map print_member ms)"
    have j: "strings_Join '','' (map print_member ((k, v) # ms)) = print_member (k, v) @ '','' @ ?tail" using Cons by simp
    have "length (print_member (k, v)) + length ?tail < m" using Cons.prems(3) n unfolding kv j by simp
    then have l: "length (json_print v) < m" "length ?tail < m" by (simp_all add: print_member_def)
    have "read_members m d (?tail @ ''}'' @ rest) = Some (ms, rest)"
      using Cons.IH [OF _ _ l(2)] Cons Cons.prems(2) by simp
    then have "read_members (Suc m) d (print_member (k, v) @ '','' @ ?tail @ ''}'' @ rest) = Some ((k, v) # ms, rest)"
      using read_member [OF v l(1), of "'','' @ ?tail @ ''}'' @ rest" k] sp by (simp del: read_members.simps)
    then show ?thesis unfolding kv j n by (simp only: append_assoc)
  qed
qed simp

lemma read_elements_print:
  assumes "vs \<noteq> []" and "\<forall>v \<in> set vs. reads_back v \<and> json_fits d v"
    and "length (strings_Join '','' (map json_print vs)) + 1 < n"
  shows "read_elements n d (strings_Join '','' (map json_print vs) @ '']'' @ rest) = Some (vs, rest)"
  using assms
proof (induction vs arbitrary: n)
  case (Cons v vs)
  obtain m where n: "n = Suc m" using Cons.prems(3) by (cases n) auto
  have v: "reads_back v" "json_fits d v" using Cons.prems(2) by auto
  have sp: "\<not> json_space CHR '']''" "\<not> json_space CHR '',''" by (simp_all add: json_space_def)
  show ?case
  proof (cases vs)
    case Nil
    then have "length (json_print v) < m" using Cons.prems(3) n by simp
    then show ?thesis using reads_backD [OF v, of m "'']'' @ rest"] Nil n sp by simp
  next
    case (Cons v' vs')
    let ?tail = "strings_Join '','' (map json_print vs)"
    have j: "strings_Join '','' (map json_print (v # vs)) = json_print v @ '','' @ ?tail" using Cons by simp
    have l: "length (json_print v) < m" "length ?tail + 1 < m" using Cons.prems(3) n unfolding j by simp_all
    have "read_elements m d (?tail @ '']'' @ rest) = Some (vs, rest)"
      using Cons.IH [OF _ _ l(2)] Cons Cons.prems(2) by simp
    then show ?thesis
      using reads_backD [OF v l(1), of "'','' @ ?tail @ '']'' @ rest"] sp unfolding j n by simp
  qed
qed simp
lemma json_print_hd:
  assumes "json_fits d v"
  obtains c t where "json_print v = c # t" "\<not> json_space c" "c \<noteq> CHR '']''"
proof (cases v)
  case (JNum lit)
  then obtain i where "lit = fmt_d i" using assms by auto
  moreover obtain c t where c: "fmt_d i = c # t" "c = CHR ''-'' \<or> is_digit c" by (rule fmt_d_hd)
  moreover have "\<not> json_space c" "c \<noteq> CHR '']''" using c(2) by (auto simp: json_space_def is_digit_def)
  ultimately show thesis using JNum that by simp
next
  case (JStr s)
  have "json_print v = dquote # json_escape s @ [dquote]" using JStr by (simp add: json_string_def)
  moreover have "\<not> json_space dquote" "dquote \<noteq> CHR '']''" by (simp_all add: json_space_def char_eq_iff)
  ultimately show thesis by (rule that)
next
  case (JBool b)
  then show thesis using that by (cases b) (simp_all add: json_space_def)
qed (use that in \<open>simp_all add: json_space_def\<close>)

lemma reads_back_num: "reads_back (JNum lit)"
  unfolding reads_back_def
proof (intro allI impI)
  fix n d rest assume a: "json_fits d (JNum lit)" "length (json_print (JNum lit)) < n" "stops rest"
  obtain i where l: "lit = fmt_d i" using a(1) by auto
  obtain c t where c: "fmt_d i = c # t" "c = CHR ''-'' \<or> is_digit c" by (rule fmt_d_hd)
  obtain m where n: "n = Suc m" using a(2) by (cases n) auto
  have neq: "\<not> json_space c" "c \<noteq> CHR ''{''" "c \<noteq> CHR ''[''" "c \<noteq> dquote" "c \<noteq> CHR ''t''" "c \<noteq> CHR ''f''" "c \<noteq> CHR ''n''"
    using c(2) by (auto simp: json_space_def is_digit_def json_char_iff)
  have "read_number (c # t @ rest) = Some (lit, rest)" using read_number_fmt_d [OF a(3), of i] c(1) l by simp
  then show "read_value n d (json_print (JNum lit) @ rest) = Some (JNum lit, rest)"
    using neq by (simp add: n l c(1))
qed

lemma reads_back_str: "reads_back (JStr s)"
  unfolding reads_back_def
proof (intro allI impI)
  fix n d rest assume "length (json_print (JStr s)) < n"
  then obtain m where n: "n = Suc m" by (cases n) auto
  have "dquote \<noteq> CHR ''{''" "dquote \<noteq> CHR ''[''" by (simp_all add: char_eq_iff)
  then show "read_value n d (json_print (JStr s) @ rest) = Some (JStr s, rest)"
    by (simp add: n json_string_def read_json_escape)
qed

lemma reads_back_obj:
  assumes "\<And>kv. kv \<in> set ms \<Longrightarrow> reads_back (snd kv)"
  shows "reads_back (JObj ms)"
  unfolding reads_back_def
proof (intro allI impI)
  fix n d rest assume a: "json_fits d (JObj ms)" "length (json_print (JObj ms)) < n"
  let ?j = "strings_Join '','' (map print_member ms)"
  obtain m where n: "n = Suc m" using a(2) by (cases n) auto
  have sp: "\<not> json_space CHR ''{''" "\<not> json_space CHR ''}''" by (simp_all add: json_space_def)
  show "read_value n d (json_print (JObj ms) @ rest) = Some (JObj ms, rest)"
  proof (cases ms)
    case Nil
    then show ?thesis using a(1) sp by (simp add: n)
  next
    case (Cons kv ms')
    have l: "length ?j < m" using a(2) unfolding json_print_obj n by simp
    have "\<exists>t. ?j = dquote # t" using Cons by (cases ms') (simp_all add: print_member_def json_string_def)
    then obtain t where t: "?j = dquote # t" by blast
    have "read_members m (d - 1) (?j @ ''}'' @ rest) = Some (ms, rest)"
      by (rule read_members_print) (use Cons assms a(1) l in auto)
    moreover have "\<not> has_prefix (skip_ws (?j @ ''}'' @ rest)) ''}''" unfolding t by (simp add: char_eq_iff)
    ultimately show ?thesis using a(1) sp unfolding json_print_obj n by simp
  qed
qed

lemma reads_back_arr:
  assumes "\<And>v. v \<in> set vs \<Longrightarrow> reads_back v"
  shows "reads_back (JArr vs)"
  unfolding reads_back_def
proof (intro allI impI)
  fix n d rest assume a: "json_fits d (JArr vs)" "length (json_print (JArr vs)) < n"
  let ?j = "strings_Join '','' (map json_print vs)"
  obtain m where n: "n = Suc m" using a(2) by (cases n) auto
  have sp: "\<not> json_space CHR ''[''" "\<not> json_space CHR '']''" by (simp_all add: json_space_def)
  show "read_value n d (json_print (JArr vs) @ rest) = Some (JArr vs, rest)"
  proof (cases vs)
    case Nil
    then show ?thesis using a(1) sp by (simp add: n)
  next
    case (Cons v vs')
    then have "json_fits (d - 1) v" using a(1) by simp
    then obtain c t where c: "json_print v = c # t" "\<not> json_space c" "c \<noteq> CHR '']''" by (rule json_print_hd)
    have l: "length ?j + 1 < m" using a(2) n by simp
    have "\<exists>u. ?j = c # u" using Cons c by (cases vs') simp_all
    then obtain u where u: "?j = c # u" by blast
    have "read_elements m (d - 1) (?j @ '']'' @ rest) = Some (vs, rest)"
      by (rule read_elements_print) (use Cons assms a(1) l in auto)
    moreover have "\<not> has_prefix (skip_ws (?j @ '']'' @ rest)) '']''" unfolding u using c by simp
    ultimately show ?thesis using a(1) sp unfolding n by simp
  qed
qed

lemma reads_back_all: "reads_back v"
proof (induction v rule: json_print.induct)
  case 1
  have "CHR ''n'' \<noteq> dquote" by (simp add: char_eq_iff)
  then show ?case by (auto simp: reads_back_def json_space_def dest!: less_imp_Suc_add)
next
  case (2 b)
  have "CHR ''t'' \<noteq> dquote" "CHR ''f'' \<noteq> dquote" by (simp_all add: char_eq_iff)
  then show ?case by (cases b) (auto simp: reads_back_def json_space_def dest!: less_imp_Suc_add)
next
  case (6 ms)
  then show ?case by (intro reads_back_obj) force
qed (simp_all add: reads_back_num reads_back_str reads_back_arr)

text \<open>A value that the encoder wrote, whatever follows it, is the value that the decoder returns, and \<open>Unmarshal\<close> of it
  alone succeeds.\<close>

lemma json_decode_print: "json_fits maxNestingDepth v \<Longrightarrow> stops rest \<Longrightarrow> json_decode (json_print v @ rest) = Some v"
  using reads_backD [OF reads_back_all] by (simp add: json_decode_def del: read_value.simps)

lemma json_unmarshal_print: "json_fits maxNestingDepth v \<Longrightarrow> json_unmarshal (json_print v) = Some v"
  using reads_backD [OF reads_back_all, where rest = "[]"] by (simp add: json_unmarshal_def skip_ws_def del: read_value.simps)

section \<open>The fuel is enough\<close>

lemma skip_ws_length: "length (skip_ws s) \<le> length s"
  by (simp add: skip_ws_def length_dropWhile_le)

lemma skip_ws_ConsD: "skip_ws s = c # t \<Longrightarrow> length t < length s"
  using skip_ws_length [of s] by simp

lemma has_prefix_skip: "has_prefix (skip_ws s) [c] \<Longrightarrow> length (tl (skip_ws s)) < length s"
  using skip_ws_length [of s] by (cases "skip_ws s") auto

lemma prepend_Some: "prepend x r = Some (y, t) \<longleftrightarrow> (\<exists>z. r = Some (z, t) \<and> y = x @ z)"
  by (auto simp: prepend_def split: option.splits)

lemma read_string_length: "read_string s = Some (x, t) \<Longrightarrow> length t < length s"
  by (induction s arbitrary: x t rule: read_string.induct)
    (auto simp: prepend_Some split: if_splits option.splits dest!: read_escape_length, fastforce)

lemma read_digits_length: "read_digits s = Some (x, t) \<Longrightarrow> length t < length s"
proof -
  assume a: "read_digits s = Some (x, t)"
  then have "s = takeWhile is_digit s @ t" "takeWhile is_digit s \<noteq> []"
    by (auto simp: read_digits_def Let_def dropWhile_eq_drop [symmetric] split: if_splits)
  then show "length t < length s" by (metis length_append length_greater_0_conv less_add_same_cancel2)
qed

lemma and_then_Some: "and_then p q = Some (y, t) \<longleftrightarrow> (\<exists>x s z. p = Some (x, s) \<and> q s = Some (z, t) \<and> y = x @ z)"
  by (auto simp: and_then_def prepend_Some split: option.splits)

lemma read_int_length: "read_int s = Some (x, t) \<Longrightarrow> length t < length s"
  by (cases s) (auto simp: read_int_def dest: read_digits_length split: if_splits)

lemma read_frac_length: "read_frac s = Some (x, t) \<Longrightarrow> length t \<le> length s"
  by (cases s) (auto simp: read_frac_def prepend_Some dest!: read_digits_length split: if_splits)

lemma read_exp_length: "read_exp s = Some (x, t) \<Longrightarrow> length t \<le> length s"
  by (cases s) (auto simp: read_exp_def prepend_Some dest!: read_digits_length split: if_splits)

lemma read_number_length: "read_number s = Some (x, t) \<Longrightarrow> length t < length s"
  by (cases s) (fastforce simp: read_number_def and_then_Some prepend_Some split: if_splits
      dest!: read_int_length read_frac_length read_exp_length)+

lemma has_prefix_Cons: "has_prefix (c # t) (p # ps) \<Longrightarrow> length (drop (length (p # ps)) (c # t)) < length (c # t)"
  by simp

lemma read_length:
  "read_value n d s = Some (v, t) \<Longrightarrow> length t < length s"
  "read_members n d s = Some (ms, t) \<Longrightarrow> length t < length s"
  "read_elements n d s = Some (vs, t) \<Longrightarrow> length t < length s"
proof (induction n d s and n d s and n d s arbitrary: v t and ms t and vs t rule: read_value_read_members_read_elements.induct)
  case (2 n d s)
  obtain c u where c: "skip_ws s = c # u" using "2.prems" by (cases "skip_ws s") auto
  have l: "length u < length s" "length (skip_ws u) \<le> length u" using skip_ws_ConsD [OF c] skip_ws_length by auto
  have st: "read_string u = Some (x, t) \<Longrightarrow> length t < length s" for x using read_string_length l(1) by fastforce
  have nu: "read_number (c # u) = Some (x, t) \<Longrightarrow> length t < length s" for x
    using read_number_length [of "c # u" x t] skip_ws_length [of s] c by simp
  show ?case
    using "2.prems" l st nu "2.IH" [OF c]
    by (auto simp: c split: if_splits)
next
  case (4 n d s)
  then show ?case
    by (fastforce split: if_splits option.splits dest!: has_prefix_skip read_string_length)
next
  case (6 n d s)
  then show ?case
    by (fastforce split: if_splits option.splits dest!: has_prefix_skip)
qed simp_all

text \<open>With more fuel than twice the length of the text the result does not depend on it.\<close>

definition fuel_free :: "string \<Rightarrow> bool" where
  "fuel_free s \<longleftrightarrow>
     (\<forall>n m d. 2 * length s < n \<longrightarrow> 2 * length s < m \<longrightarrow>
        read_value n d s = read_value m d s \<and> read_members n d s = read_members m d s) \<and>
     (\<forall>n m d. 2 * length s + 1 < n \<longrightarrow> 2 * length s + 1 < m \<longrightarrow> read_elements n d s = read_elements m d s)"

lemma fuel_free_value:
  assumes "\<And>t. length t < length s \<Longrightarrow> fuel_free t" and "2 * length s < n" and "2 * length s < m"
  shows "read_value n d s = read_value m d s"
proof -
  obtain n' m' where nm: "n = Suc n'" "m = Suc m'" using assms by (cases n; cases m) auto
  show ?thesis
  proof (cases "skip_ws s")
    case (Cons c u)
    have l: "length u < length s" using skip_ws_ConsD [OF Cons] .
    then have "2 * length u + 1 < n'" "2 * length u + 1 < m'" using assms nm by linarith+
    then have "read_members n' e u = read_members m' e u" "read_elements n' e u = read_elements m' e u" for e
      using assms(1) [OF l] unfolding fuel_free_def by (metis Suc_lessD Suc_eq_plus1)+
    then show ?thesis unfolding nm by (simp add: Cons)
  qed (simp add: nm)
qed

lemma fuel_free_members:
  assumes "\<And>t. length t < length s \<Longrightarrow> fuel_free t" and "2 * length s < n" and "2 * length s < m"
  shows "read_members n d s = read_members m d s"
proof -
  obtain n' m' where nm: "n = Suc n'" "m = Suc m'" using assms by (cases n; cases m) auto
  have smaller: "read_value n' e t = read_value m' e t" "read_members n' e t = read_members m' e t" if "length t < length s" for e t
  proof -
    have "2 * length t < n'" "2 * length t < m'" using that assms(2,3) nm by linarith+
    then show "read_value n' e t = read_value m' e t" "read_members n' e t = read_members m' e t"
      using assms(1) [OF that] unfolding fuel_free_def by blast+
  qed
  show ?thesis
  proof (cases "has_prefix (skip_ws s) [dquote]")
    case True
    note l1 = has_prefix_skip [OF this]
    show ?thesis
    proof (cases "read_string (tl (skip_ws s))")
      case (Some ku)
      obtain k u where ku: "ku = (k, u)" by force
      have l2: "length u < length s" using read_string_length [of _ k u] Some ku l1 by fastforce
      show ?thesis
      proof (cases "has_prefix (skip_ws u) '':''")
        case True
        note l3 = has_prefix_skip [OF this]
        have v: "read_value n' d (tl (skip_ws u)) = read_value m' d (tl (skip_ws u))"
          by (rule smaller(1)) (use l2 l3 in linarith)
        have "read_members n' d (tl (skip_ws w)) = read_members m' d (tl (skip_ws w))"
          if "read_value m' d (tl (skip_ws u)) = Some (x, w)" "has_prefix (skip_ws w) '',''" for x w
          by (rule smaller(2)) (use read_length(1) [OF that(1)] has_prefix_skip [OF that(2)] l2 l3 in linarith)
        then show ?thesis unfolding nm using True Some ku v by (simp split: option.splits)
      qed (simp add: nm Some ku)
    qed (simp add: nm)
  qed (simp add: nm)
qed

lemma fuel_free_all: "fuel_free s"
proof (induction "length s" arbitrary: s rule: less_induct)
  case less
  note IH = less.hyps
  have v: "read_value n d s = read_value m d s" if "2 * length s < n" "2 * length s < m" for n m d
    by (rule fuel_free_value [OF IH that])
  have "read_elements n d s = read_elements m d s" if a: "2 * length s + 1 < n" "2 * length s + 1 < m" for n m d
  proof -
    obtain n' m' where nm: "n = Suc n'" "m = Suc m'" using a by (cases n; cases m) auto
    have e: "read_value n' d s = read_value m' d s" by (rule v) (use a nm in linarith)+
    have "read_elements n' d (tl (skip_ws w)) = read_elements m' d (tl (skip_ws w))"
      if r: "read_value m' d s = Some (x, w)" "has_prefix (skip_ws w) '',''" for x w
    proof -
      have l: "length (tl (skip_ws w)) < length s" using read_length(1) [OF r(1)] has_prefix_skip [OF r(2)] by linarith
      then have "2 * length (tl (skip_ws w)) + 1 < n'" "2 * length (tl (skip_ws w)) + 1 < m'"
        using \<open>2 * length s + 1 < n\<close> \<open>2 * length s + 1 < m\<close> nm by linarith+
      then show ?thesis using IH [OF l] unfolding fuel_free_def by blast
    qed
    then show ?thesis unfolding nm using e by (simp split: option.splits)
  qed
  then show ?case unfolding fuel_free_def using v fuel_free_members [OF IH] by blast
qed

lemma fuel_enough: "2 * length s < n \<Longrightarrow> read_value n d s = read_value (2 * length s + 1) d s"
  using fuel_free_all [of s] unfolding fuel_free_def by (metis less_add_one)

section \<open>Structs\<close>

text \<open>
  A struct is decoded member by member into the value it had before. A key selects the field of that name, else one that
  differs in case only, else nothing. A value of another type leaves its field and makes the decoding fail in the end, but the
  members after it are still stored: the result is the struct with a flag that says whether all went well. \<open>null\<close> leaves
  everything as it was.
\<close>

definition find_field :: "(string \<times> 'a) list \<Rightarrow> string \<Rightarrow> 'a option" where
  "find_field fs k =
     (case map_of fs k of Some f \<Rightarrow> Some f | None \<Rightarrow> map_option snd (find (\<lambda>p. to_lower (fst p) = to_lower k) fs))"

type_synonym 'r setter = "json \<Rightarrow> 'r \<Rightarrow> 'r option"

fun decode_members :: "(string \<times> 'r setter) list \<Rightarrow> (string \<times> json) list \<Rightarrow> 'r \<Rightarrow> 'r \<times> bool" where
  "decode_members fs [] r = (r, True)"
| "decode_members fs ((k, v) # ms) r =
     (case find_field fs k of
        None \<Rightarrow> decode_members fs ms r
      | Some f \<Rightarrow>
          (case f v r of
             Some r' \<Rightarrow> decode_members fs ms r'
           | None \<Rightarrow> (fst (decode_members fs ms r), False)))"

definition decode_struct :: "(string \<times> 'r setter) list \<Rightarrow> json \<Rightarrow> 'r \<Rightarrow> 'r \<times> bool" where
  "decode_struct fs v r =
     (case v of JNull \<Rightarrow> (r, True) | JObj ms \<Rightarrow> decode_members fs ms r | _ \<Rightarrow> (r, False))"

definition string_field :: "(string \<Rightarrow> 'r \<Rightarrow> 'r) \<Rightarrow> 'r setter" where
  "string_field upd v r = (case v of JStr s \<Rightarrow> Some (upd s r) | JNull \<Rightarrow> Some r | _ \<Rightarrow> None)"

definition int64_field :: "(int \<Rightarrow> 'r \<Rightarrow> 'r) \<Rightarrow> 'r setter" where
  "int64_field upd v r = (case v of JNum lit \<Rightarrow> map_option (\<lambda>i. upd i r) (Atoi lit) | JNull \<Rightarrow> Some r | _ \<Rightarrow> None)"

text \<open>\<open>json.Unmarshal\<close> and \<open>json.NewDecoder(r).Decode\<close> into a struct that was \<open>r\<close>.\<close>

definition unmarshal_struct :: "(string \<times> 'r setter) list \<Rightarrow> 'r \<Rightarrow> string \<Rightarrow> 'r \<times> bool" where
  "unmarshal_struct fs r s = (case json_unmarshal s of None \<Rightarrow> (r, False) | Some v \<Rightarrow> decode_struct fs v r)"

definition decoder_Decode :: "(string \<times> 'r setter) list \<Rightarrow> 'r \<Rightarrow> string \<Rightarrow> 'r \<times> bool" where
  "decoder_Decode fs r s = (case json_decode s of None \<Rightarrow> (r, False) | Some v \<Rightarrow> decode_struct fs v r)"

lemma string_field_JStr [simp]: "string_field upd (JStr s) r = Some (upd s r)"
  by (simp add: string_field_def)

lemma int64_field_JInt: "- (2 ^ 63) \<le> i \<Longrightarrow> i < 2 ^ 63 \<Longrightarrow> int64_field upd (JInt i) r = Some (upd i r)"
  by (simp add: int64_field_def JInt_def Atoi_fmt_d)

lemma find_field_here: "find_field ((k, f) # fs) k = Some f"
  by (simp add: find_field_def)

lemma json_fits_JInt [simp]: "json_fits d (JInt i)"
  by (auto simp: JInt_def)

lemma unmarshal_struct_print:
  "json_fits maxNestingDepth v \<Longrightarrow> unmarshal_struct fs r (json_print v) = decode_struct fs v r"
  by (simp add: unmarshal_struct_def json_unmarshal_print)

lemma decoder_Decode_print:
  "json_fits maxNestingDepth v \<Longrightarrow> stops rest \<Longrightarrow> decoder_Decode fs r (json_print v @ rest) = decode_struct fs v r"
  by (simp add: decoder_Decode_def json_decode_print)

lemma time_json_fits [simp]: "json_fits d (time_json t)"
  by (simp add: time_json_def Let_def split: prod.split)

end
