(* ===== verification/Store.thy ===== *)
theory Store
  imports State_Machine Go_Json
begin

text \<open>
  The persistence boundary, \<open>internal/store/store.go\<close>: the row types, the keys, the
  interfaces \<open>Store\<close> and \<open>TxStore\<close> as a record of operations on a state \<open>'s\<close>, and the
  in-memory implementation \<open>MemStore\<close>. The contract an executor relies on is the locale
  \<open>store_contract\<close>, interpreted here on \<open>MemStore\<close>. The mutex of \<open>MemStore\<close> makes every
  method one atomic step, so each method is one function on the store.
\<close>

section \<open>Rows\<close>

datatype StepStatus =
    StepPending | StepRunning | StepSucceeded | StepFailed | StepCompensating | StepCompensated
  | StatusOther string

datatype OutboxStatus = OutboxPending | OutboxInflight | OutboxPublished

text \<open>Values of a \<open>map[string]any\<close> that the program stores. \<open>AJson\<close> is a \<open>float64\<close>, a list or a map that \<open>json.Unmarshal\<close>
  made of a number, an array or an object; it is kept as the JSON value, since no code computes with it.\<close>

datatype any = AStr string | AInt int | ABool bool | ANil | AJson json

type_synonym payload = "string \<rightharpoonup> any"

record Transaction =
  tx_ID :: uuid
  tx_TxID :: string
  tx_UserID :: string
  tx_QuoteID :: string
  tx_Amount :: string
  tx_Asset :: string
  tx_Rail :: string
  tx_DestAddress :: string
  tx_Status :: State
  tx_CreatedAt :: time
  tx_UpdatedAt :: time
  tx_Version :: int

record StepRow =
  row_ID :: uuid
  row_TxID :: string
  row_StepName :: Step
  row_Status :: StepStatus
  row_Attempt :: int
  row_StartedAt :: "time option"
  row_FinishedAt :: "time option"
  row_Error :: string
  row_IdempotencyKey :: string

record SagaState =
  sg_ID :: uuid
  sg_TxID :: string
  sg_CurrentStep :: Step
  sg_State :: State
  sg_LeaseOwner :: string
  sg_LeaseExpiresAt :: "time option"
  sg_Payload :: payload
  sg_Version :: int

record OutboxEvent =
  ev_ID :: uuid
  ev_EventID :: string
  ev_TxID :: string
  ev_EventType :: string
  ev_Step :: string
  ev_Attempt :: int
  ev_Payload :: payload
  ev_CreatedAt :: time
  ev_PublishedAt :: "time option"
  ev_Status :: OutboxStatus
  ev_DedupKey :: string

text \<open>The zero values that a failing load returns beside its error.\<close>

definition zero_row :: StepRow where
  "zero_row = \<lparr>row_ID = '''', row_TxID = '''', row_StepName = StepOther '''',
     row_Status = StatusOther '''', row_Attempt = 0, row_StartedAt = None,
     row_FinishedAt = None, row_Error = '''', row_IdempotencyKey = ''''\<rparr>"

definition zero_saga :: SagaState where
  "zero_saga = \<lparr>sg_ID = '''', sg_TxID = '''', sg_CurrentStep = StepOther '''',
     sg_State = StateOther '''', sg_LeaseOwner = '''', sg_LeaseExpiresAt = None,
     sg_Payload = Map.empty, sg_Version = 0\<rparr>"

section \<open>Keys\<close>

definition IdempotencyKey :: "string \<Rightarrow> Step \<Rightarrow> int \<Rightarrow> string" where
  "IdempotencyKey txID step attempt =
     hex_encode (sha256 (string_bytes
       (txID @ ''|'' @ step_string step @ ''|'' @ fmt_d attempt)))"

definition DedupKey :: "string \<Rightarrow> string \<Rightarrow> string \<Rightarrow> int \<Rightarrow> string" where
  "DedupKey txID eventType step attempt =
     txID @ ''|'' @ eventType @ ''|'' @ step @ ''|'' @ fmt_d attempt"

section \<open>Payloads as JSON\<close>

primrec json_of_any :: "any \<Rightarrow> json" where
  "json_of_any (AStr s) = JStr s"
| "json_of_any (AInt i) = JInt i"
| "json_of_any (ABool b) = JBool b"
| "json_of_any ANil = JNull"
| "json_of_any (AJson v) = v"

text \<open>The entries of a payload in the order of their keys, as \<open>json.Marshal\<close> visits a map.\<close>

definition payload_json :: "payload \<Rightarrow> json" where
  "payload_json p = JObj (map (\<lambda>k. (k, json_of_any (the (p k)))) (sorted_list_of_set (dom p)))"

text \<open>A nil map and an empty one are written alike.\<close>

definition EncodeJSON :: "payload \<Rightarrow> string" where
  "EncodeJSON p = json_print (payload_json p)"

section \<open>The in-memory store\<close>

text \<open>A missing key of \<open>steps\<close> reads as the nil slice, so the map of slices is a total
  function to lists.\<close>

record mem_store =
  ms_txs :: "string \<rightharpoonup> Transaction"
  ms_steps :: "string \<Rightarrow> StepRow list"
  ms_sagas :: "string \<rightharpoonup> SagaState"
  ms_outbox :: "OutboxEvent list"

definition NewMemStore :: mem_store where
  "NewMemStore = \<lparr>ms_txs = Map.empty, ms_steps = (\<lambda>_. []), ms_sagas = Map.empty, ms_outbox = []\<rparr>"

definition mem_LoadTx :: "string \<Rightarrow> mem_store \<Rightarrow> go_error + Transaction" where
  "mem_LoadTx txID s =
     (case ms_txs s txID of None \<Rightarrow> Inl (Sentinel ErrNotFound) | Some t \<Rightarrow> Inr t)"

definition mem_LoadSagaState :: "string \<Rightarrow> mem_store \<Rightarrow> go_error + SagaState" where
  "mem_LoadSagaState txID s =
     (case ms_sagas s txID of None \<Rightarrow> Inl (Sentinel ErrNotFound) | Some sg \<Rightarrow> Inr sg)"

definition mem_ListSteps :: "string \<Rightarrow> mem_store \<Rightarrow> go_error + StepRow list" where
  "mem_ListSteps txID s = Inr (ms_steps s txID)"

text \<open>The loop of \<open>ListOutboxPending\<close>; \<open>n\<close> is \<open>len(out)\<close>. The limit is tested after an event
  is taken.\<close>

fun pending_upto :: "int \<Rightarrow> int \<Rightarrow> OutboxEvent list \<Rightarrow> OutboxEvent list" where
  "pending_upto limit n [] = []"
| "pending_upto limit n (e # es) =
     (if ev_Status e = OutboxPending
      then e # (if limit \<le> n + 1 then [] else pending_upto limit (n + 1) es)
      else pending_upto limit n es)"

definition mem_ListOutboxPending :: "int \<Rightarrow> mem_store \<Rightarrow> go_error + OutboxEvent list" where
  "mem_ListOutboxPending limit s = Inr (pending_upto limit 0 (ms_outbox s))"

text \<open>\<open>range\<close> over a Go map visits the keys in an unspecified order: \<open>order\<close> is that order,
  a parameter.\<close>

definition mem_ListInflightSagaIDs :: "string list \<Rightarrow> mem_store \<Rightarrow> go_error + string list" where
  "mem_ListInflightSagaIDs order s =
     Inr (filter (\<lambda>id. case ms_sagas s id of None \<Rightarrow> False | Some sg \<Rightarrow> \<not> Terminal (sg_State sg)) order)"

definition with_tx_id :: "uuid \<Rightarrow> Transaction \<Rightarrow> Transaction" where
  "with_tx_id u t = (if tx_ID t = '''' then t\<lparr>tx_ID := u\<rparr> else t)"

definition with_row_id :: "uuid \<Rightarrow> StepRow \<Rightarrow> StepRow" where
  "with_row_id u r = (if row_ID r = '''' then r\<lparr>row_ID := u\<rparr> else r)"

definition with_sg_id :: "uuid \<Rightarrow> SagaState \<Rightarrow> SagaState" where
  "with_sg_id u g = (if sg_ID g = '''' then g\<lparr>sg_ID := u\<rparr> else g)"

definition with_ev_id :: "uuid \<Rightarrow> OutboxEvent \<Rightarrow> OutboxEvent" where
  "with_ev_id u e = (if ev_ID e = '''' then e\<lparr>ev_ID := u\<rparr> else e)"

text \<open>\<open>ids i\<close> is the i-th identifier that \<open>NewID\<close> would return during the call.\<close>

definition mem_CreateTx ::
  "(nat \<Rightarrow> uuid) \<Rightarrow> Transaction \<Rightarrow> StepRow list \<Rightarrow> SagaState \<Rightarrow> OutboxEvent list \<Rightarrow> (mem_store, unit) go"
where
  "mem_CreateTx ids t steps saga events s =
     (if ms_txs s (tx_TxID t) \<noteq> None then (Inl (Sentinel ErrDuplicate), s)
      else
        (Inr (),
         s\<lparr>ms_txs := (ms_txs s)(tx_TxID t \<mapsto> with_tx_id (ids 0) t),
           ms_steps := (ms_steps s)(tx_TxID t :=
             map (\<lambda>(i, r). with_row_id (ids (1 + i)) r) (enumerate 0 steps)),
           ms_sagas := (ms_sagas s)(tx_TxID t \<mapsto> with_sg_id (ids (1 + length steps)) saga),
           ms_outbox := ms_outbox s @
             map (\<lambda>(i, e). with_ev_id (ids (2 + length steps + i)) e) (enumerate 0 events)\<rparr>))"

definition row_is :: "Step \<Rightarrow> int \<Rightarrow> StepRow \<Rightarrow> bool" where
  "row_is step attempt r \<longleftrightarrow> row_StepName r = step \<and> row_Attempt r = attempt"

definition find_row :: "Step \<Rightarrow> int \<Rightarrow> StepRow list \<Rightarrow> StepRow option" where
  "find_row step attempt rows = find (row_is step attempt) rows"

definition mem_InsertStep :: "uuid \<Rightarrow> StepRow \<Rightarrow> (mem_store, unit) go" where
  "mem_InsertStep u row s =
     (case find_row (row_StepName row) (row_Attempt row) (ms_steps s (row_TxID row)) of
        Some _ \<Rightarrow> (Inl (Sentinel ErrDuplicate), s)
      | None \<Rightarrow>
          (Inr (), s\<lparr>ms_steps := (ms_steps s)(row_TxID row :=
             ms_steps s (row_TxID row) @ [with_row_id u row])\<rparr>))"

text \<open>Replacement of the first row with the same step and attempt.\<close>

fun replace_row :: "StepRow \<Rightarrow> StepRow list \<Rightarrow> StepRow list" where
  "replace_row row [] = []"
| "replace_row row (r # rs) =
     (if row_is (row_StepName row) (row_Attempt row) r then row # rs else r # replace_row row rs)"

definition mem_UpdateStep :: "StepRow \<Rightarrow> (mem_store, unit) go" where
  "mem_UpdateStep row s =
     (case find_row (row_StepName row) (row_Attempt row) (ms_steps s (row_TxID row)) of
        None \<Rightarrow> (Inl (Sentinel ErrNotFound), s)
      | Some _ \<Rightarrow>
          (Inr (), s\<lparr>ms_steps := (ms_steps s)(row_TxID row :=
             replace_row row (ms_steps s (row_TxID row)))\<rparr>))"

definition mem_LoadStep :: "string \<Rightarrow> Step \<Rightarrow> int \<Rightarrow> mem_store \<Rightarrow> go_error + StepRow" where
  "mem_LoadStep txID step attempt s =
     (case find_row step attempt (ms_steps s txID) of
        None \<Rightarrow> Inl (Sentinel ErrNotFound) | Some r \<Rightarrow> Inr r)"

definition mem_UpdateTransactionStatus ::
  "time \<Rightarrow> string \<Rightarrow> State \<Rightarrow> int \<Rightarrow> (mem_store, unit) go" where
  "mem_UpdateTransactionStatus now txID status version s =
     (case ms_txs s txID of
        None \<Rightarrow> (Inl (Sentinel ErrNotFound), s)
      | Some t \<Rightarrow>
          if tx_Version t \<noteq> version then (Inl (Sentinel ErrConflict), s)
          else (Inr (), s\<lparr>ms_txs := (ms_txs s)(txID \<mapsto>
                 t\<lparr>tx_Status := status, tx_Version := version + 1, tx_UpdatedAt := now\<rparr>)\<rparr>))"

definition mem_SaveSagaState :: "SagaState \<Rightarrow> (mem_store, unit) go" where
  "mem_SaveSagaState saga s =
     (case ms_sagas s (sg_TxID saga) of
        None \<Rightarrow> (Inl (Sentinel ErrNotFound), s)
      | Some cur \<Rightarrow>
          if sg_Version cur \<noteq> sg_Version saga - 1 then (Inl (Sentinel ErrConflict), s)
          else (Inr (), s\<lparr>ms_sagas := (ms_sagas s)(sg_TxID saga \<mapsto>
                 saga\<lparr>sg_Version := sg_Version cur + 1\<rparr>)\<rparr>))"

definition mem_AppendOutbox :: "OutboxEvent list \<Rightarrow> (mem_store, unit) go" where
  "mem_AppendOutbox events s =
     (if (\<exists>e \<in> set events. \<exists>ex \<in> set (ms_outbox s). ev_DedupKey ex = ev_DedupKey e)
      then (Inl (Sentinel ErrDuplicate), s)
      else (Inr (), s\<lparr>ms_outbox := ms_outbox s @ events\<rparr>))"

fun mark_first :: "time \<Rightarrow> string \<Rightarrow> OutboxEvent list \<Rightarrow> OutboxEvent list" where
  "mark_first at i [] = []"
| "mark_first at i (e # es) =
     (if ev_EventID e = i then e\<lparr>ev_Status := OutboxPublished, ev_PublishedAt := Some at\<rparr> # es
      else e # mark_first at i es)"

definition mem_MarkOutboxPublished :: "string list \<Rightarrow> time \<Rightarrow> (mem_store, unit) go" where
  "mem_MarkOutboxPublished eventIDs at s =
     (Inr (), s\<lparr>ms_outbox := fold (mark_first at) eventIDs (ms_outbox s)\<rparr>)"

text \<open>The loop of \<open>ClaimOutboxPending\<close>: the claimed events and the outbox after the loop;
  \<open>n\<close> is \<open>len(out)\<close>.\<close>

fun claim_upto :: "int \<Rightarrow> int \<Rightarrow> OutboxEvent list \<Rightarrow> OutboxEvent list \<times> OutboxEvent list" where
  "claim_upto limit n [] = ([], [])"
| "claim_upto limit n (e # es) =
     (if ev_Status e = OutboxPending
      then let e' = e\<lparr>ev_Status := OutboxInflight\<rparr>
           in if limit \<le> n + 1 then ([e'], e' # es)
              else (case claim_upto limit (n + 1) es of (c, r) \<Rightarrow> (e' # c, e' # r))
      else (case claim_upto limit n es of (c, r) \<Rightarrow> (c, e # r)))"

definition mem_ClaimOutboxPending :: "int \<Rightarrow> (mem_store, OutboxEvent list) go" where
  "mem_ClaimOutboxPending limit s =
     (case claim_upto limit 0 (ms_outbox s) of (c, r) \<Rightarrow> (Inr c, s\<lparr>ms_outbox := r\<rparr>))"

text \<open>\<open>memTx.Commit\<close> and \<open>memTx.Rollback\<close>: the methods of \<open>memTxStore\<close> write to the store
  itself, so a commit changes nothing more and a rollback undoes nothing.\<close>

definition mem_Commit :: "mem_store \<Rightarrow> (mem_store, unit) go" where
  "mem_Commit pre post = (Inr (), post)"

definition mem_Rollback :: "mem_store \<Rightarrow> mem_store \<Rightarrow> mem_store" where
  "mem_Rollback pre post = post"

end
