(* ===== verification/Store_Contract.thy ===== *)
theory Store_Contract
  imports Store
begin

text \<open>
  The interfaces \<open>Store\<close> and \<open>TxStore\<close> of \<open>internal/store/store.go\<close> as a record of
  operations, \<open>RunInTx\<close> over it, and what the rest of the program relies on: the locale
  \<open>store_contract\<close>. The contract relates an implementation to the tables it stores, through
  \<open>tables\<close>: every operation succeeds exactly when the one of \<open>MemStore\<close> on the tables does,
  and has its effect. What an implementation may choose is fixed by three functions: which
  surrogate identifiers an update keeps (\<open>keep_row\<close>, \<open>keep_saga\<close>) and which identifiers an
  outbox insert fills in (\<open>fill_ev\<close>); and whether a failed transaction is undone.
\<close>

section \<open>The interface\<close>

record 's store_ops =
  op_LoadTx :: "string \<Rightarrow> 's \<Rightarrow> go_error + Transaction"
  op_LoadSagaState :: "string \<Rightarrow> 's \<Rightarrow> go_error + SagaState"
  op_ListSteps :: "string \<Rightarrow> 's \<Rightarrow> go_error + StepRow list"
  op_ListOutboxPending :: "int \<Rightarrow> 's \<Rightarrow> go_error + OutboxEvent list"
  op_ListInflightSagaIDs :: "string list \<Rightarrow> 's \<Rightarrow> go_error + string list"
  op_CreateTx :: "(nat \<Rightarrow> uuid) \<Rightarrow> Transaction \<Rightarrow> StepRow list \<Rightarrow> SagaState \<Rightarrow>
    OutboxEvent list \<Rightarrow> ('s, unit) go"
  op_UpdateStep :: "StepRow \<Rightarrow> ('s, unit) go"
  op_InsertStep :: "uuid \<Rightarrow> StepRow \<Rightarrow> ('s, unit) go"
  op_UpdateTransactionStatus :: "time \<Rightarrow> string \<Rightarrow> State \<Rightarrow> int \<Rightarrow> ('s, unit) go"
  op_SaveSagaState :: "SagaState \<Rightarrow> ('s, unit) go"
  op_LoadStep :: "string \<Rightarrow> Step \<Rightarrow> int \<Rightarrow> 's \<Rightarrow> go_error + StepRow"
  op_AppendOutbox :: "(nat \<Rightarrow> uuid) \<Rightarrow> OutboxEvent list \<Rightarrow> ('s, unit) go"
  op_MarkOutboxPublished :: "string list \<Rightarrow> time \<Rightarrow> ('s, unit) go"
  op_ClaimOutboxPending :: "int \<Rightarrow> ('s, OutboxEvent list) go"
  op_Commit :: "'s \<Rightarrow> ('s, unit) go"
  op_Rollback :: "'s \<Rightarrow> 's \<Rightarrow> 's"

text \<open>\<open>RunInTx\<close>: the same code in \<open>MemStore\<close> and \<open>PgStore\<close>. The closure may also return
  values, which stand for the variables it captures.\<close>

definition RunInTx :: "'s store_ops \<Rightarrow> ('s, 'a) go \<Rightarrow> ('s, 'a) go" where
  "RunInTx ops fn s =
     (case fn s of
        (Inl err, s') \<Rightarrow> (Inl err, op_Rollback ops s s')
      | (Inr x, s') \<Rightarrow>
          (case op_Commit ops s s' of
             (Inl err, s'') \<Rightarrow> (Inl err, s'')
           | (Inr _, s'') \<Rightarrow> (Inr x, s'')))"

definition mem_ops :: "mem_store store_ops" where
  "mem_ops = \<lparr>
     op_LoadTx = mem_LoadTx, op_LoadSagaState = mem_LoadSagaState, op_ListSteps = mem_ListSteps,
     op_ListOutboxPending = mem_ListOutboxPending,
     op_ListInflightSagaIDs = mem_ListInflightSagaIDs,
     op_CreateTx = mem_CreateTx, op_UpdateStep = mem_UpdateStep, op_InsertStep = mem_InsertStep,
     op_UpdateTransactionStatus = mem_UpdateTransactionStatus,
     op_SaveSagaState = mem_SaveSagaState, op_LoadStep = mem_LoadStep,
     op_AppendOutbox = (\<lambda>_. mem_AppendOutbox),
     op_MarkOutboxPublished = mem_MarkOutboxPublished,
     op_ClaimOutboxPending = mem_ClaimOutboxPending,
     op_Commit = mem_Commit, op_Rollback = mem_Rollback\<rparr>"

lemma mem_ops_simps [simp]:
  "op_LoadTx mem_ops = mem_LoadTx" "op_LoadSagaState mem_ops = mem_LoadSagaState"
  "op_ListSteps mem_ops = mem_ListSteps" "op_ListOutboxPending mem_ops = mem_ListOutboxPending"
  "op_ListInflightSagaIDs mem_ops = mem_ListInflightSagaIDs"
  "op_CreateTx mem_ops = mem_CreateTx" "op_UpdateStep mem_ops = mem_UpdateStep"
  "op_InsertStep mem_ops = mem_InsertStep"
  "op_UpdateTransactionStatus mem_ops = mem_UpdateTransactionStatus"
  "op_SaveSagaState mem_ops = mem_SaveSagaState" "op_LoadStep mem_ops = mem_LoadStep"
  "op_AppendOutbox mem_ops ids = mem_AppendOutbox"
  "op_MarkOutboxPublished mem_ops = mem_MarkOutboxPublished"
  "op_ClaimOutboxPending mem_ops = mem_ClaimOutboxPending"
  "op_Commit mem_ops = mem_Commit" "op_Rollback mem_ops = mem_Rollback"
  by (simp_all add: mem_ops_def)

lemma RunInTx_mem [simp]: "RunInTx mem_ops fn s = fn s"
  by (simp add: RunInTx_def mem_Commit_def mem_Rollback_def split: prod.splits sum.splits)

section \<open>The contract\<close>

text \<open>The tables after an update of a step row and after a save, for an implementation that
  keeps some columns of the old row.\<close>

definition tab_rows :: "(StepRow \<Rightarrow> StepRow \<Rightarrow> StepRow) \<Rightarrow> StepRow \<Rightarrow> StepRow list \<Rightarrow> StepRow list" where
  "tab_rows keep row rows =
     (case find_row (row_StepName row) (row_Attempt row) rows of
        None \<Rightarrow> rows | Some old \<Rightarrow> replace_row (keep old row) rows)"

definition tab_update :: "(StepRow \<Rightarrow> StepRow \<Rightarrow> StepRow) \<Rightarrow> StepRow \<Rightarrow> mem_store \<Rightarrow> mem_store" where
  "tab_update keep row T =
     T\<lparr>ms_steps := (ms_steps T)(row_TxID row := tab_rows keep row (ms_steps T (row_TxID row)))\<rparr>"

definition tab_save ::
  "(SagaState \<Rightarrow> SagaState \<Rightarrow> SagaState) \<Rightarrow> SagaState \<Rightarrow> mem_store \<Rightarrow> mem_store" where
  "tab_save keep saga T =
     (case ms_sagas T (sg_TxID saga) of
        None \<Rightarrow> T
      | Some cur \<Rightarrow>
          if sg_Version cur \<noteq> sg_Version saga - 1 then T
          else T\<lparr>ms_sagas := (ms_sagas T)(sg_TxID saga \<mapsto> keep cur saga)\<rparr>)"

locale store_contract =
  fixes ops :: "'s store_ops"
    and tables :: "'s \<Rightarrow> mem_store"
    and keep_row :: "StepRow \<Rightarrow> StepRow \<Rightarrow> StepRow"
    and keep_saga :: "SagaState \<Rightarrow> SagaState \<Rightarrow> SagaState"
    and fill_ev :: "uuid \<Rightarrow> OutboxEvent \<Rightarrow> OutboxEvent"
  assumes keep_row_fields:
      "keep_row old r = r\<lparr>row_ID := row_ID (keep_row old r),
         row_IdempotencyKey := row_IdempotencyKey (keep_row old r)\<rparr>"
    and keep_saga_fields: "keep_saga cur sg = sg\<lparr>sg_ID := sg_ID (keep_saga cur sg)\<rparr>"
    and fill_ev_fields: "fill_ev u e = e\<lparr>ev_ID := ev_ID (fill_ev u e), ev_EventID := ev_EventID (fill_ev u e)\<rparr>"
    and LoadTx: "op_LoadTx ops txID s = mem_LoadTx txID (tables s)"
    and LoadSagaState: "op_LoadSagaState ops txID s = mem_LoadSagaState txID (tables s)"
    and LoadStep: "op_LoadStep ops txID step attempt s = mem_LoadStep txID step attempt (tables s)"
    and InsertStep:
      "tables (snd (op_InsertStep ops u row s)) = snd (mem_InsertStep u row (tables s))"
      "isl (fst (op_InsertStep ops u row s)) \<longleftrightarrow> isl (fst (mem_InsertStep u row (tables s)))"
    and UpdateStep:
      "tables (snd (op_UpdateStep ops row s)) = tab_update keep_row row (tables s)"
      "isl (fst (op_UpdateStep ops row s)) \<longleftrightarrow> isl (fst (mem_UpdateStep row (tables s)))"
    and UpdateTransactionStatus:
      "tables (snd (op_UpdateTransactionStatus ops now txID st v s)) =
         snd (mem_UpdateTransactionStatus now txID st v (tables s))"
      "isl (fst (op_UpdateTransactionStatus ops now txID st v s)) \<longleftrightarrow>
         isl (fst (mem_UpdateTransactionStatus now txID st v (tables s)))"
    and SaveSagaState:
      "tables (snd (op_SaveSagaState ops saga s)) = tab_save keep_saga saga (tables s)"
      "isl (fst (op_SaveSagaState ops saga s)) \<longleftrightarrow> isl (fst (mem_SaveSagaState saga (tables s)))"
    and AppendOutbox:
      "tables (snd (op_AppendOutbox ops ids [e] s)) = snd (mem_AppendOutbox [fill_ev (ids 0) e] (tables s))"
    and Commit: "op_Commit ops s s' = (res, s'') \<Longrightarrow> tables s'' = (if isl res then tables s else tables s')"
    and Rollback: "tables (op_Rollback ops s s') \<in> {tables s, tables s'}"
begin

lemma keep_row_simps:
  "row_TxID (keep_row old new) = row_TxID new" "row_StepName (keep_row old new) = row_StepName new"
  "row_Status (keep_row old new) = row_Status new" "row_Attempt (keep_row old new) = row_Attempt new"
  "row_StartedAt (keep_row old new) = row_StartedAt new"
  "row_FinishedAt (keep_row old new) = row_FinishedAt new"
  "row_Error (keep_row old new) = row_Error new"
  by (subst keep_row_fields, simp)+

lemma keep_saga_simps:
  "sg_TxID (keep_saga cur new) = sg_TxID new" "sg_CurrentStep (keep_saga cur new) = sg_CurrentStep new"
  "sg_State (keep_saga cur new) = sg_State new" "sg_Payload (keep_saga cur new) = sg_Payload new"
  "sg_Version (keep_saga cur new) = sg_Version new"
  by (subst keep_saga_fields, simp)+

lemma fill_ev_simps:
  "ev_TxID (fill_ev u e) = ev_TxID e" "ev_EventType (fill_ev u e) = ev_EventType e"
  "ev_Step (fill_ev u e) = ev_Step e" "ev_Attempt (fill_ev u e) = ev_Attempt e"
  "ev_Status (fill_ev u e) = ev_Status e" "ev_DedupKey (fill_ev u e) = ev_DedupKey e"
  "ev_Payload (fill_ev u e) = ev_Payload e"
  by (subst fill_ev_fields, simp)+

lemmas keeps_columns = keep_row_simps keep_saga_simps fill_ev_simps

text \<open>A transaction leaves the tables it started from or those its body reached; when it
  returns no error it leaves the latter.\<close>

lemma RunInTx_tables: "tables (snd (RunInTx ops fn s)) \<in> {tables s, tables (snd (fn s))}"
  using Rollback [of s "snd (fn s)"] Commit [of s "snd (fn s)"]
  by (auto simp: RunInTx_def split: prod.splits sum.splits if_splits)

lemma RunInTx_success:
  "RunInTx ops fn s = (Inr x, s') \<Longrightarrow> fst (fn s) = Inr x \<and> tables s' = tables (snd (fn s))"
  using Commit [of s "snd (fn s)"]
  by (auto simp: RunInTx_def split: prod.splits sum.splits if_splits)

lemma RunInTx_keeps:
  assumes "keeps (\<lambda>s. P (tables s)) fn"
  shows "keeps (\<lambda>s. P (tables s)) (RunInTx ops fn)"
proof (rule keepsI)
  fix s
  assume "P (tables s)"
  with assms have "P (tables (snd (fn s)))" by (rule keepsD)
  with \<open>P (tables s)\<close> show "P (tables (snd (RunInTx ops fn s)))"
    using RunInTx_tables [of fn s] by auto
qed

end

text \<open>A store on which a transaction whose body succeeds is always committed: \<open>MemStore\<close>,
  and \<open>PgStore\<close> while the database serves it.\<close>

locale committing_store = store_contract +
  assumes Commit_ok: "op_Commit ops s s' = (Inr (), s')"
begin

lemma RunInTx_commits: "fn s = (Inr x, s') \<Longrightarrow> RunInTx ops fn s = (Inr x, s')"
  by (simp add: RunInTx_def Commit_ok)

end

section \<open>\<open>MemStore\<close> meets the contract\<close>

lemma row_is_same [simp]: "row_is (row_StepName r) (row_Attempt r) r"
  by (simp add: row_is_def)

lemma find_row_Some: "find_row st k rows = Some r \<Longrightarrow> row_is st k r \<and> r \<in> set rows"
  by (auto simp: find_row_def find_Some_iff)

lemma find_replace_row:
  "find_row st k (replace_row row rows) =
     (if row_is st k row \<and> find_row st k rows \<noteq> None then Some row else find_row st k rows)"
  by (induction rows) (auto simp: find_row_def row_is_def)

lemma find_row_append:
  "find_row st k (rows @ [r]) =
     (case find_row st k rows of Some x \<Rightarrow> Some x | None \<Rightarrow> if row_is st k r then Some r else None)"
  by (induction rows) (auto simp: find_row_def)

lemma find_tab_rows:
  "find_row st k (tab_rows keep row rows) =
     (case find_row (row_StepName row) (row_Attempt row) rows of
        None \<Rightarrow> find_row st k rows
      | Some old \<Rightarrow>
          if row_is st k (keep old row) \<and> find_row st k rows \<noteq> None then Some (keep old row)
          else find_row st k rows)"
  by (simp add: tab_rows_def find_replace_row split: option.splits)

lemma mem_UpdateStep_tab: "snd (mem_UpdateStep row T) = tab_update (\<lambda>old new. new) row T"
  by (auto simp: mem_UpdateStep_def tab_update_def tab_rows_def split: option.splits)

lemma mem_SaveSagaState_tab: "snd (mem_SaveSagaState saga T) = tab_save (\<lambda>cur new. new) saga T"
  by (simp add: mem_SaveSagaState_def tab_save_def split: option.splits)

interpretation mem: committing_store mem_ops "\<lambda>s. s" "\<lambda>old new. new" "\<lambda>cur new. new" "\<lambda>u e. e"
  by unfold_locales
    (auto simp: mem_UpdateStep_tab mem_SaveSagaState_tab mem_Commit_def mem_Rollback_def)

end
