(* ===== verification/Partner.thy ===== *)
theory Partner
  imports Prelude
begin

text \<open>
  The partner services of the saga, \<open>internal/partner/partner.go\<close>: request and response
  types, one record of operations per client interface, and the in-memory \<open>Stub\<close> that
  implements all of them. A client's methods are computations on the state \<open>'p\<close> of the
  services behind it; the services themselves are not part of the repository, so \<open>'p\<close> and the
  methods are parameters everywhere else. \<open>net\<close> adds the counter of the runtime streams.
\<close>

section \<open>Requests and responses\<close>

datatype PolicyDecision = PolicyAllow | PolicyDeny | PolicyOther string
datatype KytDecision = KytClear | KytReview | KytReject | KytOther string

primrec kyt_string :: "KytDecision \<Rightarrow> string" where
  "kyt_string KytClear = ''clear''"
| "kyt_string KytReview = ''review''"
| "kyt_string KytReject = ''reject''"
| "kyt_string (KytOther s) = s"

record PolicyRequest =
  plr_TxID :: string
  plr_UserID :: string
  plr_QuoteID :: string
  plr_Amount :: string
  plr_Asset :: string
  plr_Rail :: string
  plr_DestAddress :: string

record PolicyResponse =
  pls_Decision :: PolicyDecision
  pls_Reason :: string

record PaymentAuthorizeRequest =
  par_TxID :: string
  par_UserID :: string
  par_QuoteID :: string
  par_Amount :: string
  par_Asset :: string
  par_Rail :: string

record PaymentCaptureRequest =
  pcr_TxID :: string
  pcr_AuthID :: string
  pcr_Amount :: string
  pcr_Asset :: string

record PaymentVoidRequest =
  pvr_TxID :: string
  pvr_AuthID :: string

record PaymentRefundRequest =
  prr_TxID :: string
  prr_CaptureID :: string
  prr_Amount :: string
  prr_Asset :: string

record KytRequest =
  kyr_TxID :: string
  kyr_UserID :: string
  kyr_DestAddress :: string
  kyr_Amount :: string
  kyr_Asset :: string

record KytResponse =
  kys_Decision :: KytDecision
  kys_Reason :: string

record MpcSignRequest =
  msr_TxID :: string
  msr_UnsignedTxHex :: string

record BroadcastRequest =
  bcr_TxID :: string
  bcr_SignedTxHex :: string

record BroadcastResponse =
  bcs_TxHash :: string
  bcs_InMempool :: bool
  bcs_Confirmed :: bool

record LedgerPostRequest =
  lpr_TxID :: string
  lpr_UserID :: string
  lpr_Amount :: string
  lpr_Asset :: string
  lpr_Rail :: string

record AuditEvent =
  aud_TxID :: string
  aud_Step :: string
  aud_Actor :: string
  aud_Before :: string
  aud_After :: string
  aud_Err :: string
  aud_Attempt :: int
  aud_At :: time

section \<open>Client interfaces\<close>

text \<open>Responses with a single string field (\<open>AuthID\<close>, \<open>CaptureID\<close>, \<open>SignedTxHex\<close>,
  \<open>JournalID\<close>) are that string.\<close>

record 'p Policy =
  Evaluate :: "PolicyRequest \<Rightarrow> ('p, PolicyResponse) go"

record 'p Payment =
  Authorize :: "PaymentAuthorizeRequest \<Rightarrow> ('p, string) go"
  Capture :: "PaymentCaptureRequest \<Rightarrow> ('p, string) go"
  VoidAuthorization :: "PaymentVoidRequest \<Rightarrow> ('p, unit) go"
  Refund :: "PaymentRefundRequest \<Rightarrow> ('p, unit) go"

record 'p Kyt =
  Screen :: "KytRequest \<Rightarrow> ('p, KytResponse) go"

record 'p Mpc =
  Sign :: "MpcSignRequest \<Rightarrow> ('p, string) go"

record 'p Blockchain =
  Broadcast :: "BroadcastRequest \<Rightarrow> ('p, BroadcastResponse) go"
  Status :: "string \<Rightarrow> ('p, BroadcastResponse) go"

record 'p Ledger =
  PostDoubleEntry :: "LedgerPostRequest \<Rightarrow> ('p, string) go"

record 'p Audit =
  Record :: "AuditEvent \<Rightarrow> ('p, unit) go"

text \<open>The state of the services together with the position in the runtime streams, and
  calls on it.\<close>

record 'p net =
  net_peers :: 'p
  net_tick :: nat

definition rpc :: "('p, 'a) go \<Rightarrow> ('p net, 'a) go" where
  "rpc f n = (case f (net_peers n) of (r, p) \<Rightarrow> (r, n\<lparr>net_peers := p\<rparr>))"

definition net_now :: "runtime \<Rightarrow> 'p net \<Rightarrow> time \<times> 'p net" where
  "net_now rt n = (rt_clock rt (net_tick n), n\<lparr>net_tick := Suc (net_tick n)\<rparr>)"

lemma rpc_simps:
  "f (net_peers n) = (r, p) \<Longrightarrow> rpc f n = (r, n\<lparr>net_peers := p\<rparr>)"
  by (simp add: rpc_def)

lemma net_tick_rpc [simp]: "net_tick (snd (rpc f n)) = net_tick n"
  by (simp add: rpc_def split: prod.splits)

section \<open>The stub\<close>

record StubConfig =
  sc_PolicyDecision :: PolicyDecision
  sc_PolicyError :: "go_error option"
  sc_KytDecision :: KytDecision
  sc_KytError :: "go_error option"
  sc_BroadcastInMem :: bool
  sc_BroadcastConfirmed :: bool
  sc_BroadcastError :: "go_error option"
  sc_SignError :: "go_error option"
  sc_AuthorizeError :: "go_error option"
  sc_CaptureError :: "go_error option"
  sc_LedgerError :: "go_error option"

text \<open>\<open>Sleep\<close> delays a call and does not change its answer, so it has no field here.\<close>

definition DefaultStubConfig :: StubConfig where
  "DefaultStubConfig = \<lparr>
     sc_PolicyDecision = PolicyAllow, sc_PolicyError = None,
     sc_KytDecision = KytClear, sc_KytError = None,
     sc_BroadcastInMem = True, sc_BroadcastConfirmed = True, sc_BroadcastError = None,
     sc_SignError = None, sc_AuthorizeError = None, sc_CaptureError = None,
     sc_LedgerError = None\<rparr>"

record Stub =
  stub_cfg :: StubConfig
  PolicyCalls :: int
  AuthorizeCalls :: int
  CaptureCalls :: int
  VoidCalls :: int
  RefundCalls :: int
  KytCalls :: int
  SignCalls :: int
  BroadcastCalls :: int
  StatusCalls :: int
  LedgerCalls :: int
  AuditCalls :: int
  lastAuthID :: string
  lastCaptureID :: string
  lastJournalID :: string

definition NewStub :: "StubConfig \<Rightarrow> Stub" where
  "NewStub cfg = \<lparr>stub_cfg = cfg, PolicyCalls = 0, AuthorizeCalls = 0, CaptureCalls = 0,
     VoidCalls = 0, RefundCalls = 0, KytCalls = 0, SignCalls = 0, BroadcastCalls = 0,
     StatusCalls = 0, LedgerCalls = 0, AuditCalls = 0,
     lastAuthID = '''', lastCaptureID = '''', lastJournalID = ''''\<rparr>"

text \<open>The common end of the stub's methods: the configured error, or the answer.\<close>

definition answer :: "go_error option \<Rightarrow> 'a \<Rightarrow> go_error + 'a" where
  "answer err x = (case err of Some e \<Rightarrow> Inl e | None \<Rightarrow> Inr x)"

definition stub_Evaluate :: "PolicyRequest \<Rightarrow> (Stub, PolicyResponse) go" where
  "stub_Evaluate req s =
     (answer (sc_PolicyError (stub_cfg s))
        \<lparr>pls_Decision = sc_PolicyDecision (stub_cfg s), pls_Reason = ''stub''\<rparr>,
      s\<lparr>PolicyCalls := PolicyCalls s + 1\<rparr>)"

definition stub_Authorize :: "PaymentAuthorizeRequest \<Rightarrow> (Stub, string) go" where
  "stub_Authorize req s =
     (let i = ''auth-'' @ par_TxID req in
      (answer (sc_AuthorizeError (stub_cfg s)) i,
       s\<lparr>AuthorizeCalls := AuthorizeCalls s + 1, lastAuthID := i\<rparr>))"

definition stub_Capture :: "PaymentCaptureRequest \<Rightarrow> (Stub, string) go" where
  "stub_Capture req s =
     (let i = ''cap-'' @ pcr_TxID req in
      (answer (sc_CaptureError (stub_cfg s)) i,
       s\<lparr>CaptureCalls := CaptureCalls s + 1, lastCaptureID := i\<rparr>))"

definition stub_VoidAuthorization :: "PaymentVoidRequest \<Rightarrow> (Stub, unit) go" where
  "stub_VoidAuthorization req s = (Inr (), s\<lparr>VoidCalls := VoidCalls s + 1\<rparr>)"

definition stub_Refund :: "PaymentRefundRequest \<Rightarrow> (Stub, unit) go" where
  "stub_Refund req s = (Inr (), s\<lparr>RefundCalls := RefundCalls s + 1\<rparr>)"

definition stub_Screen :: "KytRequest \<Rightarrow> (Stub, KytResponse) go" where
  "stub_Screen req s =
     (answer (sc_KytError (stub_cfg s))
        \<lparr>kys_Decision = sc_KytDecision (stub_cfg s), kys_Reason = ''stub''\<rparr>,
      s\<lparr>KytCalls := KytCalls s + 1\<rparr>)"

definition stub_Sign :: "MpcSignRequest \<Rightarrow> (Stub, string) go" where
  "stub_Sign req s =
     (answer (sc_SignError (stub_cfg s)) (''signed-'' @ msr_TxID req),
      s\<lparr>SignCalls := SignCalls s + 1\<rparr>)"

definition stub_Broadcast :: "BroadcastRequest \<Rightarrow> (Stub, BroadcastResponse) go" where
  "stub_Broadcast req s =
     (answer (sc_BroadcastError (stub_cfg s))
        \<lparr>bcs_TxHash = ''0xhash-'' @ bcr_TxID req, bcs_InMempool = sc_BroadcastInMem (stub_cfg s),
         bcs_Confirmed = sc_BroadcastConfirmed (stub_cfg s)\<rparr>,
      s\<lparr>BroadcastCalls := BroadcastCalls s + 1\<rparr>)"

definition stub_Status :: "string \<Rightarrow> (Stub, BroadcastResponse) go" where
  "stub_Status txHash s =
     (Inr \<lparr>bcs_TxHash = txHash, bcs_InMempool = True,
           bcs_Confirmed = sc_BroadcastConfirmed (stub_cfg s)\<rparr>,
      s\<lparr>StatusCalls := StatusCalls s + 1\<rparr>)"

definition stub_PostDoubleEntry :: "LedgerPostRequest \<Rightarrow> (Stub, string) go" where
  "stub_PostDoubleEntry req s =
     (let i = ''jrn-'' @ lpr_TxID req in
      (answer (sc_LedgerError (stub_cfg s)) i,
       s\<lparr>LedgerCalls := LedgerCalls s + 1, lastJournalID := i\<rparr>))"

definition stub_Record :: "AuditEvent \<Rightarrow> (Stub, unit) go" where
  "stub_Record e s = (Inr (), s\<lparr>AuditCalls := AuditCalls s + 1\<rparr>)"

lemmas stub_defs =
  stub_Evaluate_def stub_Authorize_def stub_Capture_def stub_VoidAuthorization_def stub_Refund_def
  stub_Screen_def stub_Sign_def stub_Broadcast_def stub_Status_def stub_PostDoubleEntry_def
  stub_Record_def answer_def

end
