(* ===== verification/Payload_Json.thy ===== *)
theory Payload_Json
  imports Store
begin

text \<open>
  Payloads on their way through the database: \<open>EncodeJSON\<close> of \<open>internal/store/store.go\<close> writes a \<open>jsonb\<close> column and
  \<open>decodePayload\<close> of \<open>internal/store/pg.go\<close> reads it. A number comes back as a \<open>float64\<close>, which is \<open>AJson\<close> here.
\<close>

primrec any_of_json :: "json \<Rightarrow> any" where
  "any_of_json JNull = ANil"
| "any_of_json (JBool b) = ABool b"
| "any_of_json (JStr s) = AStr s"
| "any_of_json (JNum lit) = AJson (JNum lit)"
| "any_of_json (JArr vs) = AJson (JArr vs)"
| "any_of_json (JObj ms) = AJson (JObj ms)"

text \<open>\<open>Unmarshal\<close> into a map: the last of several entries with the same key counts.\<close>

definition decodePayload :: "string \<Rightarrow> payload" where
  "decodePayload b =
     (if b = '''' then Map.empty
      else (case json_unmarshal b of
              Some (JObj ms) \<Rightarrow> (\<lambda>k. map_option any_of_json (map_of (rev ms) k))
            | _ \<Rightarrow> Map.empty))"

section \<open>The round trip\<close>

text \<open>What a value is after it was written and read: an integer turns into a \<open>float64\<close>.\<close>

definition as_read :: "any \<Rightarrow> any" where
  "as_read v = any_of_json (json_of_any v)"

definition flat :: "payload \<Rightarrow> bool" where
  "flat p \<longleftrightarrow> finite (dom p) \<and> (\<forall>v. AJson v \<notin> ran p)"

lemma payload_json_fits: "flat p \<Longrightarrow> 0 < d \<Longrightarrow> json_fits d (payload_json p)"
proof -
  assume p: "flat p" "0 < d"
  have "json_fits (d - 1) (json_of_any v)" if "p k = Some v" for k v
  proof (cases v)
    case (AJson j)
    then show ?thesis using p(1) that by (auto simp: flat_def ran_def)
  qed simp_all
  then show ?thesis using p by (fastforce simp: payload_json_def flat_def)
qed

lemma map_of_keys: "map_of (map (\<lambda>k. (k, f k)) ks) k = (if k \<in> set ks then Some (f k) else None)"
  by (induction ks) auto

lemma payload_members:
  assumes "finite (dom p)"
  shows "map_of (rev (map (\<lambda>k. (k, json_of_any (the (p k)))) (sorted_list_of_set (dom p)))) k = map_option json_of_any (p k)"
proof -
  have "p k = None \<longleftrightarrow> k \<notin> dom p" by auto
  then show ?thesis
    using assms unfolding rev_map map_of_keys [where f = "\<lambda>k. json_of_any (the (p k))"] by (cases "p k") auto
qed

lemma EncodeJSON_nonempty: "EncodeJSON p \<noteq> ''''"
  by (simp add: EncodeJSON_def payload_json_def)

text \<open>\<open>PostgreSQL\<close> gives a \<open>jsonb\<close> column back as a text of its own, with other white space and the keys in another order.\<close>

definition jsonb_faithful :: "(string \<Rightarrow> string) \<Rightarrow> bool" where
  "jsonb_faithful jsonb \<longleftrightarrow>
     (\<forall>b ms. json_unmarshal b = Some (JObj ms) \<longrightarrow>
        (\<exists>ms'. json_unmarshal (jsonb b) = Some (JObj ms') \<and> map_of (rev ms') = map_of (rev ms)))"

lemma jsonb_faithful_id: "jsonb_faithful (\<lambda>b. b)"
  by (simp add: jsonb_faithful_def)

lemma payload_reads_back:
  assumes "jsonb_faithful jsonb" and "flat p"
  shows "decodePayload (jsonb (EncodeJSON p)) k = map_option as_read (p k)"
proof -
  have "json_fits maxNestingDepth (payload_json p)" by (rule payload_json_fits) (simp_all add: assms(2) maxNestingDepth_def)
  then have u: "json_unmarshal (EncodeJSON p) = Some (payload_json p)" unfolding EncodeJSON_def by (rule json_unmarshal_print)
  then obtain ms where ms: "json_unmarshal (jsonb (EncodeJSON p)) = Some (JObj ms)"
    "map_of (rev ms) = map_of (rev (map (\<lambda>k. (k, json_of_any (the (p k)))) (sorted_list_of_set (dom p))))"
    using assms(1) unfolding jsonb_faithful_def payload_json_def by blast
  have "map_of (rev ms) k = map_option json_of_any (p k)"
    unfolding ms(2) by (rule payload_members) (use assms(2) in \<open>simp add: flat_def\<close>)
  moreover have "jsonb (EncodeJSON p) \<noteq> ''''"
  proof
    assume "jsonb (EncodeJSON p) = ''''"
    then show False using ms(1) by (simp add: json_unmarshal_def skip_ws_def)
  qed
  ultimately show ?thesis by (simp add: decodePayload_def ms(1) as_read_def [abs_def] option.map_comp comp_def)
qed

lemma json_as_read: "\<forall>j. v \<noteq> AJson j \<Longrightarrow> json_of_any (as_read v) = json_of_any v"
  by (cases v) (simp_all add: as_read_def JInt_def)

text \<open>Strings, booleans and nil come back as they were.\<close>

definition plain :: "payload \<Rightarrow> bool" where
  "plain p \<longleftrightarrow> finite (dom p) \<and> (\<forall>v \<in> ran p. as_read v = v \<and> (\<forall>j. v \<noteq> AJson j))"

lemma plain_flat: "plain p \<Longrightarrow> flat p"
  by (auto simp: plain_def flat_def)

lemma plain_empty [simp]: "plain Map.empty"
  by (simp add: plain_def)

lemma plain_upd [simp]: "plain p \<Longrightarrow> plain (p(k \<mapsto> AStr x))" "plain p \<Longrightarrow> plain (p(k \<mapsto> ABool b))" "plain p \<Longrightarrow> plain (p(k \<mapsto> ANil))"
  by (auto simp: plain_def as_read_def ran_def split: if_splits)

lemma plain_add: "plain p \<Longrightarrow> plain q \<Longrightarrow> plain (p ++ q)"
  unfolding plain_def by (auto simp: ran_def map_add_Some_iff)

lemma plain_reads_back:
  assumes "jsonb_faithful jsonb" and "plain p"
  shows "decodePayload (jsonb (EncodeJSON p)) = p"
proof
  fix k
  show "decodePayload (jsonb (EncodeJSON p)) k = p k"
    using payload_reads_back [OF assms(1) plain_flat [OF assms(2)], of k] assms(2)
    by (cases "p k") (auto simp: plain_def ran_def)
qed

text \<open>A payload that was written and read is written again as the same text.\<close>

lemma payload_json_read:
  assumes "jsonb_faithful jsonb" and "flat p"
  shows "payload_json (decodePayload (jsonb (EncodeJSON p))) = payload_json p"
proof -
  have d: "decodePayload (jsonb (EncodeJSON p)) = (\<lambda>k. map_option as_read (p k))"
    using payload_reads_back [OF assms] by (rule ext)
  have "dom (\<lambda>k. map_option as_read (p k)) = dom p" by auto
  moreover have "json_of_any (the (map_option as_read (p k))) = json_of_any (the (p k))" if k: "k \<in> dom p" for k
  proof -
    obtain v where v: "p k = Some v" using k by blast
    have "\<forall>j. v \<noteq> AJson j" using v assms(2) by (auto simp: flat_def ran_def)
    from json_as_read [OF this] v show ?thesis by simp
  qed
  ultimately show ?thesis unfolding d payload_json_def using assms(2) by (auto simp: flat_def)
qed

end
