(* ===== verification/Steps.thy ===== *)
theory Steps
  imports Partner Payload_Json
begin

text \<open>
  The step interface and the six saga steps: \<open>StepResult\<close>, \<open>SagaContext\<close>, \<open>Clients\<close>, \<open>Step\<close>
  and the retry classification of \<open>internal/saga/saga.go\<close>, and \<open>policy_step.go\<close>,
  \<open>payment_step.go\<close>, \<open>kyt_step.go\<close>, \<open>mpc_sign_step.go\<close>, \<open>broadcast_step.go\<close> and
  \<open>ledger_step.go\<close> of the same package. A step only reaches the partner services, so its
  methods act on \<open>'p net\<close>; the store is out of its reach by type.
\<close>

section \<open>Interface\<close>

record StepResult =
  res_State :: State
  res_PayloadMerge :: payload
  res_Terminal :: bool

text \<open>\<open>StepResult{}\<close>.\<close>

definition zero_result :: StepResult where
  "zero_result = \<lparr>res_State = StateOther '''', res_PayloadMerge = Map.empty, res_Terminal = False\<rparr>"

text \<open>A nil interface value is \<open>None\<close>.\<close>

record 'p Clients =
  cl_Policy :: "'p Policy option"
  cl_Payment :: "'p Payment option"
  cl_Kyt :: "'p Kyt option"
  cl_Mpc :: "'p Mpc option"
  cl_Blockchain :: "'p Blockchain option"
  cl_Ledger :: "'p Ledger option"
  cl_Audit :: "'p Audit option"

record 'p SagaContext =
  sc_Tx :: Transaction
  sc_Saga :: SagaState
  sc_Attempt :: int
  sc_Partners :: "'p Clients option"

text \<open>\<open>Execute\<close> returns a result and an error, and both may be set.\<close>

record 'p step_impl =
  Name :: Step
  Execute :: "'p SagaContext \<Rightarrow> 'p net \<Rightarrow> (StepResult \<times> go_error option) \<times> 'p net"
  Compensate :: "'p SagaContext \<Rightarrow> ('p net, unit) go"

definition NonRetriable :: "go_error \<Rightarrow> go_error" where
  "NonRetriable err = errorf_wrap_head (Sentinel ErrNonRetriable) (error_text err)"

definition IsNonRetriable :: "go_error option \<Rightarrow> bool" where
  "IsNonRetriable err = (case err of None \<Rightarrow> False
     | Some e \<Rightarrow> errors_is e ErrNonRetriable \<or> errors_is e ErrDenied)"

text \<open>\<open>v, _ := payload[key].(string)\<close>: the zero value when the key is absent or not a string.\<close>

definition payload_string :: "payload \<Rightarrow> string \<Rightarrow> string" where
  "payload_string p k = (case p k of Some (AStr s) \<Rightarrow> s | _ \<Rightarrow> '''')"

text \<open>The shared end of the steps' error branches: a transient error is returned as it is,
  every other one is wrapped so that it is not retried.\<close>

definition partner_failure :: "go_error \<Rightarrow> go_error" where
  "partner_failure err = (if errors_is err ErrTransient then err else NonRetriable err)"

section \<open>Step 1: policy\<close>

definition PolicyStep_Execute ::
  "'p Policy option \<Rightarrow> 'p SagaContext \<Rightarrow> 'p net \<Rightarrow> (StepResult \<times> go_error option) \<times> 'p net" where
  "PolicyStep_Execute client sc n =
     (case client of
        None \<Rightarrow> ((zero_result, Some (ErrorString ''policy client not configured'')), n)
      | Some c \<Rightarrow>
          (case rpc (Evaluate c
             \<lparr>plr_TxID = tx_TxID (sc_Tx sc), plr_UserID = tx_UserID (sc_Tx sc),
              plr_QuoteID = tx_QuoteID (sc_Tx sc), plr_Amount = tx_Amount (sc_Tx sc),
              plr_Asset = tx_Asset (sc_Tx sc), plr_Rail = tx_Rail (sc_Tx sc),
              plr_DestAddress = tx_DestAddress (sc_Tx sc)\<rparr>) n of
             (Inl err, n') \<Rightarrow> ((zero_result, Some (partner_failure err)), n')
           | (Inr resp, n') \<Rightarrow>
               if pls_Decision resp = PolicyDeny
               then ((\<lparr>res_State = StateFailedCompensated,
                       res_PayloadMerge = [''policy_reason'' \<mapsto> AStr (pls_Reason resp)],
                       res_Terminal = True\<rparr>,
                      Some (ErrorString (''policy denied: '' @ pls_Reason resp))), n')
               else ((\<lparr>res_State = StatePolicyChecked,
                       res_PayloadMerge = [''policy_reason'' \<mapsto> AStr (pls_Reason resp)],
                       res_Terminal = False\<rparr>, None), n')))"

definition PolicyStep_Compensate :: "'p SagaContext \<Rightarrow> ('p net, unit) go" where
  "PolicyStep_Compensate sc = okE ()"

definition NewPolicyStep :: "'p Policy option \<Rightarrow> 'p step_impl" where
  "NewPolicyStep client = \<lparr>Name = StepPolicy, Execute = PolicyStep_Execute client,
     Compensate = PolicyStep_Compensate\<rparr>"

section \<open>Step 2: payment\<close>

definition PaymentStep_Execute ::
  "'p Payment option \<Rightarrow> 'p SagaContext \<Rightarrow> 'p net \<Rightarrow> (StepResult \<times> go_error option) \<times> 'p net" where
  "PaymentStep_Execute client sc n =
     (case client of
        None \<Rightarrow> ((zero_result, Some (ErrorString ''payment client not configured'')), n)
      | Some c \<Rightarrow>
          (case rpc (Authorize c
             \<lparr>par_TxID = tx_TxID (sc_Tx sc), par_UserID = tx_UserID (sc_Tx sc),
              par_QuoteID = tx_QuoteID (sc_Tx sc), par_Amount = tx_Amount (sc_Tx sc),
              par_Asset = tx_Asset (sc_Tx sc), par_Rail = tx_Rail (sc_Tx sc)\<rparr>) n of
             (Inl err, n1) \<Rightarrow> ((zero_result, Some (partner_failure err)), n1)
           | (Inr auth, n1) \<Rightarrow>
               (case rpc (Capture c
                  \<lparr>pcr_TxID = tx_TxID (sc_Tx sc), pcr_AuthID = auth,
                   pcr_Amount = tx_Amount (sc_Tx sc), pcr_Asset = tx_Asset (sc_Tx sc)\<rparr>) n1 of
                  (Inl err, n2) \<Rightarrow>
                    (let n3 = snd (rpc (VoidAuthorization c
                                \<lparr>pvr_TxID = tx_TxID (sc_Tx sc), pvr_AuthID = auth\<rparr>) n2)
                     in ((zero_result\<lparr>res_PayloadMerge := [''auth_id'' \<mapsto> AStr auth]\<rparr>,
                          Some (partner_failure err)), n3))
                | (Inr cap, n2) \<Rightarrow>
                    ((\<lparr>res_State = StatePaymentCaptured,
                       res_PayloadMerge = [''auth_id'' \<mapsto> AStr auth, ''capture_id'' \<mapsto> AStr cap],
                       res_Terminal = False\<rparr>, None), n2))))"

definition PaymentStep_Compensate ::
  "'p Payment option \<Rightarrow> 'p SagaContext \<Rightarrow> ('p net, unit) go" where
  "PaymentStep_Compensate client sc n =
     (case client of
        None \<Rightarrow> (Inl (ErrorString ''payment client not configured''), n)
      | Some c \<Rightarrow>
          (let authID = payload_string (sg_Payload (sc_Saga sc)) ''auth_id'';
               captureID = payload_string (sg_Payload (sc_Saga sc)) ''capture_id''
           in if captureID \<noteq> '''' then
                (case rpc (Refund c
                   \<lparr>prr_TxID = tx_TxID (sc_Tx sc), prr_CaptureID = captureID,
                    prr_Amount = tx_Amount (sc_Tx sc), prr_Asset = tx_Asset (sc_Tx sc)\<rparr>) n of
                   (Inl err, n') \<Rightarrow> (Inl (errorf_wrap_tail ''payment refund: '' err), n')
                 | (Inr _, n') \<Rightarrow> (Inr (), n'))
              else if authID \<noteq> '''' then
                (case rpc (VoidAuthorization c
                   \<lparr>pvr_TxID = tx_TxID (sc_Tx sc), pvr_AuthID = authID\<rparr>) n of
                   (Inl err, n') \<Rightarrow> (Inl (errorf_wrap_tail ''payment void: '' err), n')
                 | (Inr _, n') \<Rightarrow> (Inr (), n'))
              else (Inr (), n)))"

definition NewPaymentStep :: "'p Payment option \<Rightarrow> 'p step_impl" where
  "NewPaymentStep client = \<lparr>Name = StepPayment, Execute = PaymentStep_Execute client,
     Compensate = PaymentStep_Compensate client\<rparr>"

section \<open>Step 3: KYT screening\<close>

text \<open>The verb \<open>%q\<close> on ASCII text: a Go string literal. Bytes from 128 up are kept as they
  are.\<close>

definition quote_char :: "char \<Rightarrow> string" where
  "quote_char c =
     (let n = (of_char c :: nat); bs = char_of (92 :: nat) in
      if c = char_of (34 :: nat) \<or> c = bs then [bs, c]
      else if n = 7 then [bs, CHR ''a''] else if n = 8 then [bs, CHR ''b'']
      else if n = 9 then [bs, CHR ''t''] else if n = 10 then [bs, CHR ''n'']
      else if n = 11 then [bs, CHR ''v''] else if n = 12 then [bs, CHR ''f'']
      else if n = 13 then [bs, CHR ''r'']
      else if n < 32 \<or> n = 127 then [bs, CHR ''x'', hex_digit (n div 16), hex_digit (n mod 16)]
      else [c])"

definition fmt_q :: "string \<Rightarrow> string" where
  "fmt_q s = [char_of (34 :: nat)] @ concat (map quote_char s) @ [char_of (34 :: nat)]"

definition KytStep_Execute ::
  "'p Kyt option \<Rightarrow> 'p SagaContext \<Rightarrow> 'p net \<Rightarrow> (StepResult \<times> go_error option) \<times> 'p net" where
  "KytStep_Execute client sc n =
     (case client of
        None \<Rightarrow> ((zero_result, Some (ErrorString ''kyt client not configured'')), n)
      | Some c \<Rightarrow>
          (case rpc (Screen c
             \<lparr>kyr_TxID = tx_TxID (sc_Tx sc), kyr_UserID = tx_UserID (sc_Tx sc),
              kyr_DestAddress = tx_DestAddress (sc_Tx sc), kyr_Amount = tx_Amount (sc_Tx sc),
              kyr_Asset = tx_Asset (sc_Tx sc)\<rparr>) n of
             (Inl err, n') \<Rightarrow> ((zero_result, Some (partner_failure err)), n')
           | (Inr resp, n') \<Rightarrow>
               (case kys_Decision resp of
                  KytClear \<Rightarrow>
                    ((\<lparr>res_State = StateKytScreened,
                       res_PayloadMerge = [''kyt_reason'' \<mapsto> AStr (kys_Reason resp)],
                       res_Terminal = False\<rparr>, None), n')
                | KytOther d \<Rightarrow>
                    ((zero_result, Some (NonRetriable
                       (ErrorString (''kyt unknown decision '' @ fmt_q d)))), n')
                | d \<Rightarrow>
                    ((zero_result, Some (NonRetriable
                       (ErrorString (''kyt '' @ kyt_string d @ '': '' @ kys_Reason resp)))), n'))))"

definition KytStep_Compensate :: "'p SagaContext \<Rightarrow> ('p net, unit) go" where
  "KytStep_Compensate sc = okE ()"

definition NewKytStep :: "'p Kyt option \<Rightarrow> 'p step_impl" where
  "NewKytStep client = \<lparr>Name = StepKyt, Execute = KytStep_Execute client,
     Compensate = KytStep_Compensate\<rparr>"

section \<open>Step 4: signing\<close>

definition MpcSignStep_Execute ::
  "'p Mpc option \<Rightarrow> 'p SagaContext \<Rightarrow> 'p net \<Rightarrow> (StepResult \<times> go_error option) \<times> 'p net" where
  "MpcSignStep_Execute client sc n =
     (case client of
        None \<Rightarrow> ((zero_result, Some (ErrorString ''mpc client not configured'')), n)
      | Some c \<Rightarrow>
          (let u = payload_string (sg_Payload (sc_Saga sc)) ''unsigned_tx_hex'';
               unsigned = (if u = '''' then ''unsigned-'' @ tx_TxID (sc_Tx sc) else u)
           in case rpc (Sign c \<lparr>msr_TxID = tx_TxID (sc_Tx sc), msr_UnsignedTxHex = unsigned\<rparr>) n of
                (Inl err, n') \<Rightarrow> ((zero_result, Some (partner_failure err)), n')
              | (Inr signedHex, n') \<Rightarrow>
                  ((\<lparr>res_State = StateSigned,
                     res_PayloadMerge = [''signed_tx_hex'' \<mapsto> AStr signedHex],
                     res_Terminal = False\<rparr>, None), n')))"

definition MpcSignStep_Compensate :: "'p SagaContext \<Rightarrow> ('p net, unit) go" where
  "MpcSignStep_Compensate sc = okE ()"

definition NewMpcSignStep :: "'p Mpc option \<Rightarrow> 'p step_impl" where
  "NewMpcSignStep client = \<lparr>Name = StepMpcSign, Execute = MpcSignStep_Execute client,
     Compensate = MpcSignStep_Compensate\<rparr>"

section \<open>Step 5: broadcast\<close>

definition BroadcastStep_Execute ::
  "'p Blockchain option \<Rightarrow> 'p SagaContext \<Rightarrow> 'p net \<Rightarrow> (StepResult \<times> go_error option) \<times> 'p net" where
  "BroadcastStep_Execute client sc n =
     (case client of
        None \<Rightarrow> ((zero_result, Some (ErrorString ''blockchain client not configured'')), n)
      | Some c \<Rightarrow>
          (let existing = payload_string (sg_Payload (sc_Saga sc)) ''tx_hash'';
               signedHex = payload_string (sg_Payload (sc_Saga sc)) ''signed_tx_hex''
           in if existing \<noteq> '''' then
                ((\<lparr>res_State = StateBroadcasted, res_PayloadMerge = [''tx_hash'' \<mapsto> AStr existing],
                   res_Terminal = False\<rparr>, None), n)
              else if signedHex = '''' then
                ((zero_result, Some (NonRetriable
                   (ErrorString ''missing signed_tx_hex in saga payload''))), n)
              else
                (case rpc (Broadcast c \<lparr>bcr_TxID = tx_TxID (sc_Tx sc), bcr_SignedTxHex = signedHex\<rparr>) n of
                   (Inl err, n') \<Rightarrow> ((zero_result, Some (partner_failure err)), n')
                 | (Inr resp, n') \<Rightarrow>
                     (let p0 = [''tx_hash'' \<mapsto> AStr (bcs_TxHash resp)];
                          p1 = (if bcs_InMempool resp then p0(''in_mempool'' \<mapsto> ABool True) else p0);
                          p2 = (if bcs_Confirmed resp then p1(''confirmed'' \<mapsto> ABool True) else p1)
                      in ((\<lparr>res_State = StateBroadcasted, res_PayloadMerge = p2,
                            res_Terminal = False\<rparr>, None), n')))))"

definition BroadcastStep_Compensate :: "runtime \<Rightarrow> 'p SagaContext \<Rightarrow> ('p net, unit) go" where
  "BroadcastStep_Compensate rt sc n =
     (let txHash = payload_string (sg_Payload (sc_Saga sc)) ''tx_hash'' in
      if txHash \<noteq> '''' then
        (case sc_Partners sc of
           None \<Rightarrow> (Inr (), n)
         | Some partners \<Rightarrow>
             (case cl_Audit partners of
                None \<Rightarrow> (Inr (), n)
              | Some au \<Rightarrow>
                  (case net_now rt n of (now, n1) \<Rightarrow>
                     (Inr (), snd (rpc (Record au
                        \<lparr>aud_TxID = tx_TxID (sc_Tx sc), aud_Step = ''broadcast'',
                         aud_Actor = ''orchestrator'',
                         aud_Before = state_string (sg_State (sc_Saga sc)),
                         aud_After = ''failed_compensated'',
                         aud_Err = ''broadcast in mempool; tx_hash='' @ txHash @ '' needs monitoring'',
                         aud_Attempt = 0, aud_At = now\<rparr>) n1)))))
      else (Inr (), n))"

definition NewBroadcastStep :: "runtime \<Rightarrow> 'p Blockchain option \<Rightarrow> 'p step_impl" where
  "NewBroadcastStep rt client = \<lparr>Name = StepBroadcast, Execute = BroadcastStep_Execute client,
     Compensate = BroadcastStep_Compensate rt\<rparr>"

section \<open>Step 6: ledger\<close>

definition LedgerStep_Execute ::
  "'p Ledger option \<Rightarrow> 'p SagaContext \<Rightarrow> 'p net \<Rightarrow> (StepResult \<times> go_error option) \<times> 'p net" where
  "LedgerStep_Execute client sc n =
     (case client of
        None \<Rightarrow> ((zero_result, Some (ErrorString ''ledger client not configured'')), n)
      | Some c \<Rightarrow>
          (let jid = payload_string (sg_Payload (sc_Saga sc)) ''ledger_journal_id'' in
           if jid \<noteq> '''' then
             ((\<lparr>res_State = StateLedgered, res_PayloadMerge = [''ledger_journal_id'' \<mapsto> AStr jid],
                res_Terminal = False\<rparr>, None), n)
           else
             (case rpc (PostDoubleEntry c
                \<lparr>lpr_TxID = tx_TxID (sc_Tx sc), lpr_UserID = tx_UserID (sc_Tx sc),
                 lpr_Amount = tx_Amount (sc_Tx sc), lpr_Asset = tx_Asset (sc_Tx sc),
                 lpr_Rail = tx_Rail (sc_Tx sc)\<rparr>) n of
                (Inl err, n') \<Rightarrow>
                  if errors_is err ErrTransient then ((zero_result, Some err), n')
                  else ((\<lparr>res_State = StateFailed,
                          res_PayloadMerge = [''ledger_reconcile_required'' \<mapsto> ABool True],
                          res_Terminal = True\<rparr>,
                         Some (errorf_wrap_tail ''ledger post failed: '' err)), n')
              | (Inr journalID, n') \<Rightarrow>
                  ((\<lparr>res_State = StateLedgered,
                     res_PayloadMerge = [''ledger_journal_id'' \<mapsto> AStr journalID],
                     res_Terminal = False\<rparr>, None), n'))))"

definition LedgerStep_Compensate :: "'p SagaContext \<Rightarrow> ('p net, unit) go" where
  "LedgerStep_Compensate sc = okE ()"

definition NewLedgerStep :: "'p Ledger option \<Rightarrow> 'p step_impl" where
  "NewLedgerStep client = \<lparr>Name = StepLedger, Execute = LedgerStep_Execute client,
     Compensate = LedgerStep_Compensate\<rparr>"

lemmas step_names [simp] =
  NewPolicyStep_def [THEN arg_cong [where f = Name], simplified]
  NewPaymentStep_def [THEN arg_cong [where f = Name], simplified]
  NewKytStep_def [THEN arg_cong [where f = Name], simplified]
  NewMpcSignStep_def [THEN arg_cong [where f = Name], simplified]
  NewBroadcastStep_def [THEN arg_cong [where f = Name], simplified]
  NewLedgerStep_def [THEN arg_cong [where f = Name], simplified]

section \<open>What the executor relies on\<close>

text \<open>
  A step that returns no error has reached the state of its step and is not terminal; one
  that ends the saga with an error names a failure state. What a step merges into the payload of
  the saga are strings, booleans and nil.
\<close>

locale step_contract =
  fixes impl :: "'p step_impl"
  assumes success:
      "Execute impl sc n = ((res, None), n') \<Longrightarrow>
         \<not> res_Terminal res \<and> StateForStep (Name impl) = Some (res_State res)"
    and terminal:
      "Execute impl sc n = ((res, Some er), n') \<Longrightarrow> res_Terminal res \<Longrightarrow> IsFailure (res_State res)"
    and merges:
      "Execute impl sc n = ((res, err), n') \<Longrightarrow> plain (res_PayloadMerge res)"
begin

lemma merged_plain:
  "Execute impl sc n = ((res, err), n') \<Longrightarrow> plain p \<Longrightarrow> plain (p ++ res_PayloadMerge res)"
  by (rule plain_add) (auto dest: merges)

lemma success_not_terminal_state:
  "Execute impl sc n = ((res, None), n') \<Longrightarrow> \<not> Terminal (res_State res)"
  using success [of sc n res n'] by (auto simp: StateForStep_def split: Step.splits)

lemma terminal_state:
  "Execute impl sc n = ((res, Some er), n') \<Longrightarrow> res_Terminal res \<Longrightarrow> Terminal (res_State res)"
  using terminal [of sc n res er n'] by (auto simp: IsFailure_def)

end

interpretation policy_step: step_contract "NewPolicyStep c" for c :: "'p Policy option"
  by unfold_locales
    (auto simp: NewPolicyStep_def PolicyStep_Execute_def zero_result_def state_tables
      split: option.splits prod.splits sum.splits if_splits)

interpretation payment_step: step_contract "NewPaymentStep c" for c :: "'p Payment option"
  by unfold_locales
    (auto simp: NewPaymentStep_def PaymentStep_Execute_def zero_result_def state_tables Let_def
      split: option.splits prod.splits sum.splits if_splits)

interpretation kyt_step: step_contract "NewKytStep c" for c :: "'p Kyt option"
  by unfold_locales
    (auto simp: NewKytStep_def KytStep_Execute_def zero_result_def state_tables
      split: option.splits prod.splits sum.splits if_splits KytDecision.splits)

interpretation mpc_step: step_contract "NewMpcSignStep c" for c :: "'p Mpc option"
  by unfold_locales
    (auto simp: NewMpcSignStep_def MpcSignStep_Execute_def zero_result_def state_tables Let_def
      split: option.splits prod.splits sum.splits if_splits)

interpretation broadcast_step: step_contract "NewBroadcastStep rt c" for rt and c :: "'p Blockchain option"
  by unfold_locales
    (auto simp: NewBroadcastStep_def BroadcastStep_Execute_def zero_result_def state_tables Let_def
      split: option.splits prod.splits sum.splits if_splits)

interpretation ledger_step: step_contract "NewLedgerStep c" for c :: "'p Ledger option"
  by unfold_locales
    (auto simp: NewLedgerStep_def LedgerStep_Execute_def zero_result_def state_tables Let_def
      split: option.splits prod.splits sum.splits if_splits)

lemmas step_contracts [intro!] =
  policy_step.step_contract_axioms payment_step.step_contract_axioms kyt_step.step_contract_axioms
  mpc_step.step_contract_axioms broadcast_step.step_contract_axioms ledger_step.step_contract_axioms

end
