(* ===== verification/Lease.thy ===== *)
theory Lease
  imports Prelude
begin

text \<open>
  Leases: the interface \<open>LeaseManager\<close> of \<open>internal/saga/saga.go\<close>, its no-op implementation,
  and \<open>internal/lease/inmemory.go\<close>. \<open>Release\<close> is the closure that a successful \<open>Acquire\<close>
  returns; \<open>sync.Once\<close> lets it act once. The renewer goroutine of the in-memory lease only
  looks at the map, so it has no counterpart. What a lease promises is the locale
  \<open>lease_contract\<close>.
\<close>

section \<open>Interface\<close>

record 'l LeaseManager =
  Acquire :: "string \<Rightarrow> string \<Rightarrow> int \<Rightarrow> ('l, bool) go"
  Release :: "string \<Rightarrow> string \<Rightarrow> 'l \<Rightarrow> 'l"

definition NoopLease :: "'l LeaseManager" where
  "NoopLease = \<lparr>Acquire = (\<lambda>txID owner ttl l. (Inr True, l)), Release = (\<lambda>txID owner l. l)\<rparr>"

section \<open>The in-memory lease\<close>

record InMemoryLease =
  lm_ttl :: int
  lm_locks :: "string \<rightharpoonup> string"

definition lease_key :: "string \<Rightarrow> string" where
  "lease_key txID = ''lease:'' @ txID"

definition NewInMemory :: "int \<Rightarrow> InMemoryLease" where
  "NewInMemory ttl = \<lparr>lm_ttl = (if ttl \<le> 0 then 30 * second else ttl), lm_locks = Map.empty\<rparr>"

definition inmem_Acquire :: "string \<Rightarrow> string \<Rightarrow> int \<Rightarrow> (InMemoryLease, bool) go" where
  "inmem_Acquire txID owner ttl l =
     (let key = lease_key txID in
      if lm_locks l key \<noteq> None then (Inr False, l)
      else (Inr True, l\<lparr>lm_locks := (lm_locks l)(key \<mapsto> owner)\<rparr>))"

definition inmem_Release :: "string \<Rightarrow> string \<Rightarrow> InMemoryLease \<Rightarrow> InMemoryLease" where
  "inmem_Release txID owner l =
     (let key = lease_key txID in
      if lm_locks l key = Some owner then l\<lparr>lm_locks := (lm_locks l)(key := None)\<rparr> else l)"

definition inmem_lease :: "InMemoryLease LeaseManager" where
  "inmem_lease = \<lparr>Acquire = inmem_Acquire, Release = inmem_Release\<rparr>"

section \<open>What a lease promises\<close>

datatype lease_call = AcquireCall string string int | ReleaseCall string string

fun lease_calls :: "'l LeaseManager \<Rightarrow> lease_call list \<Rightarrow> 'l \<Rightarrow> 'l" where
  "lease_calls m [] l = l"
| "lease_calls m (AcquireCall tx ow ttl # cs) l = lease_calls m cs (snd (Acquire m tx ow ttl l))"
| "lease_calls m (ReleaseCall tx ow # cs) l = lease_calls m cs (Release m tx ow l)"

locale lease_contract =
  fixes mgr :: "'l LeaseManager"
    and holder :: "'l \<Rightarrow> string \<rightharpoonup> string"
  assumes acquire_ok:
      "Acquire mgr tx ow ttl l = (Inr True, l') \<Longrightarrow>
         holder l tx = None \<and> holder l' = (holder l)(tx \<mapsto> ow)"
    and acquire_refused:
      "Acquire mgr tx ow ttl l = (Inr False, l') \<Longrightarrow> holder l tx \<noteq> None \<and> holder l' = holder l"
    and acquire_error: "Acquire mgr tx ow ttl l = (Inl err, l') \<Longrightarrow> holder l' = holder l"
    and release:
      "holder (Release mgr tx ow l) =
         (if holder l tx = Some ow then (holder l)(tx := None) else holder l)"
begin

lemma acquire_keeps_others:
  assumes "holder l tx = Some ow"
  shows "holder (snd (Acquire mgr tx' ow' ttl l)) tx = Some ow"
proof (cases "Acquire mgr tx' ow' ttl l")
  case (Pair r l')
  then show ?thesis
    using assms acquire_ok [of tx' ow' ttl l l'] acquire_refused [of tx' ow' ttl l l']
      acquire_error [of tx' ow' ttl l _ l']
    by (cases r) (auto, metis (full_types) fun_upd_other option.distinct(1))
qed

text \<open>Until its holder releases a lease, whatever calls others make, the lease stays.\<close>

lemma held_until_release:
  "holder l tx = Some ow \<Longrightarrow> ReleaseCall tx ow \<notin> set cs \<Longrightarrow>
   holder (lease_calls mgr cs l) tx = Some ow"
proof (induction cs arbitrary: l)
  case Nil
  then show ?case by simp
next
  case (Cons c cs)
  show ?case
  proof (cases c)
    case (AcquireCall tx' ow' ttl)
    with Cons show ?thesis by (simp add: acquire_keeps_others)
  next
    case (ReleaseCall tx' ow')
    with Cons.prems have "holder (Release mgr tx' ow' l) tx = Some ow"
      by (auto simp: release)
    with Cons ReleaseCall show ?thesis by simp
  qed
qed

lemma single_flight:
  assumes "Acquire mgr tx ow ttl l = (Inr True, l')" and "ReleaseCall tx ow \<notin> set cs"
  shows "fst (Acquire mgr tx ow' ttl' (lease_calls mgr cs l')) \<noteq> Inr True"
proof
  assume granted: "fst (Acquire mgr tx ow' ttl' (lease_calls mgr cs l')) = Inr True"
  have "holder l' tx = Some ow" using acquire_ok [OF assms(1)] by simp
  then have "holder (lease_calls mgr cs l') tx = Some ow"
    using assms(2) by (rule held_until_release)
  moreover have "holder (lease_calls mgr cs l') tx = None"
    using granted acquire_ok by (metis prod.collapse)
  ultimately show False by simp
qed

lemma release_frees: "holder l tx = Some ow \<Longrightarrow> holder (Release mgr tx ow l) tx = None"
  by (simp add: release)

end

definition inmem_holder :: "InMemoryLease \<Rightarrow> string \<rightharpoonup> string" where
  "inmem_holder l tx = lm_locks l (lease_key tx)"

lemma lease_key_inj [simp]: "lease_key a = lease_key b \<longleftrightarrow> a = b"
  by (simp add: lease_key_def)

interpretation inmem: lease_contract inmem_lease inmem_holder
  by unfold_locales
    (auto simp: inmem_lease_def inmem_Acquire_def inmem_Release_def inmem_holder_def Let_def
      fun_eq_iff split: if_splits)

end
