(* ===== verification/Executor.thy ===== *)
theory Executor
  imports Store_Contract Steps Lease
begin

text \<open>
  The executor, \<open>internal/saga/saga.go\<close>: bounded retry with backoff around one step, the
  transaction that persists a step's outcome, the compensation cascade, the wait for the
  on-chain confirmation, and \<open>Run\<close>, which drives a saga to a terminal state. The world is
  the database, the partner services with the runtime streams, and the leases. Logging is
  left out. Where the Go code reads the clock or makes an identifier inside a closure, the
  value is read before the closure and passed in.
\<close>

section \<open>Configuration and world\<close>

record Config =
  cfg_MaxRetries :: int
  cfg_BaseBackoff :: int
  cfg_MaxBackoff :: int
  cfg_StepTimeout :: "string \<Rightarrow> int"

definition DefaultConfig :: Config where
  "DefaultConfig = \<lparr>cfg_MaxRetries = 5, cfg_BaseBackoff = 200 * millisecond,
     cfg_MaxBackoff = 10 * second, cfg_StepTimeout = (\<lambda>_. 30 * second)\<rparr>"

record ('s, 'p, 'l) world =
  w_db :: 's
  w_net :: "'p net"
  w_leases :: 'l

record ('s, 'p, 'l) Executor =
  ex_Store :: "'s store_ops"
  ex_Clients :: "'p Clients option"
  ex_Steps :: "'p step_impl list"
  ex_Cfg :: Config
  ex_Lease :: "'l LeaseManager"

definition NewExecutor ::
  "runtime \<Rightarrow> 's store_ops \<Rightarrow> 'p Clients \<Rightarrow> Config \<Rightarrow> ('s, 'p, 'l) Executor" where
  "NewExecutor rt s c cfg = \<lparr>ex_Store = s, ex_Clients = Some c,
     ex_Steps = [NewPolicyStep (cl_Policy c), NewPaymentStep (cl_Payment c), NewKytStep (cl_Kyt c),
       NewMpcSignStep (cl_Mpc c), NewBroadcastStep rt (cl_Blockchain c), NewLedgerStep (cl_Ledger c)],
     ex_Cfg = cfg, ex_Lease = NoopLease\<rparr>"

definition StepByName :: "('s, 'p, 'l) Executor \<Rightarrow> Step \<Rightarrow> 'p step_impl option" where
  "StepByName e name = find (\<lambda>s. Name s = name) (ex_Steps e)"

text \<open>A call that may panic or, in a model of a loop without bound, not return.\<close>

datatype 'a outcome = Returned 'a | Panicked string | OutOfFuel

text \<open>Access to the parts of the world. \<open>w_stamp\<close> reads the clock and makes identifiers, two of
  each; \<open>w_wait\<close> is the \<open>select\<close> between a timer and \<open>ctx.Done()\<close>.\<close>

definition on_db :: "('s, 'a) go \<Rightarrow> (('s, 'p, 'l) world, 'a) go" where
  "on_db f w = (case f (w_db w) of (r, s) \<Rightarrow> (r, w\<lparr>w_db := s\<rparr>))"

definition on_net :: "('p net \<Rightarrow> 'a \<times> 'p net) \<Rightarrow> ('s, 'p, 'l) world \<Rightarrow> 'a \<times> ('s, 'p, 'l) world" where
  "on_net f w = (case f (w_net w) of (r, n) \<Rightarrow> (r, w\<lparr>w_net := n\<rparr>))"

definition w_stamp ::
  "runtime \<Rightarrow> ('s, 'p, 'l) world \<Rightarrow> ((nat \<Rightarrow> time) \<times> (nat \<Rightarrow> uuid)) \<times> ('s, 'p, 'l) world" where
  "w_stamp rt = on_net (\<lambda>n.
     ((\<lambda>i. rt_clock rt (net_tick n + i), \<lambda>i. rt_uuid rt (net_tick n + i)),
      n\<lparr>net_tick := net_tick n + 2\<rparr>))"

definition w_wait :: "runtime \<Rightarrow> ('s, 'p, 'l) world \<Rightarrow> go_error option \<times> ('s, 'p, 'l) world" where
  "w_wait rt = on_net (\<lambda>n. (rt_done rt (net_tick n), n\<lparr>net_tick := Suc (net_tick n)\<rparr>))"

section \<open>Helpers\<close>

text \<open>
  \<open>backoff\<close>: \<open>None\<close> is the panic of \<open>rand.Int63n\<close> on an argument below 1. The code computes in
  \<open>float64\<close>, which is exact here for durations below \<open>2 ^ 53\<close> nanoseconds (104 days), since
  only powers of two are multiplied in. \<open>rnd\<close> is the random source, reduced to the range.
\<close>

definition backoff :: "Config \<Rightarrow> int \<Rightarrow> int \<Rightarrow> int option" where
  "backoff cfg attempt rnd =
     (let base = (if cfg_BaseBackoff cfg \<le> 0 then 200 * millisecond else cfg_BaseBackoff cfg);
          mx = (if cfg_MaxBackoff cfg \<le> 0 then 10 * second else cfg_MaxBackoff cfg);
          d0 = base * 2 ^ nat (attempt - 1);
          d = (if d0 > mx then mx else d0)
      in if d div 2 \<le> 0 then None else Some (wrap64 (d + rnd mod (d div 2))))"

definition audit ::
  "runtime \<Rightarrow> ('s, 'p, 'l) Executor \<Rightarrow> 'p SagaContext \<Rightarrow> string \<Rightarrow> string \<Rightarrow> string \<Rightarrow>
   go_error option \<Rightarrow> ('s, 'p, 'l) world \<Rightarrow> ('s, 'p, 'l) world" where
  "audit rt e sc step pre post err w =
     (case ex_Clients e of
        None \<Rightarrow> w
      | Some cl \<Rightarrow>
          (case cl_Audit cl of
             None \<Rightarrow> w
           | Some au \<Rightarrow>
               (case w_stamp rt w of ((clk, ids), w1) \<Rightarrow>
                  snd (on_net (rpc (Record au
                    \<lparr>aud_TxID = tx_TxID (sc_Tx sc), aud_Step = step, aud_Actor = ''orchestrator'',
                     aud_Before = pre, aud_After = post,
                     aud_Err = (case err of None \<Rightarrow> '''' | Some x \<Rightarrow> error_text x),
                     aud_Attempt = sc_Attempt sc, aud_At = clk 0\<rparr>)) w1))))"

definition mergePayload :: "payload \<Rightarrow> payload \<Rightarrow> payload" where
  "mergePayload base merge = base ++ merge"

definition validatePath :: "State \<Rightarrow> State \<Rightarrow> State \<Rightarrow> go_error option" where
  "validatePath from mid to =
     (if from = to then None
      else if mid = to \<or> mid = from then snd (Transition from to)
      else (case snd (Transition from mid) of
              Some err \<Rightarrow> Some err
            | None \<Rightarrow> snd (Transition mid to)))"

section \<open>One attempt of a step\<close>

text \<open>The transaction that opens an attempt: \<open>Inr True\<close> when the row already succeeded.\<close>

definition running_row :: "string \<Rightarrow> Step \<Rightarrow> int \<Rightarrow> time \<Rightarrow> StepRow" where
  "running_row txID step attempt now = zero_row\<lparr>row_TxID := txID, row_StepName := step,
     row_Status := StepRunning, row_Attempt := attempt, row_StartedAt := Some now,
     row_IdempotencyKey := IdempotencyKey txID step attempt\<rparr>"

definition begin_attempt ::
  "'s store_ops \<Rightarrow> string \<Rightarrow> Step \<Rightarrow> int \<Rightarrow> time \<Rightarrow> uuid \<Rightarrow> ('s, bool) go" where
  "begin_attempt ops txID step attempt now u s =
     (case op_LoadStep ops txID step attempt s of
        Inr existing \<Rightarrow>
          if row_Status existing = StepSucceeded then (Inr True, s)
          else thenE (op_UpdateStep ops (running_row txID step attempt now)) (okE False) s
      | Inl err \<Rightarrow>
          if \<not> errors_is err ErrNotFound then (Inl err, s)
          else thenE (op_InsertStep ops u (running_row txID step attempt now)) (okE False) s)"

definition finished_row :: "string \<Rightarrow> Step \<Rightarrow> StepStatus \<Rightarrow> int \<Rightarrow> time \<Rightarrow> string \<Rightarrow> StepRow" where
  "finished_row txID step status attempt finished err = zero_row\<lparr>row_TxID := txID,
     row_StepName := step, row_Status := status, row_Attempt := attempt,
     row_FinishedAt := Some finished, row_Error := err,
     row_IdempotencyKey := IdempotencyKey txID step attempt\<rparr>"

text \<open>The saga a successful step leads to.\<close>

definition advanced_saga :: "SagaState \<Rightarrow> Step \<Rightarrow> StepResult \<Rightarrow> SagaState" where
  "advanced_saga saga step res =
     (let g = saga\<lparr>sg_Payload := mergePayload (sg_Payload saga) (res_PayloadMerge res),
                   sg_State := res_State res, sg_Version := sg_Version saga + 1\<rparr>
      in if res_Terminal res then g
         else (case StepAfter step of
                 Some nxt \<Rightarrow> g\<lparr>sg_CurrentStep := nxt\<rparr>
               | None \<Rightarrow>
                   (if res_State res = StateLedgered then g\<lparr>sg_State := StateCompleted\<rparr> else g)
                     \<lparr>sg_CurrentStep := step\<rparr>))"

definition step_event ::
  "uuid \<Rightarrow> string \<Rightarrow> string \<Rightarrow> Step \<Rightarrow> int \<Rightarrow> State \<Rightarrow> time \<Rightarrow> OutboxEvent" where
  "step_event evID txID evtType step attempt state finished = \<lparr>
     ev_ID = '''', ev_EventID = evID, ev_TxID = txID, ev_EventType = evtType,
     ev_Step = step_string step, ev_Attempt = attempt,
     ev_Payload = [''tx_id'' \<mapsto> AStr txID, ''step'' \<mapsto> AStr (step_string step),
                   ''attempt'' \<mapsto> AInt attempt, ''state'' \<mapsto> AStr (state_string state)],
     ev_CreatedAt = finished, ev_PublishedAt = None, ev_Status = OutboxPending,
     ev_DedupKey = DedupKey txID evtType (step_string step) attempt\<rparr>"

definition persist_success ::
  "'s store_ops \<Rightarrow> Step \<Rightarrow> 'p SagaContext \<Rightarrow> StepResult \<Rightarrow> time \<Rightarrow> time \<Rightarrow> (nat \<Rightarrow> uuid) \<Rightarrow> ('s, unit) go"
where
  "persist_success ops step sc res finished now ids =
     (let txID = tx_TxID (sc_Tx sc);
          newSaga = advanced_saga (sc_Saga sc) step res;
          evtType = ''step.'' @ step_string step @ ''.succeeded''
      in thenE (op_UpdateStep ops (finished_row txID step StepSucceeded (sc_Attempt sc) finished ''''))
           (case validatePath (sg_State (sc_Saga sc)) (res_State res) (sg_State newSaga) of
              Some err \<Rightarrow> errE (errorf_wrap_tail
                (''saga: illegal transition '' @ state_string (sg_State (sc_Saga sc)) @ '' -> '' @
                 state_string (sg_State newSaga) @ '': '') err)
            | None \<Rightarrow>
                thenE (op_SaveSagaState ops newSaga)
               (thenE (op_UpdateTransactionStatus ops now txID (sg_State newSaga) (tx_Version (sc_Tx sc)))
               (ignE (op_AppendOutbox ops (\<lambda>i. ids (Suc i))
                        [step_event (ids 0) txID evtType step (sc_Attempt sc) (sg_State newSaga) finished])
                     (okE ())))))"

definition terminal_saga :: "SagaState \<Rightarrow> StepResult \<Rightarrow> SagaState" where
  "terminal_saga saga res =
     saga\<lparr>sg_Payload := mergePayload (sg_Payload saga) (res_PayloadMerge res),
          sg_State := res_State res, sg_Version := sg_Version saga + 1\<rparr>"

definition persistTerminal ::
  "'s store_ops \<Rightarrow> Step \<Rightarrow> 'p SagaContext \<Rightarrow> StepResult \<Rightarrow> time \<Rightarrow> time \<Rightarrow> (nat \<Rightarrow> uuid) \<Rightarrow> ('s, unit) go"
where
  "persistTerminal ops step sc res finished now ids =
     RunInTx ops
       (let txID = tx_TxID (sc_Tx sc);
            newSaga = terminal_saga (sc_Saga sc) res;
            evtType = ''transaction.'' @ state_string (sg_State newSaga)
        in ignE (op_UpdateStep ops (finished_row txID step StepFailed (sc_Attempt sc) finished ''''))
             (case snd (Transition (sg_State (sc_Saga sc)) (sg_State newSaga)) of
                Some terr \<Rightarrow> errE (errorf_wrap_tail
                  (''saga: illegal terminal transition '' @ state_string (sg_State (sc_Saga sc)) @
                   '' -> '' @ state_string (sg_State newSaga) @ '': '') terr)
              | None \<Rightarrow>
                  ignE (op_SaveSagaState ops newSaga)
                 (ignE (op_UpdateTransactionStatus ops now txID (sg_State newSaga) (tx_Version (sc_Tx sc)))
                 (ignE (op_AppendOutbox ops (\<lambda>i. ids (Suc i))
                          [step_event (ids 0) txID evtType step (sc_Attempt sc) (sg_State newSaga) finished])
                       (okE ())))))"

definition runStepOnce ::
  "runtime \<Rightarrow> ('s, 'p, 'l) Executor \<Rightarrow> 'p step_impl \<Rightarrow> 'p SagaContext \<Rightarrow> (('s, 'p, 'l) world, unit) go"
where
  "runStepOnce rt e step sc w0 =
     (let ops = ex_Store e; txID = tx_TxID (sc_Tx sc) in
      case w_stamp rt w0 of ((clk, ids), w1) \<Rightarrow>
      (case on_db (RunInTx ops (begin_attempt ops txID (Name step) (sc_Attempt sc) (clk 0) (ids 0))) w1 of
         (Inl err, w2) \<Rightarrow> (Inl err, w2)
       | (Inr True, w2) \<Rightarrow> (Inr (), w2)
       | (Inr False, w2) \<Rightarrow>
           (case on_net (Execute step sc) w2 of ((res, err), w3) \<Rightarrow>
            case w_stamp rt w3 of ((clk', ids'), w4) \<Rightarrow>
            (let finished = clk' 0 in case err of
               Some er \<Rightarrow>
                 if res_Terminal res
                 then (Inr (), snd (on_db (persistTerminal ops (Name step) sc res finished (clk' 1) ids') w4))
                 else
                   (let w5 = snd (on_db (RunInTx ops (op_UpdateStep ops
                               (finished_row txID (Name step) StepFailed (sc_Attempt sc) finished
                                  (error_text er)))) w4)
                    in (Inl er, audit rt e sc (step_string (Name step))
                          (state_string (sg_State (sc_Saga sc))) (state_string (res_State res))
                          (Some er) w5))
             | None \<Rightarrow>
                 on_db (RunInTx ops (persist_success ops (Name step) sc res finished (clk' 1) ids')) w4))))"

section \<open>Retries\<close>

text \<open>The loop of \<open>runStepWithRetry\<close>; the first argument counts the attempts that are left.
  \<open>fmt.Errorf\<close> formats a nil \<open>lastErr\<close>, which no attempt has set, as \<open>%!w(<nil>)\<close>.\<close>

fun retry_loop ::
  "nat \<Rightarrow> runtime \<Rightarrow> ('s, 'p, 'l) Executor \<Rightarrow> 'p step_impl \<Rightarrow> 'p SagaContext \<Rightarrow> int \<Rightarrow> go_error option \<Rightarrow>
   ('s, 'p, 'l) world \<Rightarrow> go_error option outcome \<times> ('s, 'p, 'l) world"
where
  "retry_loop 0 rt e step sc attempt lastErr w =
     (let msg = ''saga: step '' @ step_string (Name step) @ '' exhausted retries: '' in
      (Returned (Some (case lastErr of
          None \<Rightarrow> ErrorString (msg @ ''%!w(<nil>)'') | Some er \<Rightarrow> errorf_wrap_tail msg er)), w))"
| "retry_loop (Suc left) rt e step sc attempt lastErr w =
     (case runStepOnce rt e step (sc\<lparr>sc_Attempt := attempt\<rparr>) w of
        (Inr _, w1) \<Rightarrow> (Returned None, w1)
      | (Inl err, w1) \<Rightarrow>
          if IsNonRetriable (Some err) then (Returned (Some err), w1)
          else (case backoff (ex_Cfg e) attempt (rt_rand rt (net_tick (w_net w1))) of
                  None \<Rightarrow> (Panicked ''invalid argument to Int63n'', w1)
                | Some d \<Rightarrow>
                    (case w_wait rt w1 of
                       (Some cerr, w2) \<Rightarrow> (Returned (Some cerr), w2)
                     | (None, w2) \<Rightarrow> retry_loop left rt e step sc (attempt + 1) (Some err) w2)))"

definition runStepWithRetry ::
  "runtime \<Rightarrow> ('s, 'p, 'l) Executor \<Rightarrow> 'p step_impl \<Rightarrow> 'p SagaContext \<Rightarrow>
   ('s, 'p, 'l) world \<Rightarrow> go_error option outcome \<times> ('s, 'p, 'l) world" where
  "runStepWithRetry rt e step sc w =
     retry_loop (nat (cfg_MaxRetries (ex_Cfg e))) rt e step sc 1 None w"

section \<open>Compensation\<close>

definition mark_compensating :: "'s store_ops \<Rightarrow> string \<Rightarrow> Step \<Rightarrow> ('s, unit) go" where
  "mark_compensating ops txID step s =
     (case op_LoadStep ops txID step 1 s of
        Inr row \<Rightarrow> ignE (op_UpdateStep ops (row\<lparr>row_Status := StepCompensating\<rparr>)) (okE ()) s
      | Inl _ \<Rightarrow> (Inr (), s))"

definition mark_compensation_failed ::
  "'s store_ops \<Rightarrow> string \<Rightarrow> Step \<Rightarrow> go_error \<Rightarrow> ('s, unit) go" where
  "mark_compensation_failed ops txID step err s =
     (let row = (case op_LoadStep ops txID step 1 s of Inr r \<Rightarrow> r | Inl _ \<Rightarrow> zero_row) in
      if row_TxID row \<noteq> ''''
      then ignE (op_UpdateStep ops (row\<lparr>row_Status := StepFailed,
                  row_Error := ''compensation: '' @ error_text err\<rparr>)) (okE ()) s
      else (Inr (), s))"

definition mark_compensated :: "'s store_ops \<Rightarrow> string \<Rightarrow> Step \<Rightarrow> ('s, unit) go" where
  "mark_compensated ops txID step s =
     (let row = (case op_LoadStep ops txID step 1 s of Inr r \<Rightarrow> r | Inl _ \<Rightarrow> zero_row) in
      if row_TxID row \<noteq> ''''
      then ignE (op_UpdateStep ops (row\<lparr>row_Status := StepCompensated\<rparr>)) (okE ()) s
      else (Inr (), s))"

text \<open>The loop over the steps, from the failed one back to the first; it stops at the first
  compensation that fails and returns its error.\<close>

fun cascade_loop ::
  "'s store_ops \<Rightarrow> string \<Rightarrow> 'p SagaContext \<Rightarrow> 'p step_impl list \<Rightarrow>
   ('s, 'p, 'l) world \<Rightarrow> go_error option \<times> ('s, 'p, 'l) world"
where
  "cascade_loop ops txID sc [] w = (None, w)"
| "cascade_loop ops txID sc (step # rest) w =
     (let w1 = snd (on_db (RunInTx ops (mark_compensating ops txID (Name step))) w) in
      case on_net (Compensate step sc) w1 of
        (Inl err, w2) \<Rightarrow>
          (Some err, snd (on_db (RunInTx ops (mark_compensation_failed ops txID (Name step) err)) w2))
      | (Inr _, w2) \<Rightarrow>
          cascade_loop ops txID sc rest
            (snd (on_db (RunInTx ops (mark_compensated ops txID (Name step))) w2)))"

text \<open>The position of \<open>failedStep\<close> among the registered steps.\<close>

fun index_of_step :: "Step \<Rightarrow> 'p step_impl list \<Rightarrow> nat option" where
  "index_of_step name [] = None"
| "index_of_step name (s # ss) =
     (if Name s = name then Some 0 else map_option Suc (index_of_step name ss))"

definition tx_event :: "uuid \<Rightarrow> string \<Rightarrow> string \<Rightarrow> payload \<Rightarrow> time \<Rightarrow> OutboxEvent" where
  "tx_event evID txID evtType pl at = \<lparr>
     ev_ID = '''', ev_EventID = evID, ev_TxID = txID, ev_EventType = evtType,
     ev_Step = '''', ev_Attempt = 0, ev_Payload = pl, ev_CreatedAt = at, ev_PublishedAt = None,
     ev_Status = OutboxPending, ev_DedupKey = DedupKey txID evtType '''' 0\<rparr>"

definition persist_compensation ::
  "'s store_ops \<Rightarrow> string \<Rightarrow> Transaction \<Rightarrow> SagaState \<Rightarrow> State \<Rightarrow> (nat \<Rightarrow> time) \<Rightarrow> (nat \<Rightarrow> uuid) \<Rightarrow>
   ('s, unit) go"
where
  "persist_compensation ops txID tx sg target clk ids =
     (let evtType = ''transaction.'' @ state_string target in
      ignE (op_SaveSagaState ops (sg\<lparr>sg_Version := sg_Version sg + 1, sg_State := target\<rparr>))
     (ignE (op_UpdateTransactionStatus ops (clk 0) txID target (tx_Version tx))
     (ignE (op_AppendOutbox ops (\<lambda>i. ids (Suc i))
              [tx_event (ids 0) txID evtType
                 [''tx_id'' \<mapsto> AStr txID, ''state'' \<mapsto> AStr (state_string target)] (clk 1)])
           (okE ()))))"

definition compensateCascade ::
  "runtime \<Rightarrow> ('s, 'p, 'l) Executor \<Rightarrow> string \<Rightarrow> Step \<Rightarrow>
   ('s, 'p, 'l) world \<Rightarrow> go_error option \<times> ('s, 'p, 'l) world"
where
  "compensateCascade rt e txID failedStep w =
     (let ops = ex_Store e in
      case op_LoadSagaState ops txID (w_db w) of
        Inl err \<Rightarrow> (Some err, w)
      | Inr sg \<Rightarrow>
     (case op_LoadTx ops txID (w_db w) of
        Inl err \<Rightarrow> (Some err, w)
      | Inr tx \<Rightarrow>
     (case index_of_step failedStep (ex_Steps e) of
        None \<Rightarrow> (Some (ErrorString (''saga: failed step '' @ step_string failedStep @
                    '' not in registered order'')), w)
      | Some startIdx \<Rightarrow>
          (let sc = \<lparr>sc_Tx = tx, sc_Saga = sg, sc_Attempt = 1, sc_Partners = ex_Clients e\<rparr> in
           case cascade_loop ops txID sc (rev (take (Suc startIdx) (ex_Steps e))) w of (compErr, w1) \<Rightarrow>
           case w_stamp rt w1 of ((clk, ids), w2) \<Rightarrow>
             (let target = (if compErr \<noteq> None then StateFailed else StateFailedCompensated) in
              (compErr,
               snd (on_db (RunInTx ops (persist_compensation ops txID tx sg target clk ids)) w2)))))))"

section \<open>Confirmation\<close>

definition persist_confirmed ::
  "'s store_ops \<Rightarrow> string \<Rightarrow> Transaction \<Rightarrow> SagaState \<Rightarrow> (nat \<Rightarrow> time) \<Rightarrow> (nat \<Rightarrow> uuid) \<Rightarrow> ('s, unit) go"
where
  "persist_confirmed ops txID tx sg clk ids =
     (let newSaga = sg\<lparr>sg_State := StateConfirmed, sg_CurrentStep := StepLedger,
                       sg_Version := sg_Version sg + 1\<rparr>
      in case snd (Transition (sg_State sg) StateConfirmed) of
           Some terr \<Rightarrow> errE terr
         | None \<Rightarrow>
             thenE (op_SaveSagaState ops newSaga)
            (thenE (op_UpdateTransactionStatus ops (clk 0) txID StateConfirmed (tx_Version tx))
            (ignE (op_AppendOutbox ops (\<lambda>i. ids (Suc i))
                     [tx_event (ids 0) txID ''transaction.confirmed''
                        [''tx_id'' \<mapsto> AStr txID,
                         ''tx_hash'' \<mapsto> (case sg_Payload sg ''tx_hash'' of None \<Rightarrow> ANil | Some v \<Rightarrow> v)]
                        (clk 1)])
                  (okE ()))))"

definition persistConfirmedInline ::
  "runtime \<Rightarrow> 's store_ops \<Rightarrow> string \<Rightarrow> SagaState \<Rightarrow> (('s, 'p, 'l) world, unit) go" where
  "persistConfirmedInline rt ops txID sg w =
     (case op_LoadTx ops txID (w_db w) of
        Inl err \<Rightarrow> (Inl err, w)
      | Inr tx \<Rightarrow>
          (case w_stamp rt w of ((clk, ids), w1) \<Rightarrow>
             on_db (RunInTx ops (persist_confirmed ops txID tx sg clk ids)) w1))"

text \<open>The polling loop; the first argument is fuel. A wait that ends by the ticker polls
  again.\<close>

fun poll_loop ::
  "nat \<Rightarrow> runtime \<Rightarrow> 's store_ops \<Rightarrow> 'p Blockchain \<Rightarrow> string \<Rightarrow> string \<Rightarrow> SagaState \<Rightarrow>
   ('s, 'p, 'l) world \<Rightarrow> go_error option outcome \<times> ('s, 'p, 'l) world"
where
  "poll_loop 0 rt ops bc txID txHash sg w = (OutOfFuel, w)"
| "poll_loop (Suc fuel) rt ops bc txID txHash sg w =
     (case on_net (rpc (Status bc txHash)) w of (st, w1) \<Rightarrow>
      if (case st of Inl _ \<Rightarrow> False | Inr resp \<Rightarrow> bcs_Confirmed resp)
      then (case persistConfirmedInline rt ops txID sg w1 of
              (Inl err, w2) \<Rightarrow> (Returned (Some err), w2)
            | (Inr _, w2) \<Rightarrow> (Returned None, w2))
      else (case w_wait rt w1 of
              (Some cerr, w2) \<Rightarrow> (Returned (Some cerr), w2)
            | (None, w2) \<Rightarrow> poll_loop fuel rt ops bc txID txHash sg w2))"

definition advanceToConfirmed ::
  "nat \<Rightarrow> runtime \<Rightarrow> ('s, 'p, 'l) Executor \<Rightarrow> string \<Rightarrow>
   ('s, 'p, 'l) world \<Rightarrow> go_error option outcome \<times> ('s, 'p, 'l) world"
where
  "advanceToConfirmed fuel rt e txID w =
     (case ex_Clients e of
        None \<Rightarrow> (Returned None, w)
      | Some cl \<Rightarrow>
          (case cl_Blockchain cl of
             None \<Rightarrow> (Returned None, w)
           | Some bc \<Rightarrow>
               (case op_LoadSagaState (ex_Store e) txID (w_db w) of
                  Inl err \<Rightarrow> (Returned (Some err), w)
                | Inr sg \<Rightarrow>
                    (let txHash = payload_string (sg_Payload sg) ''tx_hash'' in
                     if txHash = '''' then (Returned (Some (ErrorString ''advance: missing tx_hash'')), w)
                     else poll_loop fuel rt (ex_Store e) bc txID txHash sg w))))"

section \<open>Run\<close>

text \<open>\<open>Run\<close> drives the saga until it is terminal. One turn of its loop either leaves the
  function (\<open>Stop\<close>) or goes on. \<open>pf\<close> is the fuel of a wait for a confirmation, the argument
  after \<open>owner\<close> of \<open>Run\<close> the fuel of the loop itself.\<close>

datatype turn = Stop "go_error option outcome" | Continue

definition after_step ::
  "runtime \<Rightarrow> ('s, 'p, 'l) Executor \<Rightarrow> nat \<Rightarrow> string \<Rightarrow>
   ('s, 'p, 'l) world \<Rightarrow> turn \<times> ('s, 'p, 'l) world"
where
  "after_step rt e pf txID w =
     (let sg2 = (case op_LoadSagaState (ex_Store e) txID (w_db w) of
                   Inl _ \<Rightarrow> zero_saga | Inr g \<Rightarrow> g) in
      if Terminal (sg_State sg2) then (Stop (Returned None), w)
      else if sg_State sg2 = StateBroadcasted then
        (case advanceToConfirmed pf rt e txID w of (r, w1) \<Rightarrow>
           (case r of Returned _ \<Rightarrow> (Continue, w1) | stuck \<Rightarrow> (Stop stuck, w1)))
      else (Continue, w))"

definition run_turn ::
  "runtime \<Rightarrow> ('s, 'p, 'l) Executor \<Rightarrow> nat \<Rightarrow> string \<Rightarrow> string \<Rightarrow>
   ('s, 'p, 'l) world \<Rightarrow> turn \<times> ('s, 'p, 'l) world"
where
  "run_turn rt e pf txID owner w =
     (let ops = ex_Store e in
      case op_LoadTx ops txID (w_db w) of
        Inl err \<Rightarrow> (Stop (Returned (Some err)), w)
      | Inr tx \<Rightarrow>
     (case op_LoadSagaState ops txID (w_db w) of
        Inl err \<Rightarrow> (Stop (Returned (Some err)), w)
      | Inr sg \<Rightarrow>
      if Terminal (sg_State sg) then (Stop (Returned None), w)
      else
     (case StepByName e (sg_CurrentStep sg) of
        None \<Rightarrow> (Stop (Returned (Some (ErrorString (''saga: no step for current_step='' @
                   step_string (sg_CurrentStep sg))))), w)
      | Some step \<Rightarrow>
     (case Acquire (ex_Lease e) txID owner
             (wrap64 (cfg_StepTimeout (ex_Cfg e) (step_string (Name step)) + 5 * second)) (w_leases w) of
        (Inl err, l) \<Rightarrow> (Stop (Returned (Some err)), w\<lparr>w_leases := l\<rparr>)
      | (Inr ok, l) \<Rightarrow>
          if \<not> ok then
            (case w_wait rt (w\<lparr>w_leases := l\<rparr>) of (cerr, w1) \<Rightarrow>
               (case cerr of Some er \<Rightarrow> (Stop (Returned (Some er)), w1) | None \<Rightarrow> (Continue, w1)))
          else
            (case runStepWithRetry rt e step
                    \<lparr>sc_Tx = tx, sc_Saga = sg, sc_Attempt = 1, sc_Partners = ex_Clients e\<rparr>
                    (w\<lparr>w_leases := l\<rparr>) of (r, w1) \<Rightarrow>
               (let w2 = w1\<lparr>w_leases := Release (ex_Lease e) txID owner (w_leases w1)\<rparr> in
                case r of
                  Returned None \<Rightarrow> after_step rt e pf txID w2
                | Returned (Some err) \<Rightarrow>
                    (case compensateCascade rt e txID (Name step) w2 of
                       (compErr, w3) \<Rightarrow> (Stop (Returned compErr), w3))
                | stuck \<Rightarrow> (Stop stuck, w1)))))))"

primrec Run ::
  "runtime \<Rightarrow> ('s, 'p, 'l) Executor \<Rightarrow> nat \<Rightarrow> string \<Rightarrow> string \<Rightarrow> nat \<Rightarrow>
   ('s, 'p, 'l) world \<Rightarrow> go_error option outcome \<times> ('s, 'p, 'l) world"
where
  "Run rt e pf txID owner 0 w = (OutOfFuel, w)"
| "Run rt e pf txID owner (Suc fuel) w =
     (case run_turn rt e pf txID owner w of (t, w1) \<Rightarrow>
        (case t of Stop r \<Rightarrow> (r, w1) | Continue \<Rightarrow> Run rt e pf txID owner fuel w1))"

declare Run.simps [simp del] retry_loop.simps [simp del] poll_loop.simps [simp del]
  cascade_loop.simps [simp del]

end
