(* ===== verification/Executor_Safety.thy ===== *)
theory Executor_Safety
  imports Executor
begin

text \<open>
  What the executor never does, for every store that meets \<open>store_contract\<close>, every partner
  behaviour and every list of registered steps: it never moves a saga along an illegal
  transition, never lets \<open>transactions.status\<close> and \<open>saga_state.state\<close> differ, never touches
  another transaction and never removes or rewrites an outbox event.
\<close>

section \<open>Vocabulary\<close>

text \<open>The two records of a transaction agree, and its step rows carry its id.\<close>

definition synced :: "string \<Rightarrow> mem_store \<Rightarrow> bool" where
  "synced txID T \<longleftrightarrow>
     (\<exists>tx sg. ms_txs T txID = Some tx \<and> ms_sagas T txID = Some sg \<and>
        tx_TxID tx = txID \<and> sg_TxID sg = txID \<and>
        tx_Status tx = sg_State sg \<and> tx_Version tx = sg_Version sg) \<and>
     (\<forall>r \<in> set (ms_steps T txID). row_TxID r = txID)"

text \<open>Everything of other transactions is as before, the outbox has only grown, and only by
  events of this transaction.\<close>

definition tx_frame :: "string \<Rightarrow> mem_store \<Rightarrow> mem_store \<Rightarrow> bool" where
  "tx_frame txID T T' \<longleftrightarrow>
     (\<forall>i. i \<noteq> txID \<longrightarrow> ms_txs T' i = ms_txs T i \<and> ms_sagas T' i = ms_sagas T i \<and> ms_steps T' i = ms_steps T i) \<and>
     (\<exists>evs. ms_outbox T' = ms_outbox T @ evs \<and> (\<forall>e \<in> set evs. ev_TxID e = txID))"

text \<open>What a transaction is about: who pays what to whom. Only its status, version and time of change may vary.\<close>

definition tx_terms :: "Transaction \<Rightarrow> Transaction" where
  "tx_terms tx = tx\<lparr>tx_Status := StateCreated, tx_Version := 0, tx_UpdatedAt := 0\<rparr>"

text \<open>The saga has moved along legal transitions, its version has grown with every change, and the terms of the transaction are the
  same.\<close>

definition saga_path :: "string \<Rightarrow> mem_store \<Rightarrow> mem_store \<Rightarrow> bool" where
  "saga_path txID T T' \<longleftrightarrow>
     map_option tx_terms (ms_txs T' txID) = map_option tx_terms (ms_txs T txID) \<and>
     (\<exists>sg sg'. ms_sagas T txID = Some sg \<and> ms_sagas T' txID = Some sg' \<and>
        moves_to (sg_State sg) (sg_State sg') \<and> sg_Version sg \<le> sg_Version sg' \<and>
        (sg_Version sg' = sg_Version sg \<longrightarrow> sg' = sg))"

lemma tx_terms_status [simp]: "tx_terms (tx\<lparr>tx_Status := st, tx_Version := v, tx_UpdatedAt := now\<rparr>) = tx_terms tx"
  by (simp add: tx_terms_def)

definition safe_step :: "string \<Rightarrow> mem_store \<Rightarrow> mem_store \<Rightarrow> bool" where
  "safe_step txID T T' \<longleftrightarrow> tx_frame txID T T' \<and> saga_path txID T T' \<and> synced txID T'"

text \<open>As \<open>safe_step\<close>, and the transaction and saga records are unchanged.\<close>

definition quiet_step :: "string \<Rightarrow> mem_store \<Rightarrow> mem_store \<Rightarrow> bool" where
  "quiet_step txID T T' \<longleftrightarrow>
     tx_frame txID T T' \<and> synced txID T' \<and> ms_txs T' = ms_txs T \<and> ms_sagas T' = ms_sagas T"

lemma tx_frame_refl [simp, intro]: "tx_frame txID T T"
  by (simp add: tx_frame_def)

lemma tx_frame_trans: "tx_frame txID A B \<Longrightarrow> tx_frame txID B C \<Longrightarrow> tx_frame txID A C"
  by (auto simp: tx_frame_def)

lemma safe_step_refl: "synced txID T \<Longrightarrow> safe_step txID T T"
  by (auto simp: safe_step_def synced_def saga_path_def)

lemma saga_path_trans:
  assumes "saga_path txID A B" and "saga_path txID B C"
  shows "saga_path txID A C"
proof -
  from assms obtain a b c where abc:
    "ms_sagas A txID = Some a" "ms_sagas B txID = Some b" "ms_sagas C txID = Some c"
    "moves_to (sg_State a) (sg_State b)" "moves_to (sg_State b) (sg_State c)"
    "sg_Version a \<le> sg_Version b" "sg_Version b \<le> sg_Version c"
    "sg_Version b = sg_Version a \<longrightarrow> b = a" "sg_Version c = sg_Version b \<longrightarrow> c = b"
    by (auto simp: saga_path_def)
  then have "moves_to (sg_State a) (sg_State c)" by (metis rtranclp_trans)
  moreover have "map_option tx_terms (ms_txs C txID) = map_option tx_terms (ms_txs A txID)" using assms by (simp add: saga_path_def)
  ultimately show ?thesis using abc by (auto simp: saga_path_def)
qed

lemma safe_step_trans: "safe_step txID A B \<Longrightarrow> safe_step txID B C \<Longrightarrow> safe_step txID A C"
  by (auto simp: safe_step_def intro: tx_frame_trans saga_path_trans)

lemma quiet_step_refl: "synced txID T \<Longrightarrow> quiet_step txID T T"
  by (simp add: quiet_step_def)

lemma quiet_step_trans: "quiet_step txID A B \<Longrightarrow> quiet_step txID B C \<Longrightarrow> quiet_step txID A C"
  by (auto simp: quiet_step_def intro: tx_frame_trans)

lemma quiet_step_safe: "quiet_step txID A B \<Longrightarrow> safe_step txID A B"
  by (auto simp: quiet_step_def safe_step_def synced_def saga_path_def)

lemma safe_step_synced: "safe_step txID A B \<Longrightarrow> synced txID B"
  by (simp add: safe_step_def)

lemma quiet_step_synced: "quiet_step txID A B \<Longrightarrow> synced txID B"
  by (simp add: quiet_step_def)

lemma syncedE:
  assumes "synced txID T"
  obtains tx sg where "ms_txs T txID = Some tx" "ms_sagas T txID = Some sg" "tx_TxID tx = txID"
    "sg_TxID sg = txID" "tx_Status tx = sg_State sg" "tx_Version tx = sg_Version sg"
    "\<And>r. r \<in> set (ms_steps T txID) \<Longrightarrow> row_TxID r = txID"
  using assms by (auto simp: synced_def)

section \<open>Paths\<close>

lemma validatePath_moves:
  "validatePath from mid to = None \<Longrightarrow> moves_to from to"
  by (auto simp: validatePath_def Transition_ok_iff split: if_splits option.splits
      intro: converse_rtranclp_into_rtranclp)

section \<open>The world\<close>

lemma on_db_net [simp]:
  "w_net (snd (on_db f w)) = w_net w" "w_leases (snd (on_db f w)) = w_leases w"
  "w_db (snd (on_db f w)) = snd (f (w_db w))" "fst (on_db f w) = fst (f (w_db w))"
  by (simp_all add: on_db_def split: prod.splits)

lemma on_net_db [simp]:
  "w_db (snd (on_net f w)) = w_db w" "w_leases (snd (on_net f w)) = w_leases w"
  "w_net (snd (on_net f w)) = snd (f (w_net w))" "fst (on_net f w) = fst (f (w_net w))"
  by (simp_all add: on_net_def split: prod.splits)

lemma w_stamp_db [simp]:
  "w_db (snd (w_stamp rt w)) = w_db w" "w_leases (snd (w_stamp rt w)) = w_leases w"
  "net_peers (w_net (snd (w_stamp rt w))) = net_peers (w_net w)"
  by (simp_all add: w_stamp_def)

lemma w_wait_db [simp]:
  "w_db (snd (w_wait rt w)) = w_db w" "w_leases (snd (w_wait rt w)) = w_leases w"
  "net_peers (w_net (snd (w_wait rt w))) = net_peers (w_net w)"
  by (simp_all add: w_wait_def)

lemma audit_db [simp]: "w_db (audit rt e sc a b c er w) = w_db w" "w_leases (audit rt e sc a b c er w) = w_leases w"
  by (simp_all add: audit_def split: option.splits prod.splits)
    (metis on_net_db snd_conv w_stamp_db)+

section \<open>Step rows\<close>

lemma set_replace_row: "set (replace_row row rows) \<subseteq> insert row (set rows)"
  by (induction rows) auto

lemma set_tab_rows: "r \<in> set (tab_rows keep row rows) \<Longrightarrow> r \<in> set rows \<or> (\<exists>old. r = keep old row)"
  by (auto simp: tab_rows_def split: option.splits dest!: set_replace_row [THEN subsetD])

context store_contract
begin

lemma quiet_update:
  assumes "synced txID (tables s)" and "row_TxID row = txID"
  shows "quiet_step txID (tables s) (tables (snd (op_UpdateStep ops row s)))"
  using assms unfolding quiet_step_def UpdateStep(1)
  by (auto simp: tab_update_def tx_frame_def synced_def keeps_columns dest!: set_tab_rows)

lemma quiet_insert:
  assumes "synced txID (tables s)" and "row_TxID row = txID"
  shows "quiet_step txID (tables s) (tables (snd (op_InsertStep ops u row s)))"
  using assms unfolding quiet_step_def InsertStep(1)
  by (auto simp: mem_InsertStep_def tx_frame_def synced_def with_row_id_def split: option.splits)

lemma quiet_RunInTx:
  assumes "synced txID (tables s)" and "quiet_step txID (tables s) (tables (snd (fn s)))"
  shows "quiet_step txID (tables s) (tables (snd (RunInTx ops fn s)))"
  using RunInTx_tables [of fn s] quiet_step_refl [OF assms(1)] assms(2) by auto

lemma quiet_begin_attempt:
  assumes "synced txID (tables s)"
  shows "quiet_step txID (tables s) (tables (snd (begin_attempt ops txID st k now u s)))"
  using quiet_update [OF assms, of "running_row txID st k now"]
    quiet_insert [OF assms, of "running_row txID st k now" u] quiet_step_refl [OF assms]
  by (auto simp: begin_attempt_def running_row_def thenE_def bindE_def okE_def
      split: sum.splits prod.splits)

lemma loaded_row_tx:
  assumes "synced txID (tables s)" and "op_LoadStep ops txID st k s = Inr r"
  shows "row_TxID r = txID"
  using assms by (auto simp: LoadStep mem_LoadStep_def synced_def split: option.splits
      dest: find_row_Some)

lemma quiet_mark:
  assumes "synced txID (tables s)"
  shows "quiet_step txID (tables s) (tables (snd (mark_compensating ops txID st s)))"
    and "quiet_step txID (tables s) (tables (snd (mark_compensated ops txID st s)))"
    and "quiet_step txID (tables s) (tables (snd (mark_compensation_failed ops txID st er s)))"
  using quiet_step_refl [OF assms] quiet_update [OF assms] loaded_row_tx [OF assms]
  by (auto simp: mark_compensating_def mark_compensated_def mark_compensation_failed_def
      ignE_def okE_def zero_row_def Let_def split: sum.splits)

end

section \<open>The transaction that moves a saga\<close>

text \<open>The tables after a saga and its transaction have been moved to the state of \<open>new\<close>.\<close>

definition moved :: "string \<Rightarrow> Transaction \<Rightarrow> SagaState \<Rightarrow> mem_store \<Rightarrow> mem_store \<Rightarrow> bool" where
  "moved txID tx new T T' \<longleftrightarrow>
     (\<exists>g now. ms_sagas T' = (ms_sagas T)(txID \<mapsto> g) \<and> sg_TxID g = txID \<and>
        sg_State g = sg_State new \<and> sg_Version g = sg_Version new \<and>
        sg_CurrentStep g = sg_CurrentStep new \<and> sg_Payload g = sg_Payload new \<and>
        ms_txs T' = (ms_txs T)(txID \<mapsto> tx\<lparr>tx_Status := sg_State new,
          tx_Version := tx_Version tx + 1, tx_UpdatedAt := now\<rparr>)) \<and>
     ms_steps T' = ms_steps T \<and>
     (\<exists>evs. ms_outbox T' = ms_outbox T @ evs \<and> (\<forall>e \<in> set evs. ev_TxID e = txID))"

lemma moved_safe:
  assumes "moved txID tx new T T'" and "synced txID T"
    and "ms_txs T txID = Some tx" and "ms_sagas T txID = Some sg"
    and "sg_Version new = sg_Version sg + 1" and "moves_to (sg_State sg) (sg_State new)"
  shows "safe_step txID T T'"
proof -
  have tx: "tx_TxID tx = txID" "tx_Version tx = sg_Version sg"
    using assms(2-4) by (auto simp: synced_def)
  have "tx_frame txID T T'" using assms(1) by (auto simp: moved_def tx_frame_def)
  moreover have "saga_path txID T T'"
    using assms by (auto simp: moved_def saga_path_def)
  moreover have "synced txID T'"
    using assms(1,2,5) tx by (auto simp: moved_def synced_def)
  ultimately show ?thesis by (simp add: safe_step_def)
qed

definition move_strict ::
  "'s store_ops \<Rightarrow> SagaState \<Rightarrow> time \<Rightarrow> string \<Rightarrow> int \<Rightarrow> (nat \<Rightarrow> uuid) \<Rightarrow> OutboxEvent \<Rightarrow> ('s, unit) go" where
  "move_strict ops new now txID v ids ev =
     thenE (op_SaveSagaState ops new)
    (thenE (op_UpdateTransactionStatus ops now txID (sg_State new) v)
    (ignE (op_AppendOutbox ops ids [ev]) (okE ())))"

definition move_lax ::
  "'s store_ops \<Rightarrow> SagaState \<Rightarrow> time \<Rightarrow> string \<Rightarrow> int \<Rightarrow> (nat \<Rightarrow> uuid) \<Rightarrow> OutboxEvent \<Rightarrow> ('s, unit) go" where
  "move_lax ops new now txID v ids ev =
     ignE (op_SaveSagaState ops new)
    (ignE (op_UpdateTransactionStatus ops now txID (sg_State new) v)
    (ignE (op_AppendOutbox ops ids [ev]) (okE ())))"

context store_contract
begin

lemma save_ok:
  assumes "ms_sagas (tables s) (sg_TxID new) = Some sg" and "sg_Version new = sg_Version sg + 1"
  obtains s' where "op_SaveSagaState ops new s = (Inr (), s')"
    "tables s' = (tables s)\<lparr>ms_sagas := (ms_sagas (tables s))(sg_TxID new \<mapsto> keep_saga sg new)\<rparr>"
proof -
  have "\<not> isl (fst (op_SaveSagaState ops new s))"
    using assms by (simp add: SaveSagaState(2) mem_SaveSagaState_def)
  then obtain s' where "op_SaveSagaState ops new s = (Inr (), s')"
    by (cases "op_SaveSagaState ops new s") (auto simp: isl_def split: sum.splits, metis old.sum.exhaust old.unit.exhaust)
  moreover from this have "tables s' = tab_save keep_saga new (tables s)"
    using SaveSagaState(1) [of new s] by simp
  ultimately show thesis using that assms by (simp add: tab_save_def)
qed

lemma status_ok:
  assumes "ms_txs (tables s) txID = Some tx" and "tx_Version tx = v"
  obtains s' where "op_UpdateTransactionStatus ops now txID st v s = (Inr (), s')"
    "tables s' = (tables s)\<lparr>ms_txs := (ms_txs (tables s))(txID \<mapsto>
       tx\<lparr>tx_Status := st, tx_Version := v + 1, tx_UpdatedAt := now\<rparr>)\<rparr>"
proof -
  have "\<not> isl (fst (op_UpdateTransactionStatus ops now txID st v s))"
    using assms by (simp add: UpdateTransactionStatus(2) mem_UpdateTransactionStatus_def)
  then obtain s' where "op_UpdateTransactionStatus ops now txID st v s = (Inr (), s')"
    by (cases "op_UpdateTransactionStatus ops now txID st v s") (auto simp: isl_def, metis old.sum.exhaust old.unit.exhaust)
  moreover from this have "tables s' = snd (mem_UpdateTransactionStatus now txID st v (tables s))"
    using UpdateTransactionStatus(1) [of now txID st v s] by simp
  ultimately show thesis using that assms by (simp add: mem_UpdateTransactionStatus_def)
qed

lemma append_event:
  assumes "ev_TxID ev = txID"
  obtains evs where "tables (snd (op_AppendOutbox ops ids [ev] s)) =
      (tables s)\<lparr>ms_outbox := ms_outbox (tables s) @ evs\<rparr>" "\<forall>e \<in> set evs. ev_TxID e = txID"
  by (rule that [of "if (\<exists>ex \<in> set (ms_outbox (tables s)). ev_DedupKey ex = ev_DedupKey ev) then []
        else [fill_ev (ids 0) ev]"]) (auto simp: AppendOutbox mem_AppendOutbox_def keeps_columns assms)

lemma move_moved:
  assumes "ms_txs (tables s) txID = Some tx" "ms_sagas (tables s) txID = Some sg"
    "sg_TxID new = txID" "sg_Version new = sg_Version sg + 1" "tx_Version tx = v" "ev_TxID ev = txID"
  shows "\<exists>s'. move_strict ops new now txID v ids ev s = (Inr (), s') \<and> moved txID tx new (tables s) (tables s')"
    and "\<exists>s'. move_lax ops new now txID v ids ev s = (Inr (), s') \<and> moved txID tx new (tables s) (tables s')"
proof -
  obtain s1 where s1: "op_SaveSagaState ops new s = (Inr (), s1)"
    "tables s1 = (tables s)\<lparr>ms_sagas := (ms_sagas (tables s))(txID \<mapsto> keep_saga sg new)\<rparr>"
    using save_ok [of s new sg] assms by auto
  obtain s2 where s2: "op_UpdateTransactionStatus ops now txID (sg_State new) v s1 = (Inr (), s2)"
    "tables s2 = (tables s1)\<lparr>ms_txs := (ms_txs (tables s1))(txID \<mapsto>
       tx\<lparr>tx_Status := sg_State new, tx_Version := v + 1, tx_UpdatedAt := now\<rparr>)\<rparr>"
    using status_ok [of s1 txID tx v] s1(2) assms by auto
  obtain evs where evs: "tables (snd (op_AppendOutbox ops ids [ev] s2)) =
      (tables s2)\<lparr>ms_outbox := ms_outbox (tables s2) @ evs\<rparr>" "\<forall>e \<in> set evs. ev_TxID e = txID"
    using append_event assms(6) by blast
  have "moved txID tx new (tables s) (tables (snd (op_AppendOutbox ops ids [ev] s2)))"
    using assms s1(2) s2(2) evs unfolding moved_def
    by (intro conjI exI [of _ "keep_saga sg new"] exI [of _ now]) (simp_all add: keeps_columns)
  then show "\<exists>s'. move_strict ops new now txID v ids ev s = (Inr (), s') \<and> moved txID tx new (tables s) (tables s')"
    and "\<exists>s'. move_lax ops new now txID v ids ev s = (Inr (), s') \<and> moved txID tx new (tables s) (tables s')"
    by (simp_all add: move_strict_def move_lax_def go_monad_defs s1(1) s2(1))
qed

lemma RunInTx_failure:
  assumes "RunInTx ops fn s = (Inl e, s')"
  shows "tables s' = tables s \<or> isl (fst (fn s)) \<and> tables s' = tables (snd (fn s))"
  using assms Rollback [of s "snd (fn s)"] Commit [of s "snd (fn s)"]
  by (auto simp: RunInTx_def split: prod.splits sum.splits)

end

section \<open>The bodies of the transactions\<close>

text \<open>The tables hold exactly the transaction and the saga that an operation has loaded.\<close>

definition stored :: "string \<Rightarrow> Transaction \<Rightarrow> SagaState \<Rightarrow> mem_store \<Rightarrow> bool" where
  "stored txID tx sg T \<longleftrightarrow> synced txID T \<and> ms_txs T txID = Some tx \<and> ms_sagas T txID = Some sg"

lemma stored_quiet: "stored txID tx sg A \<Longrightarrow> quiet_step txID A B \<Longrightarrow> stored txID tx sg B"
  by (auto simp: stored_def quiet_step_def)

lemma stored_synced: "stored txID tx sg A \<Longrightarrow> synced txID A"
  by (simp add: stored_def)

lemma stored_facts:
  assumes "stored txID tx sg A"
  shows "tx_TxID tx = txID" "sg_TxID sg = txID" "tx_Version tx = sg_Version sg" "tx_Status tx = sg_State sg"
  using assms by (auto simp: stored_def synced_def)

text \<open>A transaction that fails changes neither record, one that succeeds is a safe step.\<close>

definition guarded :: "string \<Rightarrow> mem_store \<Rightarrow> bool \<Rightarrow> mem_store \<Rightarrow> bool" where
  "guarded txID T failed T' \<longleftrightarrow> (if failed then quiet_step txID T T' else safe_step txID T T')"

lemma guarded_quiet: "quiet_step txID T T' \<Longrightarrow> guarded txID T b T'"
  by (simp add: guarded_def quiet_step_safe)

lemma guarded_after: "quiet_step txID A B \<Longrightarrow> guarded txID B b C \<Longrightarrow> guarded txID A b C"
  by (auto simp: guarded_def intro: quiet_step_trans safe_step_trans quiet_step_safe split: if_splits)

lemma guarded_safe: "guarded txID T b T' \<Longrightarrow> safe_step txID T T'"
  by (auto simp: guarded_def quiet_step_safe split: if_splits)

lemma advanced_saga_fields [simp]:
  "sg_TxID (advanced_saga sg st res) = sg_TxID sg"
  "sg_Version (advanced_saga sg st res) = sg_Version sg + 1"
  by (simp_all add: advanced_saga_def Let_def split: option.splits)

lemma event_tx [simp]:
  "ev_TxID (step_event u txID evt st k g now) = txID" "ev_TxID (tx_event u txID evt pl now) = txID"
  by (simp_all add: step_event_def tx_event_def)

lemma finished_row_tx [simp]: "row_TxID (finished_row txID st stat k fin er) = txID"
  by (simp add: finished_row_def)

context store_contract
begin

lemma guarded_RunInTx:
  assumes "synced txID (tables s)" and "guarded txID (tables s) (isl (fst (fn s))) (tables (snd (fn s)))"
  shows "guarded txID (tables s) (isl (fst (RunInTx ops fn s))) (tables (snd (RunInTx ops fn s)))"
proof (cases "RunInTx ops fn s")
  case (Pair r s')
  show ?thesis
  proof (cases r)
    case (Inl e)
    then show ?thesis
      using RunInTx_failure [of fn s e s'] Pair assms quiet_step_refl [OF assms(1)]
      by (auto simp: guarded_def)
  next
    case (Inr x)
    then show ?thesis using RunInTx_success [of fn s x s'] Pair assms by auto
  qed
qed

lemma guarded_move:
  assumes "stored txID tx sg (tables s)" and "sg_TxID new = txID" "sg_Version new = sg_Version sg + 1"
    and "moves_to (sg_State sg) (sg_State new)" and "ev_TxID ev = txID"
  shows "guarded txID (tables s) (isl (fst (move_strict ops new now txID (tx_Version tx) ids ev s)))
      (tables (snd (move_strict ops new now txID (tx_Version tx) ids ev s)))"
    and "guarded txID (tables s) (isl (fst (move_lax ops new now txID (tx_Version tx) ids ev s)))
      (tables (snd (move_lax ops new now txID (tx_Version tx) ids ev s)))"
proof -
  note st = assms(1) [unfolded stored_def]
  have safe: "moved txID tx new (tables s) T' \<Longrightarrow> safe_step txID (tables s) T'" for T'
    using moved_safe [of txID tx new "tables s" T' sg] st assms(3,4) by blast
  show "guarded txID (tables s) (isl (fst (move_strict ops new now txID (tx_Version tx) ids ev s)))
      (tables (snd (move_strict ops new now txID (tx_Version tx) ids ev s)))"
    using move_moved(1) [of s txID tx sg new "tx_Version tx" ev now ids] st assms safe
    by (auto simp: guarded_def)
  show "guarded txID (tables s) (isl (fst (move_lax ops new now txID (tx_Version tx) ids ev s)))
      (tables (snd (move_lax ops new now txID (tx_Version tx) ids ev s)))"
    using move_moved(2) [of s txID tx sg new "tx_Version tx" ev now ids] st assms safe
    by (auto simp: guarded_def)
qed

lemma guarded_update_then:
  assumes "stored txID tx sg (tables s)" and "row_TxID row = txID"
    and "\<And>s. stored txID tx sg (tables s) \<Longrightarrow> guarded txID (tables s) (isl (fst (m s))) (tables (snd (m s)))"
  shows "guarded txID (tables s) (isl (fst (thenE (op_UpdateStep ops row) m s)))
      (tables (snd (thenE (op_UpdateStep ops row) m s)))"
    and "guarded txID (tables s) (isl (fst (ignE (op_UpdateStep ops row) m s)))
      (tables (snd (ignE (op_UpdateStep ops row) m s)))"
proof -
  have q: "quiet_step txID (tables s) (tables (snd (op_UpdateStep ops row s)))"
    using quiet_update stored_synced assms by blast
  note g = assms(3) [OF stored_quiet [OF assms(1) q]]
  show "guarded txID (tables s) (isl (fst (thenE (op_UpdateStep ops row) m s)))
      (tables (snd (thenE (op_UpdateStep ops row) m s)))"
    using q guarded_after [OF q g] guarded_quiet [OF q]
    by (auto simp: thenE_def bindE_def split: prod.splits sum.splits)
  show "guarded txID (tables s) (isl (fst (ignE (op_UpdateStep ops row) m s)))
      (tables (snd (ignE (op_UpdateStep ops row) m s)))"
    using guarded_after [OF q g] by (simp add: ignE_def)
qed

lemma guarded_errE: "synced txID (tables s) \<Longrightarrow> guarded txID (tables s) (isl (fst (errE e s))) (tables (snd (errE e s)))"
  by (simp add: errE_def guarded_quiet quiet_step_refl)

end

context store_contract
begin

lemma guarded_checked:
  assumes "stored txID tx sg (tables s)" and "sg_TxID new = txID" "sg_Version new = sg_Version sg + 1"
    and "c = None \<Longrightarrow> moves_to (sg_State sg) (sg_State new)" and "ev_TxID ev = txID"
  shows "guarded txID (tables s)
      (isl (fst ((case c of None \<Rightarrow> move_strict ops new now txID (tx_Version tx) ids ev | Some x \<Rightarrow> errE (h x)) s)))
      (tables (snd ((case c of None \<Rightarrow> move_strict ops new now txID (tx_Version tx) ids ev | Some x \<Rightarrow> errE (h x)) s)))"
    and "guarded txID (tables s)
      (isl (fst ((case c of None \<Rightarrow> move_lax ops new now txID (tx_Version tx) ids ev | Some x \<Rightarrow> errE (h x)) s)))
      (tables (snd ((case c of None \<Rightarrow> move_lax ops new now txID (tx_Version tx) ids ev | Some x \<Rightarrow> errE (h x)) s)))"
  using guarded_move [OF assms(1-3) _ assms(5)] assms(4) guarded_errE [OF stored_synced [OF assms(1)]]
  by (auto split: option.splits)

lemma guarded_persist_success:
  assumes st: "stored txID (sc_Tx sc) (sc_Saga sc) (tables s)"
  shows "guarded txID (tables s) (isl (fst (persist_success ops step sc res fin now ids s)))
      (tables (snd (persist_success ops step sc res fin now ids s)))"
proof -
  note f = stored_facts [OF st]
  show ?thesis
    unfolding persist_success_def Let_def f(1) move_strict_def [symmetric]
    by (rule guarded_update_then(1) [OF st], simp, rule guarded_checked(1))
      (auto simp: f dest: validatePath_moves)
qed

lemma guarded_persistTerminal:
  assumes st: "stored txID (sc_Tx sc) (sc_Saga sc) (tables s)"
  shows "guarded txID (tables s) (isl (fst (persistTerminal ops step sc res fin now ids s)))
      (tables (snd (persistTerminal ops step sc res fin now ids s)))"
proof -
  note f = stored_facts [OF st]
  show ?thesis
    unfolding persistTerminal_def Let_def f(1) move_lax_def [symmetric]
    by (rule guarded_RunInTx [OF stored_synced [OF st]], rule guarded_update_then(2) [OF st], simp,
        rule guarded_checked(2))
      (auto simp: f terminal_saga_def Transition_ok_iff)
qed

lemma guarded_persist_confirmed:
  assumes st: "stored txID tx sg (tables s)"
  shows "guarded txID (tables s) (isl (fst (persist_confirmed ops txID tx sg clk ids s)))
      (tables (snd (persist_confirmed ops txID tx sg clk ids s)))"
proof -
  note f = stored_facts [OF st]
  let ?new = "sg\<lparr>sg_State := StateConfirmed, sg_CurrentStep := StepLedger, sg_Version := sg_Version sg + 1\<rparr>"
  have "sg_State ?new = StateConfirmed" by simp
  note strict = move_strict_def [of ops ?new, unfolded this]
  show ?thesis
    unfolding persist_confirmed_def Let_def strict [symmetric]
    by (rule guarded_checked(1) [OF st]) (auto simp: f Transition_ok_iff)
qed

lemma safe_persist_compensation:
  assumes st: "stored txID tx sg (tables s)" and "moves (sg_State sg) target"
  shows "safe_step txID (tables s) (tables (snd (persist_compensation ops txID tx sg target clk ids s)))"
proof -
  note f = stored_facts [OF st]
  let ?new = "sg\<lparr>sg_Version := sg_Version sg + 1, sg_State := target\<rparr>"
  have "sg_State ?new = target" by simp
  note lax = move_lax_def [of ops ?new, unfolded this]
  show ?thesis
    unfolding persist_compensation_def Let_def lax [symmetric]
    by (rule guarded_safe, rule guarded_move(2) [OF st]) (auto simp: f assms)
qed

end

section \<open>One attempt, the retries and the cascade\<close>

context store_contract
begin

lemma runStepOnce_guarded:
  assumes e: "ex_Store e = ops" and st: "stored txID (sc_Tx sc) (sc_Saga sc) (tables (w_db w))"
    and run: "runStepOnce rt e step sc w = (r, w')"
  shows "guarded txID (tables (w_db w)) (isl r) (tables (w_db w'))"
proof -
  obtain clk ids w1 where w1: "w_stamp rt w = ((clk, ids), w1)" by (metis surj_pair)
  let ?b = "begin_attempt ops txID (Name step) (sc_Attempt sc) (clk 0) (ids 0)"
  obtain rb w2 where w2: "on_db (RunInTx ops ?b) w1 = (rb, w2)" by (metis surj_pair)
  obtain res err w3 where w3: "on_net (Execute step sc) w2 = ((res, err), w3)" by (metis surj_pair)
  obtain clk' ids' w4 where w4: "w_stamp rt w3 = ((clk', ids'), w4)" by (metis surj_pair)
  have db1: "w_db w1 = w_db w" and db4: "w_db w4 = w_db w2"
    using w_stamp_db(1) [of rt w] w_stamp_db(1) [of rt w3] on_net_db(1) [of "Execute step sc" w2] w1 w3 w4
    by simp_all
  note sy = stored_synced [OF st]
  have "quiet_step txID (tables (w_db w)) (tables (snd (RunInTx ops ?b (w_db w))))"
    by (rule quiet_RunInTx [OF sy]) (rule quiet_begin_attempt [OF sy])
  then have q2: "quiet_step txID (tables (w_db w)) (tables (w_db w2))"
    using on_db_net(3) [of "RunInTx ops ?b" w1] w2 db1 by simp
  note st2 = stored_quiet [OF st q2]
  note sy2 = stored_synced [OF st2]
  let ?upd = "\<lambda>m. op_UpdateStep ops (finished_row txID (Name step) StepFailed (sc_Attempt sc) (clk' 0) m)"
  let ?ps = "persist_success ops (Name step) sc res (clk' 0) (clk' 1) ids'"
  let ?pt = "persistTerminal ops (Name step) sc res (clk' 0) (clk' 1) ids'"
  have "quiet_step txID (tables (w_db w2)) (tables (snd (RunInTx ops (?upd m) (w_db w2))))" for m
    by (rule quiet_RunInTx [OF sy2], rule quiet_update [OF sy2]) simp
  note failed = quiet_step_trans [OF q2 this]
  have "guarded txID (tables (w_db w2)) (isl (fst (RunInTx ops ?ps (w_db w2)))) (tables (snd (RunInTx ops ?ps (w_db w2))))"
    by (rule guarded_RunInTx [OF sy2]) (rule guarded_persist_success [OF st2])
  note ok = guarded_after [OF q2 this]
  note tm = guarded_safe [OF guarded_after [OF q2 guarded_persistTerminal [OF st2]], of "Name step" res "clk' 0" "clk' 1" ids']
  have r: "(r, w') = (case rb of Inl er \<Rightarrow> (Inl er, w2) | Inr True \<Rightarrow> (Inr (), w2) | Inr False \<Rightarrow>
      (case err of None \<Rightarrow> on_db (RunInTx ops ?ps) w4
       | Some er \<Rightarrow> if res_Terminal res then (Inr (), snd (on_db ?pt w4))
           else (Inl er, audit rt e sc (step_string (Name step)) (state_string (sg_State (sc_Saga sc)))
              (state_string (res_State res)) (Some er) (snd (on_db (RunInTx ops (?upd (error_text er))) w4)))))"
    using run stored_facts(1) [OF st]
    by (cases rb; cases err) (auto simp: runStepOnce_def e w1 w2 w3 w4 Let_def split: bool.splits if_splits)
  have "guarded txID (tables (w_db w)) (isl (fst (r, w'))) (tables (w_db (snd (r, w'))))"
    unfolding r using failed ok tm q2
    by (cases rb; cases err) (auto simp: db4 guarded_quiet quiet_step_safe guarded_def [of _ _ False] split: bool.splits)
  then show ?thesis by simp
qed

end

text \<open>What \<open>Returned None\<close> is to a call that returns \<open>error\<close>.\<close>

definition returned_ok :: "go_error option outcome \<Rightarrow> bool" where
  "returned_ok r \<longleftrightarrow> r = Returned None"

lemma w_wait_fst: "w_wait rt w = (c, w') \<Longrightarrow> w_db w' = w_db w"
  by (metis snd_conv w_wait_db(1))

context store_contract
begin

lemma retry_loop_guarded:
  assumes "ex_Store e = ops" and "stored txID (sc_Tx sc) (sc_Saga sc) (tables (w_db w))"
    and "retry_loop n rt e step sc k le w = (r, w')"
  shows "guarded txID (tables (w_db w)) (\<not> returned_ok r) (tables (w_db w'))"
  using assms(2,3)
proof (induction n arbitrary: k le w)
  case 0
  then show ?case
    by (auto simp: retry_loop.simps Let_def returned_ok_def intro: guarded_quiet quiet_step_refl stored_synced)
next
  case (Suc n)
  obtain r1 w1 where one: "runStepOnce rt e step (sc\<lparr>sc_Attempt := k\<rparr>) w = (r1, w1)" by (metis surj_pair)
  have g: "guarded txID (tables (w_db w)) (isl r1) (tables (w_db w1))"
    using runStepOnce_guarded [OF assms(1) _ one] Suc.prems(1) by simp
  show ?case
  proof (cases r1)
    case (Inr u)
    then show ?thesis using Suc.prems(2) one g
      by (auto simp: retry_loop.simps returned_ok_def)
  next
    case (Inl er)
    then have q: "quiet_step txID (tables (w_db w)) (tables (w_db w1))" using g by (simp add: guarded_def)
    note st1 = stored_quiet [OF Suc.prems(1) q]
    note fin = guarded_quiet [OF q]
    have ih: "guarded txID (tables (w_db w)) (\<not> returned_ok r) (tables (w_db w'))"
      if "w_wait rt w1 = (c, w2)" "retry_loop n rt e step sc k' le' w2 = (r, w')" for c w2 k' le'
      using guarded_after [OF q] Suc.IH [OF _ that(2)] st1 w_wait_fst [OF that(1)] by simp
    show ?thesis using Suc.prems(2) one Inl fin
      by (auto simp: retry_loop.simps dest: w_wait_fst ih split: if_splits option.splits prod.splits)
  qed
qed

lemma cascade_loop_quiet:
  assumes "synced txID (tables (w_db w))"
  shows "quiet_step txID (tables (w_db w)) (tables (w_db (snd (cascade_loop ops txID sc steps w))))"
  using assms
proof (induction steps arbitrary: w)
  case Nil
  then show ?case by (simp add: cascade_loop.simps quiet_step_refl)
next
  case (Cons step rest)
  let ?w1 = "snd (on_db (RunInTx ops (mark_compensating ops txID (Name step))) w)"
  have q1: "quiet_step txID (tables (w_db w)) (tables (w_db ?w1))"
    by simp (rule quiet_RunInTx [OF Cons.prems], rule quiet_mark(1) [OF Cons.prems])
  note sy = quiet_step_synced [OF q1]
  obtain r w2 where w2: "on_net (Compensate step sc) ?w1 = (r, w2)" by (metis surj_pair)
  then have db2: "w_db w2 = w_db ?w1" by (metis on_net_db(1) snd_conv)
  have qf: "quiet_step txID (tables (w_db ?w1)) (tables (snd (RunInTx ops (mark_compensation_failed ops txID (Name step) er) (w_db ?w1))))" for er
    by (rule quiet_RunInTx [OF sy]) (rule quiet_mark(3) [OF sy])
  have qc: "quiet_step txID (tables (w_db ?w1)) (tables (snd (RunInTx ops (mark_compensated ops txID (Name step)) (w_db ?w1))))"
    by (rule quiet_RunInTx [OF sy]) (rule quiet_mark(2) [OF sy])
  let ?w3 = "snd (on_db (RunInTx ops (mark_compensated ops txID (Name step))) w2)"
  have "quiet_step txID (tables (w_db ?w3)) (tables (w_db (snd (cascade_loop ops txID sc rest ?w3))))"
    by (rule Cons.IH) (use quiet_step_synced [OF qc] db2 in simp)
  then show ?case
    using quiet_step_trans [OF q1 qf] quiet_step_trans [OF quiet_step_trans [OF q1 qc]] w2 db2
    by (auto simp: cascade_loop.simps Let_def split: sum.splits)
qed

lemma compensateCascade_safe:
  assumes e: "ex_Store e = ops" and st: "stored txID tx sg (tables (w_db w))" and nt: "\<not> Terminal (sg_State sg)"
  shows "safe_step txID (tables (w_db w)) (tables (w_db (snd (compensateCascade rt e txID failed w))))"
proof (cases "index_of_step failed (ex_Steps e)")
  case None
  then show ?thesis using st
    by (auto simp: compensateCascade_def e LoadSagaState LoadTx mem_LoadSagaState_def mem_LoadTx_def
        stored_def Let_def intro: safe_step_refl)
next
  case (Some i)
  let ?sc = "\<lparr>sc_Tx = tx, sc_Saga = sg, sc_Attempt = 1, sc_Partners = ex_Clients e\<rparr>"
  obtain ce w1 where w1: "cascade_loop ops txID ?sc (rev (take (Suc i) (ex_Steps e))) w = (ce, w1)"
    by (metis surj_pair)
  obtain clk ids w2 where w2: "w_stamp rt w1 = ((clk, ids), w2)" by (metis surj_pair)
  have q: "quiet_step txID (tables (w_db w)) (tables (w_db w1))"
    using cascade_loop_quiet [OF stored_synced [OF st], of ?sc "rev (take (Suc i) (ex_Steps e))"] w1 by simp
  have db2: "w_db w2 = w_db w1" using w2 w_stamp_db(1) [of rt w1] by simp
  note st1 = stored_quiet [OF st q]
  let ?t = "if ce \<noteq> None then StateFailed else StateFailedCompensated"
  let ?p = "persist_compensation ops txID tx sg ?t clk ids"
  have "safe_step txID (tables (w_db w1)) (tables (snd (?p (w_db w1))))"
    by (rule safe_persist_compensation [OF st1]) (use nt in auto)
  then have "safe_step txID (tables (w_db w1)) (tables (snd (RunInTx ops ?p (w_db w1))))"
    using RunInTx_tables [of ?p "w_db w1"] safe_step_refl [OF stored_synced [OF st1]] by auto
  then show ?thesis
    using safe_step_trans [OF quiet_step_safe [OF q]] st Some db2
    by (simp add: compensateCascade_def e LoadSagaState LoadTx mem_LoadSagaState_def mem_LoadTx_def
        stored_def Let_def w1 w2)
qed

end

section \<open>Confirmation and \<open>Run\<close>\<close>

context store_contract
begin

lemma persistConfirmedInline_safe:
  assumes st: "stored txID tx sg (tables (w_db w))"
  shows "safe_step txID (tables (w_db w)) (tables (w_db (snd (persistConfirmedInline rt ops txID sg w))))"
proof -
  obtain clk ids w1 where w1: "w_stamp rt w = ((clk, ids), w1)" by (metis surj_pair)
  then have db: "w_db w1 = w_db w" using w_stamp_db(1) [of rt w] by simp
  let ?p = "persist_confirmed ops txID tx sg clk ids"
  have "guarded txID (tables (w_db w)) (isl (fst (RunInTx ops ?p (w_db w)))) (tables (snd (RunInTx ops ?p (w_db w))))"
    by (rule guarded_RunInTx [OF stored_synced [OF st]]) (rule guarded_persist_confirmed [OF st])
  then show ?thesis using st w1 db
    by (auto simp: persistConfirmedInline_def LoadTx mem_LoadTx_def stored_def dest: guarded_safe)
qed

lemma poll_loop_safe:
  assumes "stored txID tx sg (tables (w_db w))"
  shows "safe_step txID (tables (w_db w)) (tables (w_db (snd (poll_loop n rt ops bc txID h sg w))))"
  using assms
proof (induction n arbitrary: w)
  case 0
  then show ?case by (simp add: poll_loop.simps safe_step_refl stored_synced)
next
  case (Suc n)
  obtain r w1 where w1: "on_net (rpc (Status bc h)) w = (r, w1)" by (metis surj_pair)
  then have db1: "w_db w1 = w_db w" by (metis on_net_db(1) snd_conv)
  obtain c w2 where w2: "w_wait rt w1 = (c, w2)" by (metis surj_pair)
  then have db2: "w_db w2 = w_db w" using db1 by (simp add: w_wait_fst)
  have ih: "safe_step txID (tables (w_db w)) (tables (w_db (snd (poll_loop n rt ops bc txID h sg w2))))"
    using Suc.IH [of w2] Suc.prems db2 by simp
  have pc: "safe_step txID (tables (w_db w)) (tables (w_db (snd (persistConfirmedInline rt ops txID sg w1))))"
    using persistConfirmedInline_safe [of txID tx sg w1] Suc.prems db1 by simp
  show ?case
    using ih pc safe_step_refl [OF stored_synced [OF Suc.prems]]
    by (auto simp: poll_loop.simps w1 w2 db2 split: sum.splits prod.splits option.splits)
qed

lemma synced_stored: "synced txID T \<Longrightarrow> \<exists>tx sg. stored txID tx sg T"
  by (auto simp: stored_def synced_def)

lemma advanceToConfirmed_safe:
  assumes "ex_Store e = ops" and "synced txID (tables (w_db w))"
  shows "safe_step txID (tables (w_db w)) (tables (w_db (snd (advanceToConfirmed n rt e txID w))))"
proof -
  from synced_stored [OF assms(2)] obtain tx sg where st: "stored txID tx sg (tables (w_db w))" by blast
  then have "op_LoadSagaState ops txID (w_db w) = Inr sg"
    by (simp add: LoadSagaState mem_LoadSagaState_def stored_def)
  then show ?thesis using poll_loop_safe [OF st] safe_step_refl [OF assms(2)]
    by (auto simp: advanceToConfirmed_def assms(1) Let_def split: option.splits)
qed

lemma after_step_safe:
  assumes "ex_Store e = ops" and "synced txID (tables (w_db w))"
  shows "safe_step txID (tables (w_db w)) (tables (w_db (snd (after_step rt e n txID w))))"
  using advanceToConfirmed_safe [OF assms, of n rt] safe_step_refl [OF assms(2)]
  by (auto simp: after_step_def Let_def split: prod.splits outcome.splits)

lemma run_turn_safe:
  assumes e: "ex_Store e = ops" and sy: "synced txID (tables (w_db w))"
  shows "safe_step txID (tables (w_db w)) (tables (w_db (snd (run_turn rt e n txID owner w))))"
proof -
  from synced_stored [OF sy] obtain tx sg where st: "stored txID tx sg (tables (w_db w))" by blast
  then have load: "op_LoadSagaState ops txID (w_db w) = Inr sg" "op_LoadTx ops txID (w_db w) = Inr tx"
    by (simp_all add: LoadSagaState mem_LoadSagaState_def LoadTx mem_LoadTx_def stored_def)
  have retry: "safe_step txID (tables (w_db w)) (tables (w_db w1)) \<and>
      (\<not> returned_ok r \<longrightarrow> stored txID tx sg (tables (w_db w1)))"
    if "runStepWithRetry rt e step \<lparr>sc_Tx = tx, sc_Saga = sg, sc_Attempt = 1, sc_Partners = ex_Clients e\<rparr>
          (w\<lparr>w_leases := l\<rparr>) = (r, w1)" for step l r w1
    using retry_loop_guarded [OF e _ that [unfolded runStepWithRetry_def], of txID] st
      guarded_safe stored_quiet [OF st] by (auto simp: guarded_def)
  have stuck: "safe_step txID (tables (w_db w)) (tables (w_db (snd (run_turn rt e n txID owner w))))"
    if "\<not> Terminal (sg_State sg)" "StepByName e (sg_CurrentStep sg) = Some step"
      "Acquire (ex_Lease e) txID owner
             (wrap64 (cfg_StepTimeout (ex_Cfg e) (step_string (Name step)) + 5 * second)) (w_leases w) = (Inr True, l)"
      for step l
  proof -
    let ?sc = "\<lparr>sc_Tx = tx, sc_Saga = sg, sc_Attempt = 1, sc_Partners = ex_Clients e\<rparr>"
    obtain r w1 where w1: "runStepWithRetry rt e step ?sc (w\<lparr>w_leases := l\<rparr>) = (r, w1)" by (metis surj_pair)
    let ?w2 = "w1\<lparr>w_leases := Release (ex_Lease e) txID owner (w_leases w1)\<rparr>"
    have s1: "safe_step txID (tables (w_db w)) (tables (w_db ?w2))"
      and s2: "\<not> returned_ok r \<Longrightarrow> stored txID tx sg (tables (w_db ?w2))" using retry [OF w1] by auto
    have a: "safe_step txID (tables (w_db w)) (tables (w_db (snd (after_step rt e n txID ?w2))))"
      using safe_step_trans [OF s1 after_step_safe [OF e safe_step_synced [OF s1]]] .
    have c: "safe_step txID (tables (w_db w)) (tables (w_db (snd (compensateCascade rt e txID (Name step) ?w2))))"
      if "\<not> returned_ok r"
      using safe_step_trans [OF s1 compensateCascade_safe [OF e s2 [OF that] \<open>\<not> Terminal (sg_State sg)\<close>]] .
    show ?thesis using that load s1 a c w1
      by (auto simp: run_turn_def e Let_def returned_ok_def split: outcome.splits option.splits prod.splits)
  qed
  have idle: "safe_step txID (tables (w_db w)) (tables (w_db (snd (run_turn rt e n txID owner w))))"
    if "\<not> Terminal (sg_State sg)" "StepByName e (sg_CurrentStep sg) = Some step"
      "Acquire (ex_Lease e) txID owner
             (wrap64 (cfg_StepTimeout (ex_Cfg e) (step_string (Name step)) + 5 * second)) (w_leases w) = (a, l)"
      "a \<noteq> Inr True" for step a l
  proof -
    obtain c w1 where w1: "w_wait rt (w\<lparr>w_leases := l\<rparr>) = (c, w1)" by (metis surj_pair)
    with w_wait_fst [OF this] show ?thesis using that load safe_step_refl [OF sy]
      by (cases a) (auto simp: run_turn_def e Let_def split: option.splits)
  qed
  have over: "safe_step txID (tables (w_db w)) (tables (w_db (snd (run_turn rt e n txID owner w))))"
    if "Terminal (sg_State sg) \<or> StepByName e (sg_CurrentStep sg) = None"
    using that load safe_step_refl [OF sy] by (auto simp: run_turn_def e Let_def)
  show ?thesis
  proof (cases "Terminal (sg_State sg) \<or> StepByName e (sg_CurrentStep sg) = None")
    case True
    then show ?thesis by (rule over)
  next
    case False
    then obtain step where step: "\<not> Terminal (sg_State sg)" "StepByName e (sg_CurrentStep sg) = Some step"
      by auto
    obtain a l where acq: "Acquire (ex_Lease e) txID owner
             (wrap64 (cfg_StepTimeout (ex_Cfg e) (step_string (Name step)) + 5 * second)) (w_leases w) = (a, l)"
      by (metis surj_pair)
    show ?thesis
      using stuck [OF step, of l] idle [OF step acq] acq by (cases "a = Inr True") simp_all
  qed
qed

theorem Run_safe:
  assumes e: "ex_Store e = ops" and "synced txID (tables (w_db w))"
  shows "safe_step txID (tables (w_db w)) (tables (w_db (snd (Run rt e pf txID owner n w))))"
  using assms(2)
proof (induction n arbitrary: w)
  case 0
  then show ?case by (simp add: Run.simps safe_step_refl)
next
  case (Suc n)
  obtain t w1 where t: "run_turn rt e pf txID owner w = (t, w1)" by (metis surj_pair)
  have s: "safe_step txID (tables (w_db w)) (tables (w_db w1))"
    using run_turn_safe [OF e Suc.prems, of rt pf owner] t by simp
  from safe_step_trans [OF s Suc.IH [OF safe_step_synced [OF s]]] s show ?case
    by (simp add: Run.simps t split: turn.splits)
qed

end

end
