(* ===== verification/Executor_Progress.thy ===== *)
theory Executor_Progress
  imports Executor_Safety
begin

text \<open>
  What the executor achieves: on a store that commits, with the six registered steps and a
  lease that is granted, \<open>Run\<close> returns after at most one turn per step and one more, with the
  saga in a terminal state, whatever the partner services answer.
\<close>

section \<open>Rows of an attempt\<close>

text \<open>\<open>row_at\<close> is the row of an attempt; only the named attempt's row may differ.\<close>

definition row_at :: "string \<Rightarrow> Step \<Rightarrow> int \<Rightarrow> mem_store \<Rightarrow> StepRow option" where
  "row_at txID st k T = find_row st k (ms_steps T txID)"

definition only_row :: "string \<Rightarrow> Step \<Rightarrow> int \<Rightarrow> mem_store \<Rightarrow> mem_store \<Rightarrow> bool" where
  "only_row txID st k T T' \<longleftrightarrow>
     (\<forall>st' k'. (st', k') \<noteq> (st, k) \<longrightarrow> row_at txID st' k' T' = row_at txID st' k' T)"

lemma only_row_refl [simp, intro]: "only_row txID st k T T"
  by (simp add: only_row_def)

lemma only_row_trans: "only_row txID st k A B \<Longrightarrow> only_row txID st k B C \<Longrightarrow> only_row txID st k A C"
  by (simp add: only_row_def)

lemma only_row_same_steps: "ms_steps T' = ms_steps T \<Longrightarrow> only_row txID st k T T'"
  by (simp add: only_row_def row_at_def)

lemma row_at_same_steps: "ms_steps T' = ms_steps T \<Longrightarrow> row_at txID st k T' = row_at txID st k T"
  by (simp add: row_at_def)

lemma mem_LoadStep_row_at:
  "mem_LoadStep txID st k T = (case row_at txID st k T of None \<Rightarrow> Inl (Sentinel ErrNotFound) | Some r \<Rightarrow> Inr r)"
  by (simp add: mem_LoadStep_def row_at_def)

text \<open>The first row found is the row of the step and attempt asked for.\<close>

lemma row_at_Some: "row_at txID st k T = Some r \<Longrightarrow> row_StepName r = st \<and> row_Attempt r = k"
  by (auto simp: row_at_def row_is_def dest: find_row_Some)

context store_contract
begin

lemma row_at_UpdateStep:
  "row_at txID st k (tables (snd (op_UpdateStep ops row s))) =
     (if txID = row_TxID row \<and> st = row_StepName row \<and> k = row_Attempt row
      then map_option (\<lambda>old. keep_row old row) (row_at txID st k (tables s))
      else row_at txID st k (tables s))"
  by (auto simp: UpdateStep(1) row_at_def tab_update_def find_tab_rows row_is_def keeps_columns split: option.splits)

lemma UpdateStep_ok:
  "isl (fst (op_UpdateStep ops row s)) \<longleftrightarrow> row_at (row_TxID row) (row_StepName row) (row_Attempt row) (tables s) = None"
  by (simp add: UpdateStep(2) row_at_def mem_UpdateStep_def split: option.splits)

lemma InsertStep_ok:
  "isl (fst (op_InsertStep ops u row s)) \<longleftrightarrow> row_at (row_TxID row) (row_StepName row) (row_Attempt row) (tables s) \<noteq> None"
  by (simp add: InsertStep(2) row_at_def mem_InsertStep_def split: option.splits)

lemma row_at_InsertStep:
  "row_at txID st k (tables (snd (op_InsertStep ops u row s))) =
     (if txID = row_TxID row \<and> st = row_StepName row \<and> k = row_Attempt row \<and> row_at txID st k (tables s) = None
      then Some (with_row_id u row) else row_at txID st k (tables s))"
  by (auto simp: InsertStep(1) row_at_def mem_InsertStep_def find_row_append row_is_def with_row_id_def
      split: option.splits)

lemma only_row_UpdateStep:
  "row_StepName row = st \<Longrightarrow> row_Attempt row = k \<Longrightarrow>
   only_row txID st k (tables s) (tables (snd (op_UpdateStep ops row s)))"
  by (auto simp: only_row_def row_at_UpdateStep)

lemma only_row_InsertStep:
  "row_StepName row = st \<Longrightarrow> row_Attempt row = k \<Longrightarrow>
   only_row txID st k (tables s) (tables (snd (op_InsertStep ops u row s)))"
  by (auto simp: only_row_def row_at_InsertStep)

lemma only_row_RunInTx:
  "only_row txID st k (tables s) (tables (snd (fn s))) \<Longrightarrow>
   only_row txID st k (tables s) (tables (snd (RunInTx ops fn s)))"
  using RunInTx_tables [of fn s] by auto

lemma only_row_begin_attempt:
  "only_row txID st k (tables s) (tables (snd (begin_attempt ops txID st k now u s)))"
  using only_row_UpdateStep [of "running_row txID st k now" st k txID s]
    only_row_InsertStep [of "running_row txID st k now" st k txID s u]
  by (auto simp: begin_attempt_def running_row_def zero_row_def thenE_def bindE_def okE_def
      split: sum.splits prod.splits)

text \<open>Opening an attempt whose row has not succeeded succeeds and leaves its row running.\<close>

lemma begin_attempt_fresh:
  assumes "\<And>r. row_at txID st k (tables s) = Some r \<Longrightarrow> row_Status r \<noteq> StepSucceeded"
  obtains s' r where "begin_attempt ops txID st k now u s = (Inr False, s')"
    "row_at txID st k (tables s') = Some r" "row_Status r = StepRunning"
proof -
  let ?row = "running_row txID st k now"
  have f: "row_TxID ?row = txID" "row_StepName ?row = st" "row_Attempt ?row = k" "row_Status ?row = StepRunning"
    by (simp_all add: running_row_def)
  show thesis
  proof (cases "row_at txID st k (tables s)")
    case None
    obtain r s' where i: "op_InsertStep ops u ?row s = (r, s')" by (metis surj_pair)
    then obtain x where "r = Inr x" using InsertStep_ok [of u ?row s] f None by (cases r) auto
    then show thesis
      using that [of s' "with_row_id u ?row"] i None f row_at_InsertStep [of txID st k u ?row s]
      by (simp add: begin_attempt_def LoadStep mem_LoadStep_row_at go_monad_defs with_row_id_def split: if_splits)
  next
    case (Some old)
    obtain r s' where i: "op_UpdateStep ops ?row s = (r, s')" by (metis surj_pair)
    then obtain x where "r = Inr x" using UpdateStep_ok [of ?row s] f Some by (cases r) auto
    then show thesis
      using that [of s' "keep_row old ?row"] i Some f row_at_UpdateStep [of txID st k ?row s] assms
      by (simp add: begin_attempt_def LoadStep mem_LoadStep_row_at go_monad_defs keeps_columns)
  qed
qed

end



section \<open>An attempt that returns no error moves the saga on\<close>

text \<open>The saga is terminal, or it is in the state of \<open>st\<close> with the step after \<open>st\<close> current.\<close>

definition advanced_past :: "string \<Rightarrow> Step \<Rightarrow> mem_store \<Rightarrow> bool" where
  "advanced_past txID st T \<longleftrightarrow>
     (\<exists>sg. ms_sagas T txID = Some sg \<and>
        (Terminal (sg_State sg) \<or>
         StepAfter st = Some (sg_CurrentStep sg) \<and> StateForStep st = Some (sg_State sg)))"

lemma StateForStep_last: "StepAfter st = None \<Longrightarrow> StateForStep st = Some x \<Longrightarrow> x = StateLedgered"
  by (cases st) (simp_all add: StateForStep_def)

lemma moved_advanced_past:
  assumes "moved txID tx (advanced_saga sg st res) T T'"
    and "\<not> res_Terminal res" and "StateForStep st = Some (res_State res)"
  shows "advanced_past txID st T'"
  using assms StateForStep_last [of st "res_State res"]
  by (cases "StepAfter st") (auto simp: moved_def advanced_past_def advanced_saga_def Let_def)

lemma moved_terminal:
  "moved txID tx new T T' \<Longrightarrow> Terminal (sg_State new) \<Longrightarrow> advanced_past txID st T'"
  by (auto simp: moved_def advanced_past_def)

lemma moved_steps: "moved txID tx new T T' \<Longrightarrow> ms_steps T' = ms_steps T"
  by (simp add: moved_def)

lemma finished_row_simps [simp]:
  "row_StepName (finished_row txID st stat k fin er) = st" "row_Attempt (finished_row txID st stat k fin er) = k"
  "row_Status (finished_row txID st stat k fin er) = stat"
  by (simp_all add: finished_row_def)

context store_contract
begin

lemma checked_move:
  assumes "stored txID tx sg (tables s)" and "sg_TxID new = txID" "sg_Version new = sg_Version sg + 1"
    and "ev_TxID ev = txID"
  shows "(case c of None \<Rightarrow> move_strict ops new now txID (tx_Version tx) ids ev | Some x \<Rightarrow> errE (h x)) s = (r, s') \<Longrightarrow>
      (if c = None then r = Inr () \<and> moved txID tx new (tables s) (tables s') else isl r \<and> s' = s)"
    and "(case c of None \<Rightarrow> move_lax ops new now txID (tx_Version tx) ids ev | Some x \<Rightarrow> errE (h x)) s = (r, s') \<Longrightarrow>
      (if c = None then r = Inr () \<and> moved txID tx new (tables s) (tables s') else isl r \<and> s' = s)"
  using move_moved [of s txID tx sg new "tx_Version tx" ev now ids] assms
  by (auto simp: stored_def errE_def split: option.splits)

lemma stored_UpdateStep:
  "stored txID tx sg (tables s) \<Longrightarrow> row_TxID row = txID \<Longrightarrow> stored txID tx sg (tables (snd (op_UpdateStep ops row s)))"
  using stored_quiet quiet_update stored_synced by blast

lemma persist_success_progress:
  assumes st: "stored txID (sc_Tx sc) (sc_Saga sc) (tables s)"
    and ps: "persist_success ops step sc res fin now ids s = (r, s')"
  shows "only_row txID step (sc_Attempt sc) (tables s) (tables s')"
    and "\<not> isl r \<Longrightarrow> \<not> res_Terminal res \<Longrightarrow> StateForStep step = Some (res_State res) \<Longrightarrow> advanced_past txID step (tables s')"
proof -
  note f = stored_facts [OF st]
  let ?row = "finished_row txID step StepSucceeded (sc_Attempt sc) fin ''''"
  let ?new = "advanced_saga (sc_Saga sc) step res"
  obtain u s1 where u: "op_UpdateStep ops ?row s = (u, s1)" by (metis surj_pair)
  have o: "only_row txID step (sc_Attempt sc) (tables s) (tables s1)"
    using only_row_UpdateStep [of ?row step "sc_Attempt sc" txID s] u by simp
  have st1: "stored txID (sc_Tx sc) (sc_Saga sc) (tables s1)"
    using stored_UpdateStep [OF st, of ?row] u by simp
  let ?c = "validatePath (sg_State (sc_Saga sc)) (res_State res) (sg_State ?new)"
  note body = ps [unfolded persist_success_def Let_def f(1), folded move_strict_def, unfolded thenE_def bindE_def u prod.case]
  have "isl r \<and> s' = s1 \<or> r = Inr () \<and> moved txID (sc_Tx sc) ?new (tables s1) (tables s')"
  proof (cases u)
    case (Inl er)
    then show ?thesis using body by auto
  next
    case (Inr v)
    have "if ?c = None then r = Inr () \<and> moved txID (sc_Tx sc) ?new (tables s1) (tables s') else isl r \<and> s' = s1"
      by (rule checked_move(1) [OF st1 _ _ _ body [unfolded Inr sum.case]]) (simp_all add: f)
    then show ?thesis by (auto split: if_splits)
  qed
  then show "only_row txID step (sc_Attempt sc) (tables s) (tables s')"
    and "\<not> isl r \<Longrightarrow> \<not> res_Terminal res \<Longrightarrow> StateForStep step = Some (res_State res) \<Longrightarrow> advanced_past txID step (tables s')"
    using o by (auto dest: moved_steps moved_advanced_past intro: only_row_trans only_row_same_steps split: if_splits)
qed

end

context committing_store
begin

lemma RunInTx_body: "\<not> isl (fst (fn s)) \<Longrightarrow> RunInTx ops fn s = fn s"
  by (cases "fn s"; cases "fst (fn s)") (auto simp: RunInTx_commits)

lemma lax_move_progress:
  assumes st: "stored txID tx sg (tables s)" and new: "sg_TxID new = txID" "sg_Version new = sg_Version sg + 1"
    and ev: "ev_TxID ev = txID" and row: "row_TxID row = txID" "row_StepName row = step" "row_Attempt row = k"
    and run: "RunInTx ops (ignE (op_UpdateStep ops row)
        (case c of None \<Rightarrow> move_lax ops new now txID (tx_Version tx) ids ev | Some x \<Rightarrow> errE (h x))) s = (r, s')"
  shows "only_row txID step k (tables s) (tables s')"
    and "c = None \<Longrightarrow> \<exists>T. moved txID tx new T (tables s')"
proof -
  let ?m = "case c of None \<Rightarrow> move_lax ops new now txID (tx_Version tx) ids ev | Some x \<Rightarrow> errE (h x)"
  obtain u s1 where u: "op_UpdateStep ops row s = (u, s1)" by (metis surj_pair)
  have o: "only_row txID step k (tables s) (tables s1)"
    using only_row_UpdateStep [of row step k txID s] u row by simp
  have st1: "stored txID tx sg (tables s1)" using stored_UpdateStep [OF st row(1)] u by simp
  obtain r1 s2 where b: "?m s1 = (r1, s2)" by (metis surj_pair)
  note move = checked_move(2) [OF st1 new ev b]
  have ign: "ignE (op_UpdateStep ops row) ?m s = (r1, s2)" by (simp add: ignE_def u b)
  have "only_row txID step k (tables s) (tables (snd (ignE (op_UpdateStep ops row) ?m s)))"
    using move o ign by (auto dest: moved_steps intro: only_row_trans only_row_same_steps split: if_splits)
  from only_row_RunInTx [where fn = "ignE (op_UpdateStep ops row) ?m", OF this] run show "only_row txID step k (tables s) (tables s')" by simp
  show "c = None \<Longrightarrow> \<exists>T. moved txID tx new T (tables s')"
    using move RunInTx_body [of "ignE (op_UpdateStep ops row) ?m" s] ign run by auto
qed

lemma persistTerminal_progress:
  assumes st: "stored txID (sc_Tx sc) (sc_Saga sc) (tables s)"
    and pt: "persistTerminal ops step sc res fin now ids s = (r, s')"
  shows "only_row txID step (sc_Attempt sc) (tables s) (tables s')"
    and "IsFailure (res_State res) \<Longrightarrow> \<not> Terminal (sg_State (sc_Saga sc)) \<Longrightarrow> advanced_past txID step (tables s')"
proof -
  note f = stored_facts [OF st]
  let ?new = "terminal_saga (sc_Saga sc) res"
  have new: "sg_TxID ?new = txID" "sg_Version ?new = sg_Version (sc_Saga sc) + 1" "sg_State ?new = res_State res"
    by (simp_all add: terminal_saga_def f)
  note lax = lax_move_progress [OF st new(1,2) event_tx(1) finished_row_tx finished_row_simps(1,2)
      pt [unfolded persistTerminal_def Let_def f(1), folded move_lax_def]]
  show "only_row txID step (sc_Attempt sc) (tables s) (tables s')" by (rule lax(1))
  show "IsFailure (res_State res) \<Longrightarrow> \<not> Terminal (sg_State (sc_Saga sc)) \<Longrightarrow> advanced_past txID step (tables s')"
    using lax(2) new(3) by (auto simp: Transition_ok_iff IsFailure_def dest!: moved_terminal)
qed

lemma runStepOnce_progress:
  assumes e: "ex_Store e = ops" and st: "stored txID (sc_Tx sc) (sc_Saga sc) (tables (w_db w))"
    and nt: "\<not> Terminal (sg_State (sc_Saga sc))" and contract: "step_contract step"
    and fresh: "\<And>r. row_at txID (Name step) (sc_Attempt sc) (tables (w_db w)) = Some r \<Longrightarrow> row_Status r \<noteq> StepSucceeded"
    and run: "runStepOnce rt e step sc w = (r, w')"
  shows "only_row txID (Name step) (sc_Attempt sc) (tables (w_db w)) (tables (w_db w'))"
    and "\<not> isl r \<Longrightarrow> advanced_past txID (Name step) (tables (w_db w'))"
proof -
  obtain clk ids w1 where w1: "w_stamp rt w = ((clk, ids), w1)" by (metis surj_pair)
  then have db1: "w_db w1 = w_db w" using w_stamp_db(1) [of rt w] by simp
  obtain s2 row where s2: "begin_attempt ops txID (Name step) (sc_Attempt sc) (clk 0) (ids 0) (w_db w) = (Inr False, s2)"
    using begin_attempt_fresh [OF fresh] by metis
  let ?w2 = "w1\<lparr>w_db := s2\<rparr>"
  obtain res err w3 where w3: "on_net (Execute step sc) ?w2 = ((res, err), w3)" by (metis surj_pair)
  obtain clk' ids' w4 where w4: "w_stamp rt w3 = ((clk', ids'), w4)" by (metis surj_pair)
  have db4: "w_db w4 = s2" using w_stamp_db(1) [of rt w3] on_net_db(1) [of "Execute step sc" ?w2] w3 w4 by simp
  have ex: "Execute step sc (w_net ?w2) = ((res, err), w_net w3)"
    using w3 on_net_db(3,4) [of "Execute step sc" ?w2] by (metis fst_conv prod.collapse snd_conv)
  have o2: "only_row txID (Name step) (sc_Attempt sc) (tables (w_db w)) (tables s2)"
    using only_row_begin_attempt [of txID "Name step" "sc_Attempt sc" "w_db w" "clk 0" "ids 0"] s2 by simp
  have st2: "stored txID (sc_Tx sc) (sc_Saga sc) (tables s2)"
    using stored_quiet [OF st quiet_begin_attempt [OF stored_synced [OF st]], of "Name step" "sc_Attempt sc" "clk 0" "ids 0"] s2
    by simp
  let ?upd = "\<lambda>m. op_UpdateStep ops (finished_row txID (Name step) StepFailed (sc_Attempt sc) (clk' 0) m)"
  obtain r5 s5 where ps: "persist_success ops (Name step) sc res (clk' 0) (clk' 1) ids' s2 = (r5, s5)" by (metis surj_pair)
  obtain r6 s6 where pt: "persistTerminal ops (Name step) sc res (clk' 0) (clk' 1) ids' s2 = (r6, s6)" by (metis surj_pair)
  note p5 = persist_success_progress [OF st2 ps]
  note p6 = persistTerminal_progress [OF st2 pt]
  let ?ps = "RunInTx ops (persist_success ops (Name step) sc res (clk' 0) (clk' 1) ids')"
  have o5: "only_row txID (Name step) (sc_Attempt sc) (tables s2) (tables (snd (?ps s2)))"
    by (rule only_row_RunInTx) (simp add: p5(1) ps [simplified])
  have a5: "advanced_past txID (Name step) (tables (snd (?ps s2)))" if "\<not> isl (fst (?ps s2))" "err = None"
    using that p5(2) ps ex step_contract.success [OF contract, of sc _ res]
      RunInTx_success [of "persist_success ops (Name step) sc res (clk' 0) (clk' 1) ids'" s2]
    by (cases "?ps s2"; cases "fst (?ps s2)") auto
  have o7: "only_row txID (Name step) (sc_Attempt sc) (tables s2) (tables (snd (RunInTx ops (?upd m) s2)))" for m
    by (rule only_row_RunInTx, rule only_row_UpdateStep) simp_all
  have a6: "advanced_past txID (Name step) (tables s6)" if "err = Some er" "res_Terminal res" for er
    using p6(2) step_contract.terminal [OF contract, of sc _ res er] ex that nt by blast
  have r: "(r, w') = (case err of None \<Rightarrow> on_db ?ps w4
       | Some er \<Rightarrow> if res_Terminal res then (Inr (), snd (on_db (\<lambda>_. (r6, s6)) w4))
           else (Inl er, audit rt e sc (step_string (Name step)) (state_string (sg_State (sc_Saga sc)))
              (state_string (res_State res)) (Some er) (snd (on_db (RunInTx ops (?upd (error_text er))) w4))))"
    using run stored_facts(1) [OF st] s2 pt
    by (cases err) (auto simp: runStepOnce_def e w1 w3 w4 db1 db4 Let_def on_db_def RunInTx_body)
  have "only_row txID (Name step) (sc_Attempt sc) (tables s2) (tables (w_db (snd (r, w'))))"
    unfolding r using o5 o7 p6(1) by (cases err) (auto simp: db4)
  then show "only_row txID (Name step) (sc_Attempt sc) (tables (w_db w)) (tables (w_db w'))"
    using o2 by (auto intro: only_row_trans)
  have "\<not> isl (fst (r, w')) \<longrightarrow> advanced_past txID (Name step) (tables (w_db (snd (r, w'))))"
    unfolding r using a5 a6 by (cases err) (auto simp: db4)
  then show "\<not> isl r \<Longrightarrow> advanced_past txID (Name step) (tables (w_db w'))" by simp
qed

end

section \<open>Retries, confirmation and compensation\<close>

text \<open>Backoffs of one nanosecond, for which \<open>rand.Int63n\<close> panics, are excluded.\<close>

definition sane_backoff :: "Config \<Rightarrow> bool" where
  "sane_backoff cfg \<longleftrightarrow> cfg_BaseBackoff cfg \<noteq> 1 \<and> cfg_MaxBackoff cfg \<noteq> 1"

lemma backoff_sane:
  assumes "sane_backoff cfg"
  shows "backoff cfg k rnd \<noteq> None"
proof -
  let ?b = "if cfg_BaseBackoff cfg \<le> 0 then 200 * millisecond else cfg_BaseBackoff cfg"
  have "2 \<le> ?b" using assms by (auto simp: sane_backoff_def)
  moreover have "(1 :: int) \<le> 2 ^ nat (k - 1)" by simp
  ultimately have "2 \<le> ?b * 2 ^ nat (k - 1)" by (metis mult_mono' mult.right_neutral zero_le_numeral zero_le_one)
  then show ?thesis using assms by (auto simp: backoff_def Let_def sane_backoff_def)
qed

text \<open>No attempt from \<open>k\<close> on of the step has succeeded.\<close>

definition unsucceeded :: "string \<Rightarrow> Step \<Rightarrow> int \<Rightarrow> mem_store \<Rightarrow> bool" where
  "unsucceeded txID st k T \<longleftrightarrow>
     (\<forall>k' r. k \<le> k' \<longrightarrow> row_at txID st k' T = Some r \<longrightarrow> row_Status r \<noteq> StepSucceeded)"

lemma unsucceededD: "unsucceeded txID st k T \<Longrightarrow> row_at txID st k T = Some r \<Longrightarrow> row_Status r \<noteq> StepSucceeded"
  unfolding unsucceeded_def by blast

text \<open>The rows of the other steps are as before.\<close>

definition other_steps :: "string \<Rightarrow> Step \<Rightarrow> mem_store \<Rightarrow> mem_store \<Rightarrow> bool" where
  "other_steps txID st T T' \<longleftrightarrow> (\<forall>st' k. st' \<noteq> st \<longrightarrow> row_at txID st' k T' = row_at txID st' k T)"

lemma other_steps_only_row: "only_row txID st k T T' \<Longrightarrow> other_steps txID st T T'"
  by (simp add: other_steps_def only_row_def)

lemma other_steps_trans: "other_steps txID st A B \<Longrightarrow> other_steps txID st B C \<Longrightarrow> other_steps txID st A C"
  by (simp add: other_steps_def)

lemma unsucceeded_next:
  assumes "only_row txID st k T T'" and "unsucceeded txID st k T"
  shows "unsucceeded txID st (k + 1) T'"
  unfolding unsucceeded_def
proof (intro allI impI)
  fix k' r
  assume k': "k + 1 \<le> k'" and r: "row_at txID st k' T' = Some r"
  then have "row_at txID st k' T = Some r" using assms(1) by (simp add: only_row_def)
  then show "row_Status r \<noteq> StepSucceeded" using assms(2) k' unfolding unsucceeded_def
    by (meson add_increasing2 order_trans zle_add1_eq_le zless_add1_eq order_less_imp_le)
qed

lemma unsucceeded_other: "other_steps txID st T T' \<Longrightarrow> st' \<noteq> st \<Longrightarrow> unsucceeded txID st' k T \<Longrightarrow> unsucceeded txID st' k T'"
  by (simp add: other_steps_def unsucceeded_def)

context committing_store
begin

lemma retry_loop_progress:
  assumes e: "ex_Store e = ops" and st: "stored txID (sc_Tx sc) (sc_Saga sc) (tables (w_db w))"
    and nt: "\<not> Terminal (sg_State (sc_Saga sc))" and contract: "step_contract step"
    and cfg: "sane_backoff (ex_Cfg e)" and fresh: "unsucceeded txID (Name step) k (tables (w_db w))"
    and run: "retry_loop n rt e step sc k le w = (r, w')"
  shows "(\<exists>x. r = Returned x) \<and> other_steps txID (Name step) (tables (w_db w)) (tables (w_db w')) \<and>
    (r = Returned None \<longrightarrow> advanced_past txID (Name step) (tables (w_db w')))"
  using st fresh run
proof (induction n arbitrary: k le w)
  case 0
  then show ?case by (auto simp: retry_loop.simps Let_def other_steps_def)
next
  case (Suc n)
  obtain r1 w1 where one: "runStepOnce rt e step (sc\<lparr>sc_Attempt := k\<rparr>) w = (r1, w1)" by (metis surj_pair)
  have open_row: "row_Status r \<noteq> StepSucceeded"
    if "row_at txID (Name step) (sc_Attempt (sc\<lparr>sc_Attempt := k\<rparr>)) (tables (w_db w)) = Some r" for r
    using that unsucceededD [OF Suc.prems(2)] by simp
  have prog: "only_row txID (Name step) k (tables (w_db w)) (tables (w_db w1))"
    "\<not> isl r1 \<Longrightarrow> advanced_past txID (Name step) (tables (w_db w1))"
    using runStepOnce_progress [OF e _ _ contract open_row one] Suc.prems(1) nt by simp_all
  show ?case
  proof (cases r1)
    case (Inr u)
    then show ?thesis using Suc.prems(3) one prog by (auto simp: retry_loop.simps dest: other_steps_only_row)
  next
    case (Inl er)
    have "quiet_step txID (tables (w_db w)) (tables (w_db w1))"
      using runStepOnce_guarded [OF e _ one, of txID] Suc.prems(1) Inl by (simp add: guarded_def)
    note st1 = stored_quiet [OF Suc.prems(1) this]
    note fr1 = unsucceeded_next [OF prog(1) Suc.prems(2)]
    note ot1 = other_steps_only_row [OF prog(1)]
    obtain c w2 where w2: "w_wait rt w1 = (c, w2)" by (metis surj_pair)
    then have db2: "w_db w2 = w_db w1" by (rule w_wait_fst)
    obtain d where d: "backoff (ex_Cfg e) k (rt_rand rt (net_tick (w_net w1))) = Some d"
      using backoff_sane [OF cfg] by blast
    show ?thesis
    proof (cases "IsNonRetriable (Some er) \<or> c \<noteq> None")
      case True
      then show ?thesis using Suc.prems(3) one Inl ot1 w2 db2 d
        by (auto simp: retry_loop.simps split: if_splits)
    next
      case False
      then have "retry_loop n rt e step sc (k + 1) (Some er) w2 = (r, w')"
        using Suc.prems(3) one Inl w2 d by (simp add: retry_loop.simps)
      from Suc.IH [OF _ _ this] st1 fr1 db2 ot1 show ?thesis by (auto intro: other_steps_trans)
    qed
  qed
qed

lemma persist_confirmed_moved:
  assumes st: "stored txID tx sg (tables s)"
    and pc: "persist_confirmed ops txID tx sg clk ids s = (r, s')"
  shows "s' = s \<or> moved txID tx (sg\<lparr>sg_State := StateConfirmed, sg_CurrentStep := StepLedger,
    sg_Version := sg_Version sg + 1\<rparr>) (tables s) (tables s')"
proof -
  note f = stored_facts [OF st]
  let ?new = "sg\<lparr>sg_State := StateConfirmed, sg_CurrentStep := StepLedger, sg_Version := sg_Version sg + 1\<rparr>"
  have "sg_State ?new = StateConfirmed" by simp
  note strict = move_strict_def [of ops ?new, unfolded this]
  have "if snd (Transition (sg_State sg) StateConfirmed) = None
      then r = Inr () \<and> moved txID tx ?new (tables s) (tables s') else isl r \<and> s' = s"
    by (rule checked_move(1) [OF st _ _ _ pc [unfolded persist_confirmed_def Let_def, folded strict]])
      (simp_all add: f)
  then show ?thesis by (auto split: if_splits)
qed

end

context committing_store
begin

text \<open>What a wait for the confirmation leaves: the step rows, and the saga as it was or confirmed.\<close>

lemma poll_loop_leaves:
  assumes "stored txID tx sg (tables (w_db w))" and "poll_loop n rt ops bc txID h sg w = (r, w')"
  shows "ms_steps (tables (w_db w')) = ms_steps (tables (w_db w)) \<and>
    (\<exists>sg'. ms_sagas (tables (w_db w')) txID = Some sg' \<and>
       (sg' = sg \<or> sg_State sg' = StateConfirmed \<and> sg_CurrentStep sg' = StepLedger))"
  using assms
proof (induction n arbitrary: w)
  case 0
  then show ?case by (auto simp: poll_loop.simps stored_def)
next
  case (Suc n)
  obtain sr w1 where w1: "on_net (rpc (Status bc h)) w = (sr, w1)" by (metis surj_pair)
  then have db1: "w_db w1 = w_db w" by (metis on_net_db(1) snd_conv)
  obtain c w2 where w2: "w_wait rt w1 = (c, w2)" by (metis surj_pair)
  then have db2: "w_db w2 = w_db w" using db1 by (simp add: w_wait_fst)
  obtain clk ids w3 where w3: "w_stamp rt w1 = ((clk, ids), w3)" by (metis surj_pair)
  then have db3: "w_db w3 = w_db w" using w_stamp_db(1) [of rt w1] db1 by simp
  let ?p = "persist_confirmed ops txID tx sg clk ids"
  have fin: "ms_steps (tables s') = ms_steps (tables (w_db w)) \<and>
      (\<exists>sg'. ms_sagas (tables s') txID = Some sg' \<and>
         (sg' = sg \<or> sg_State sg' = StateConfirmed \<and> sg_CurrentStep sg' = StepLedger))"
    if "tables s' \<in> {tables (w_db w), tables (snd (?p (w_db w)))}" for s'
    using that persist_confirmed_moved [OF Suc.prems(1), of clk ids] Suc.prems(1)
    by (cases "?p (w_db w)") (auto simp: moved_def stored_def)
  have pc: "persistConfirmedInline rt ops txID sg w1 = on_db (RunInTx ops ?p) w3"
    using Suc.prems(1) w3 db1 by (simp add: persistConfirmedInline_def LoadTx mem_LoadTx_def stored_def)
  show ?case
  proof (cases "case sr of Inl _ \<Rightarrow> False | Inr resp \<Rightarrow> bcs_Confirmed resp")
    case True
    then have "w' = snd (on_db (RunInTx ops ?p) w3)"
      using Suc.prems(2) by (auto simp: poll_loop.simps w1 pc split: prod.splits sum.splits)
    then have "w_db w' = snd (RunInTx ops ?p (w_db w))" using db3 by simp
    then show ?thesis using fin [of "w_db w'"] RunInTx_tables [of ?p "w_db w"] by simp
  next
    case False
    then show ?thesis
      using Suc.prems Suc.IH [of w2] db2 fin [of "w_db w"]
      by (auto simp: poll_loop.simps w1 w2 split: option.splits)
  qed
qed

lemma compensateCascade_terminal:
  assumes e: "ex_Store e = ops" and st: "stored txID tx sg (tables (w_db w))"
    and i: "index_of_step failed (ex_Steps e) = Some i"
    and run: "compensateCascade rt e txID failed w = (r, w')"
  shows "\<exists>sg'. ms_sagas (tables (w_db w')) txID = Some sg' \<and>
    sg_State sg' = (if r = None then StateFailedCompensated else StateFailed)"
proof -
  let ?sc = "\<lparr>sc_Tx = tx, sc_Saga = sg, sc_Attempt = 1, sc_Partners = ex_Clients e\<rparr>"
  obtain ce w1 where w1: "cascade_loop ops txID ?sc (rev (take (Suc i) (ex_Steps e))) w = (ce, w1)"
    by (metis surj_pair)
  obtain clk ids w2 where w2: "w_stamp rt w1 = ((clk, ids), w2)" by (metis surj_pair)
  then have db2: "w_db w2 = w_db w1" using w_stamp_db(1) [of rt w1] by simp
  have "quiet_step txID (tables (w_db w)) (tables (w_db w1))"
    using cascade_loop_quiet [OF stored_synced [OF st], of ?sc "rev (take (Suc i) (ex_Steps e))"] w1 by simp
  note st1 = stored_quiet [OF st this]
  let ?t = "if ce \<noteq> None then StateFailed else StateFailedCompensated"
  let ?new = "sg\<lparr>sg_Version := sg_Version sg + 1, sg_State := ?t\<rparr>"
  let ?p = "persist_compensation ops txID tx sg ?t clk ids"
  have "sg_State ?new = ?t" by simp
  note lax = move_lax_def [of ops ?new, unfolded this]
  have "\<exists>s'. ?p (w_db w1) = (Inr (), s') \<and> moved txID tx ?new (tables (w_db w1)) (tables s')"
    unfolding persist_compensation_def Let_def lax [symmetric]
    by (rule move_moved(2) [where sg = sg]) (insert st1 stored_facts [OF st], simp_all add: stored_def)
  then obtain s' where s': "?p (w_db w1) = (Inr (), s')" "moved txID tx ?new (tables (w_db w1)) (tables s')"
    by blast
  have "r = ce" "w_db w' = s'"
    using run st i w1 w2 db2 s'(1) RunInTx_commits [of ?p "w_db w1"]
    by (auto simp: compensateCascade_def e LoadSagaState LoadTx mem_LoadSagaState_def mem_LoadTx_def
        stored_def Let_def on_db_def)
  with s'(2) show ?thesis by (auto simp: moved_def)
qed

end

section \<open>\<open>Run\<close> ends\<close>

definition steps_from :: "Step \<Rightarrow> Step list" where
  "steps_from st = dropWhile (\<lambda>x. x \<noteq> st) StepOrder"

lemma steps_from_after: "StepAfter st = Some nxt \<Longrightarrow> steps_from st = st # steps_from nxt"
  by (cases st) (auto simp: steps_from_def StepOrder_def)

lemma StepAfter_registered: "StepAfter st = Some nxt \<Longrightarrow> nxt \<in> set StepOrder"
  by (cases st) (auto simp: StepOrder_def)

lemma steps_from_distinct: "StepAfter st = Some nxt \<Longrightarrow> st \<notin> set (steps_from nxt)"
  by (cases st) (auto simp: steps_from_def StepOrder_def)

lemma steps_from_head: "st \<in> set StepOrder \<Longrightarrow> st \<in> set (steps_from st)"
  by (cases st) (auto simp: steps_from_def StepOrder_def)

text \<open>A saga that \<open>Run\<close> can finish: terminal, or at a registered step with no succeeded
  row for it or for a later one.\<close>

definition ready :: "string \<Rightarrow> mem_store \<Rightarrow> bool" where
  "ready txID T \<longleftrightarrow>
     (\<exists>tx sg. stored txID tx sg T \<and>
        (Terminal (sg_State sg) \<or>
         sg_CurrentStep sg \<in> set StepOrder \<and> (\<forall>st \<in> set (steps_from (sg_CurrentStep sg)). unsucceeded txID st 1 T)))"

definition steps_left :: "string \<Rightarrow> mem_store \<Rightarrow> nat" where
  "steps_left txID T = (case ms_sagas T txID of None \<Rightarrow> 0
     | Some sg \<Rightarrow> if Terminal (sg_State sg) then 0 else length (steps_from (sg_CurrentStep sg)))"

definition ended :: "string \<Rightarrow> go_error option \<Rightarrow> mem_store \<Rightarrow> bool" where
  "ended txID r T \<longleftrightarrow>
     (\<exists>sg. ms_sagas T txID = Some sg \<and> Terminal (sg_State sg) \<and> (r \<noteq> None \<longrightarrow> sg_State sg = StateFailed))"

text \<open>The registered steps meet their contract and stand in the order of the state machine,
  backoffs do not panic, the lease is granted, and a wait for a confirmation ends (by its
  timeout at the latest) within \<open>pf\<close> polls.\<close>

definition runs_steps :: "runtime \<Rightarrow> nat \<Rightarrow> ('s, 'p, 'l) Executor \<Rightarrow> bool" where
  "runs_steps rt pf e \<longleftrightarrow>
     map Name (ex_Steps e) = StepOrder \<and> (\<forall>s \<in> set (ex_Steps e). step_contract s) \<and>
     sane_backoff (ex_Cfg e) \<and> (\<forall>tx ow ttl l. fst (Acquire (ex_Lease e) tx ow ttl l) = Inr True) \<and>
     (\<forall>n. \<exists>m < pf. rt_done rt (n + m) \<noteq> None)"

lemma index_of_step_found: "st \<in> Name ` set steps \<Longrightarrow> \<exists>i. index_of_step st steps = Some i"
  by (induction steps) auto

lemma StepByName_found:
  "st \<in> set (map Name (ex_Steps e)) \<Longrightarrow> \<exists>s. StepByName e st = Some s \<and> s \<in> set (ex_Steps e) \<and> Name s = st"
  unfolding StepByName_def by (cases "find (\<lambda>s. Name s = st) (ex_Steps e)") (auto simp: find_None_iff find_Some_iff)

lemma w_wait_tick: "net_tick (w_net (snd (w_wait rt w))) = Suc (net_tick (w_net w))"
  "fst (w_wait rt w) = rt_done rt (net_tick (w_net w))"
  by (simp_all add: w_wait_def)

lemma poll_loop_returns:
  "\<exists>m < n. rt_done rt (net_tick (w_net w) + m) \<noteq> None \<Longrightarrow>
   \<exists>x. fst (poll_loop n rt ops bc txID h sg w) = Returned x"
proof (induction n arbitrary: w)
  case 0
  then show ?case by simp
next
  case (Suc n)
  obtain r w1 where w1: "on_net (rpc (Status bc h)) w = (r, w1)" by (metis surj_pair)
  have tick: "net_tick (w_net w1) = net_tick (w_net w)"
    using on_net_db(3) [of "rpc (Status bc h)" w] w1 by (metis net_tick_rpc snd_conv)
  obtain c w2 where w2: "w_wait rt w1 = (c, w2)" by (metis surj_pair)
  have c: "c = rt_done rt (net_tick (w_net w))" "net_tick (w_net w2) = Suc (net_tick (w_net w))"
    using w_wait_tick [of rt w1] w2 tick by auto
  have ih: "\<exists>x. fst (poll_loop n rt ops bc txID h sg w2) = Returned x" if "c = None"
  proof (rule Suc.IH)
    from Suc.prems obtain m where m: "m < Suc n" "rt_done rt (net_tick (w_net w) + m) \<noteq> None" by blast
    with that c(1) have "m \<noteq> 0" by (metis add.right_neutral)
    with m c(2) show "\<exists>m < n. rt_done rt (net_tick (w_net w2) + m) \<noteq> None"
      by (intro exI [of _ "m - 1"]) auto
  qed
  then show ?case
    by (auto simp: poll_loop.simps w1 w2 split: prod.splits sum.splits option.splits)
qed

lemma ended_terminal:
  "ms_sagas T txID = Some sg \<Longrightarrow> Terminal (sg_State sg) \<Longrightarrow> ended txID None T"
  by (simp add: ended_def)

text \<open>Where a turn of \<open>Run\<close> leads from step \<open>st\<close>: out, with a terminal saga, or on to a later step.\<close>

definition turn_ok :: "string \<Rightarrow> nat \<Rightarrow> turn \<Rightarrow> mem_store \<Rightarrow> bool" where
  "turn_ok txID n t T \<longleftrightarrow>
     (case t of Stop (Returned r) \<Rightarrow> ended txID r T
      | Stop _ \<Rightarrow> False | Continue \<Rightarrow> ready txID T \<and> steps_left txID T < n)"

lemma ready_moved_on:
  assumes "stored txID tx sg T" and "StepAfter st = Some (sg_CurrentStep sg)"
    and "\<And>st'. st' \<noteq> st \<Longrightarrow> st' \<in> set (steps_from st) \<Longrightarrow> unsucceeded txID st' 1 T"
  shows "ready txID T \<and> steps_left txID T < length (steps_from st)"
proof -
  note eq = steps_from_after [OF assms(2)] steps_from_distinct [OF assms(2)]
  have "unsucceeded txID st' 1 T" if "st' \<in> set (steps_from (sg_CurrentStep sg))" for st'
    using that eq assms(3) [of st'] by (cases "st' = st") auto
  then have "ready txID T"
    using assms(1) StepAfter_registered [OF assms(2)] unfolding ready_def by blast
  moreover have "steps_left txID T < length (steps_from st)"
    using assms(1) eq(1) by (simp add: steps_left_def stored_def)
  ultimately show ?thesis ..
qed

lemma unsucceeded_same_steps: "ms_steps T' = ms_steps T \<Longrightarrow> unsucceeded txID st k T' = unsucceeded txID st k T"
  by (simp add: unsucceeded_def row_at_def)

context committing_store
begin

lemma advanceToConfirmed_leaves:
  assumes e: "ex_Store e = ops" and st: "stored txID tx sg (tables (w_db w))"
    and polls: "\<And>n. \<exists>m < pf. rt_done rt (n + m) \<noteq> None"
    and run: "advanceToConfirmed pf rt e txID w = (r, w')"
  obtains x tx' sg' where "r = Returned x" "stored txID tx' sg' (tables (w_db w'))"
    "ms_steps (tables (w_db w')) = ms_steps (tables (w_db w))"
    "sg' = sg \<or> sg_State sg' = StateConfirmed \<and> sg_CurrentStep sg' = StepLedger"
proof -
  have load: "op_LoadSagaState ops txID (w_db w) = Inr sg"
    using st by (simp add: LoadSagaState mem_LoadSagaState_def stored_def)
  have sy: "synced txID (tables (w_db w'))"
    using safe_step_synced [OF advanceToConfirmed_safe [OF e stored_synced [OF st], of pf rt]] run by simp
  have "(\<exists>x. r = Returned x) \<and> ms_steps (tables (w_db w')) = ms_steps (tables (w_db w)) \<and>
    (\<exists>sg'. ms_sagas (tables (w_db w')) txID = Some sg' \<and>
       (sg' = sg \<or> sg_State sg' = StateConfirmed \<and> sg_CurrentStep sg' = StepLedger))"
  proof (cases "\<exists>bc. poll_loop pf rt ops bc txID (payload_string (sg_Payload sg) ''tx_hash'') sg w = (r, w')")
    case True
    then obtain bc where bc: "poll_loop pf rt ops bc txID (payload_string (sg_Payload sg) ''tx_hash'') sg w = (r, w')" ..
    show ?thesis
      using poll_loop_leaves [OF st bc] poll_loop_returns [OF polls] bc by (metis fst_conv)
  next
    case False
    then show ?thesis using run load st
      by (auto simp: advanceToConfirmed_def e Let_def stored_def split: option.splits if_splits)
  qed
  with sy that show thesis unfolding stored_def synced_def by metis
qed

lemma after_step_progress:
  assumes e: "ex_Store e = ops" and polls: "\<And>n. \<exists>m < pf. rt_done rt (n + m) \<noteq> None"
    and sy: "synced txID (tables (w_db w))" and past: "advanced_past txID st (tables (w_db w))"
    and later: "\<And>st'. st' \<noteq> st \<Longrightarrow> st' \<in> set (steps_from st) \<Longrightarrow> unsucceeded txID st' 1 (tables (w_db w))"
    and run: "after_step rt e pf txID w = (t, w')"
  shows "turn_ok txID (length (steps_from st)) t (tables (w_db w'))"
proof -
  from sy past obtain tx sg where st: "stored txID tx sg (tables (w_db w))"
    and sg: "Terminal (sg_State sg) \<or> StepAfter st = Some (sg_CurrentStep sg) \<and> StateForStep st = Some (sg_State sg)"
    unfolding advanced_past_def synced_def stored_def by force
  have load: "op_LoadSagaState ops txID (w_db w) = Inr sg"
    using st by (simp add: LoadSagaState mem_LoadSagaState_def stored_def)
  consider (final) "Terminal (sg_State sg)" | (wait) "sg_State sg = StateBroadcasted"
    | (go) "\<not> Terminal (sg_State sg)" "sg_State sg \<noteq> StateBroadcasted" by blast
  then show ?thesis
  proof cases
    case final
    then show ?thesis using run load st
      by (auto simp: after_step_def e Let_def turn_ok_def ended_def stored_def)
  next
    case go
    with sg have "StepAfter st = Some (sg_CurrentStep sg)" by blast
    from ready_moved_on [OF st this later] go run load show ?thesis
      by (auto simp: after_step_def e Let_def turn_ok_def)
  next
    case wait
    then have bl: "st = StepBroadcast" "sg_CurrentStep sg = StepLedger"
      using sg by (auto simp: StateForStep_def split: Step.splits)
    obtain r w1 where r: "advanceToConfirmed pf rt e txID w = (r, w1)" by (metis surj_pair)
    obtain x tx' sg' where x: "r = Returned x" "stored txID tx' sg' (tables (w_db w1))"
      "ms_steps (tables (w_db w1)) = ms_steps (tables (w_db w))"
      "sg' = sg \<or> sg_State sg' = StateConfirmed \<and> sg_CurrentStep sg' = StepLedger"
      by (rule advanceToConfirmed_leaves [OF e st polls r])
    have "StepAfter st = Some (sg_CurrentStep sg')" using x(4) bl by auto
    then have "ready txID (tables (w_db w1)) \<and> steps_left txID (tables (w_db w1)) < length (steps_from st)"
      by (rule ready_moved_on [OF x(2)]) (simp add: later unsucceeded_same_steps [OF x(3)])
    then show ?thesis using run load wait r x(1) by (auto simp: after_step_def e Let_def turn_ok_def)
  qed
qed

end

context committing_store
begin

lemma run_turn_progress:
  assumes e: "ex_Store e = ops" and runs: "runs_steps rt pf e" and rdy: "ready txID (tables (w_db w))"
    and run: "run_turn rt e pf txID owner w = (t, w')"
  shows "turn_ok txID (Suc (steps_left txID (tables (w_db w)))) t (tables (w_db w')) \<and>
    (t = Continue \<longrightarrow> steps_left txID (tables (w_db w')) < steps_left txID (tables (w_db w)))"
proof -
  from rdy obtain tx sg where st: "stored txID tx sg (tables (w_db w))"
    and sg: "\<not> Terminal (sg_State sg) \<Longrightarrow> sg_CurrentStep sg \<in> set StepOrder"
      "\<not> Terminal (sg_State sg) \<Longrightarrow> st \<in> set (steps_from (sg_CurrentStep sg)) \<Longrightarrow> unsucceeded txID st 1 (tables (w_db w))"
    for st unfolding ready_def by blast
  have load: "op_LoadSagaState ops txID (w_db w) = Inr sg" "op_LoadTx ops txID (w_db w) = Inr tx"
    using st by (simp_all add: LoadSagaState mem_LoadSagaState_def LoadTx mem_LoadTx_def stored_def)
  show ?thesis
  proof (cases "Terminal (sg_State sg)")
    case True
    then show ?thesis using run load st
      by (auto simp: run_turn_def e Let_def turn_ok_def ended_def stored_def)
  next
    case False
    have order: "sg_CurrentStep sg \<in> set (map Name (ex_Steps e))"
      using sg(1) [OF False] runs by (simp add: runs_steps_def)
    then obtain step where step: "StepByName e (sg_CurrentStep sg) = Some step" "step_contract step"
      "Name step = sg_CurrentStep sg"
      using StepByName_found [OF order] runs by (auto simp: runs_steps_def)
    let ?ttl = "wrap64 (cfg_StepTimeout (ex_Cfg e) (step_string (Name step)) + 5 * second)"
    obtain l where l: "Acquire (ex_Lease e) txID owner ?ttl (w_leases w) = (Inr True, l)"
      using runs unfolding runs_steps_def by (metis prod.collapse)
    let ?sc = "\<lparr>sc_Tx = tx, sc_Saga = sg, sc_Attempt = 1, sc_Partners = ex_Clients e\<rparr>"
    let ?w0 = "w\<lparr>w_leases := l\<rparr>"
    obtain r w1 where w1: "runStepWithRetry rt e step ?sc ?w0 = (r, w1)" by (metis surj_pair)
    let ?w2 = "w1\<lparr>w_leases := Release (ex_Lease e) txID owner (w_leases w1)\<rparr>"
    have "(\<exists>x. r = Returned x) \<and> other_steps txID (Name step) (tables (w_db w)) (tables (w_db ?w2)) \<and>
      (r = Returned None \<longrightarrow> advanced_past txID (Name step) (tables (w_db ?w2)))"
      using retry_loop_progress [OF e _ _ step(2) _ _ w1 [unfolded runStepWithRetry_def], of txID]
        st False runs sg(2) [OF False steps_from_head [OF sg(1) [OF False]]] step(3)
      by (simp add: runs_steps_def)
    then obtain x where x: "r = Returned x" and other: "other_steps txID (Name step) (tables (w_db w)) (tables (w_db ?w2))"
      and past: "x = None \<Longrightarrow> advanced_past txID (Name step) (tables (w_db ?w2))" by auto
    have g: "guarded txID (tables (w_db w)) (x \<noteq> None) (tables (w_db ?w2))"
      using retry_loop_guarded [OF e _ w1 [unfolded runStepWithRetry_def], of txID] st x
      by (simp add: returned_ok_def)
    have left: "steps_left txID (tables (w_db w)) = length (steps_from (Name step))"
      using st False step(3) by (simp add: steps_left_def stored_def)
    have later: "unsucceeded txID st' 1 (tables (w_db ?w2))" if "st' \<noteq> Name step" "st' \<in> set (steps_from (Name step))" for st'
      using unsucceeded_other [OF other that(1)] sg(2) [OF False] that(2) step(3) by simp
    have turn: "(t, w') = (case x of None \<Rightarrow> after_step rt e pf txID ?w2
        | Some err \<Rightarrow> (case compensateCascade rt e txID (Name step) ?w2 of (ce, w3) \<Rightarrow> (Stop (Returned ce), w3)))"
      using run load False step(1) l w1 x by (auto simp: run_turn_def e Let_def split: option.splits)
    show ?thesis
    proof (cases x)
      case None
      with turn have "after_step rt e pf txID ?w2 = (t, w')" by simp
      from after_step_progress [OF e _ safe_step_synced [OF guarded_safe [OF g]] past [OF None] later this] runs left
      show ?thesis by (auto simp: runs_steps_def turn_ok_def split: turn.splits outcome.splits)
    next
      case (Some err)
      obtain ce w3 where w3: "compensateCascade rt e txID (Name step) ?w2 = (ce, w3)" by (metis surj_pair)
      have "stored txID tx sg (tables (w_db ?w2))" using g Some stored_quiet [OF st] by (simp add: guarded_def)
      moreover obtain i where "index_of_step (Name step) (ex_Steps e) = Some i"
        using index_of_step_found [of "Name step" "ex_Steps e"] order step(3) by auto
      ultimately show ?thesis
        using compensateCascade_terminal [OF e _ _ w3] turn Some w3 by (fastforce simp: turn_ok_def ended_def)
    qed
  qed
qed

lemma Run_ends:
  assumes e: "ex_Store e = ops" and runs: "runs_steps rt pf e" and "ready txID (tables (w_db w))"
    and "steps_left txID (tables (w_db w)) < n"
  shows "\<exists>r w'. Run rt e pf txID owner n w = (Returned r, w') \<and> ended txID r (tables (w_db w'))"
  using assms(3,4)
proof (induction n arbitrary: w)
  case 0
  then show ?case by simp
next
  case (Suc n)
  obtain t w1 where t: "run_turn rt e pf txID owner w = (t, w1)" by (metis surj_pair)
  note ok = run_turn_progress [OF e runs Suc.prems(1) t]
  show ?case
  proof (cases t)
    case (Stop r)
    then show ?thesis using ok t by (auto simp: Run.simps turn_ok_def split: outcome.splits)
  next
    case Continue
    then show ?thesis using ok t Suc.IH [of w1] Suc.prems(2) by (auto simp: Run.simps turn_ok_def)
  qed
qed

end

end
