(* ===== verification/Store_Laws.thy ===== *)
theory Store_Laws
  imports Store_Contract
begin

text \<open>
  What the in-memory store guarantees its callers: creation and loading of a transaction, the
  optimistic concurrency of the saga record, the rows of step attempts, and the outbox as a
  queue that is claimed in order and never twice.
\<close>

section \<open>Helpers\<close>

definition pending :: "OutboxEvent list \<Rightarrow> OutboxEvent list" where
  "pending es = filter (\<lambda>e. ev_Status e = OutboxPending) es"

definition inflight :: "OutboxEvent \<Rightarrow> OutboxEvent" where
  "inflight e = e\<lparr>ev_Status := OutboxInflight\<rparr>"

lemma pending_simps [simp]:
  "pending [] = []"
  "pending (e # es) = (if ev_Status e = OutboxPending then e # pending es else pending es)"
  by (simp_all add: pending_def)

lemma inflight_status [simp]: "ev_Status (inflight e) = OutboxInflight"
  by (simp add: inflight_def)

text \<open>The claim loop with \<open>n\<close> events taken already takes the next \<open>max 1 (limit - n)\<close> pending ones.\<close>

definition claim_size :: "int \<Rightarrow> nat" where
  "claim_size k = nat (max 1 k)"

lemma claim_size_pos: "0 < claim_size k"
  by (simp add: claim_size_def)

lemma claim_size_step: "\<not> limit \<le> n + 1 \<Longrightarrow> claim_size (limit - n) = Suc (claim_size (limit - (n + 1)))"
  by (simp add: claim_size_def)

lemma claim_size_last: "limit \<le> n + 1 \<Longrightarrow> claim_size (limit - n) = 1"
  by (simp add: claim_size_def)

lemma take_claim: "take (claim_size k) (e # es) = e # take (claim_size k - 1) es"
  using claim_size_pos [of k] by (cases "claim_size k") simp_all

lemma claim_upto_spec:
  "claim_upto limit n es = (c, r) \<Longrightarrow>
     c = map inflight (take (claim_size (limit - n)) (pending es)) \<and>
     pending r = drop (claim_size (limit - n)) (pending es) \<and>
     length r = length es \<and> (\<forall>i < length es. r ! i = es ! i \<or> ev_Status (es ! i) = OutboxPending \<and> r ! i = inflight (es ! i))"
proof (induction limit n es arbitrary: c r rule: claim_upto.induct)
  case (1 limit n)
  then show ?case by simp
next
  case (2 limit n e es)
  show ?case
  proof (cases "ev_Status e = OutboxPending")
    case True
    note p = this
    show ?thesis
    proof (cases "limit \<le> n + 1")
      case True
      with p 2(3) have "c = [inflight e]" "r = inflight e # es" by (simp_all add: Let_def inflight_def)
      then show ?thesis using p claim_size_last [OF True] by (auto simp: nth_Cons split: nat.splits)
    next
      case False
      obtain c' r' where cr: "claim_upto limit (n + 1) es = (c', r')" by fastforce
      with False p 2(3) have eq: "c = inflight e # c'" "r = inflight e # r'" by (simp_all add: Let_def inflight_def)
      from 2(1) [OF p refl False cr] show ?thesis
        using p claim_size_step [OF False] by (auto simp: eq nth_Cons split: nat.splits)
    qed
  next
    case False
    obtain c' r' where cr: "claim_upto limit n es = (c', r')" by fastforce
    with False 2(3) have eq: "c = c'" "r = e # r'" by simp_all
    from 2(2) [OF False cr] show ?thesis using False by (auto simp: eq nth_Cons split: nat.splits)
  qed
qed

lemma pending_upto_spec: "pending_upto limit n es = take (claim_size (limit - n)) (pending es)"
proof (induction limit n es rule: pending_upto.induct)
  case (2 limit n e es)
  show ?case
    using 2 claim_size_last [of limit n] claim_size_step [of limit n] by (cases "limit \<le> n + 1") auto
qed simp

lemma mark_first_spec:
  "distinct (map ev_EventID es) \<Longrightarrow>
   mark_first at i es = map (\<lambda>e. if ev_EventID e = i then e\<lparr>ev_Status := OutboxPublished, ev_PublishedAt := Some at\<rparr> else e) es"
proof (induction es)
  case (Cons e es)
  show ?case
  proof (cases "ev_EventID e = i")
    case True
    then have "ev_EventID e \<notin> ev_EventID ` set es" using Cons.prems by simp
    with True have "map (\<lambda>x. if ev_EventID x = i then x\<lparr>ev_Status := OutboxPublished, ev_PublishedAt := Some at\<rparr> else x) es = es"
      by (intro map_idI) (metis image_eqI)
    with True show ?thesis by simp
  next
    case False
    with Cons show ?thesis by simp
  qed
qed simp

lemma mark_first_ids [simp]: "map ev_EventID (mark_first at i es) = map ev_EventID es"
  by (induction es) auto

definition mark :: "time \<Rightarrow> string set \<Rightarrow> OutboxEvent \<Rightarrow> OutboxEvent" where
  "mark at ids e = (if ev_EventID e \<in> ids then e\<lparr>ev_Status := OutboxPublished, ev_PublishedAt := Some at\<rparr> else e)"

lemma fold_mark_first:
  "distinct (map ev_EventID es) \<Longrightarrow> fold (mark_first at) ids es = map (mark at (set ids)) es"
proof (induction ids arbitrary: es)
  case Nil
  then show ?case by (simp add: mark_def map_idI)
next
  case (Cons i ids)
  have "fold (mark_first at) (i # ids) es = map (mark at (set ids)) (mark_first at i es)"
    using Cons by simp
  then show ?case by (simp add: mark_first_spec [OF Cons.prems] mark_def)
qed



section \<open>Properties of the store\<close>

lemma DedupKey_parts:
  assumes "CHR ''|'' \<notin> set tx" "CHR ''|'' \<notin> set tx'" "CHR ''|'' \<notin> set ty" "CHR ''|'' \<notin> set ty'"
    "CHR ''|'' \<notin> set st" "CHR ''|'' \<notin> set st'" and eq: "DedupKey tx ty st k = DedupKey tx' ty' st' k'"
  shows "tx = tx' \<and> ty = ty' \<and> st = st' \<and> k = k'"
proof -
  from sep_split [of tx "CHR ''|''" _ tx'] eq assms(1,2)
  have 1: "tx = tx'" "ty @ ''|'' @ st @ ''|'' @ fmt_d k = ty' @ ''|'' @ st' @ ''|'' @ fmt_d k'"
    by (simp_all add: DedupKey_def)
  from sep_split [of ty "CHR ''|''" _ ty'] 1(2) assms(3,4)
  have 2: "ty = ty'" "st @ ''|'' @ fmt_d k = st' @ ''|'' @ fmt_d k'" by simp_all
  from sep_split [of st "CHR ''|''" "fmt_d k" st' "fmt_d k'"] 2(2) assms(5,6)
  have "st = st'" "fmt_d k = fmt_d k'" by simp_all
  with 1 2 show ?thesis by simp
qed

text \<open>Two outbox events have the same dedup key only if they have the same transaction, event
  type, step and attempt, as long as none of these strings contains the separator.\<close>

theorem DedupKey_injective:
  assumes "\<forall>x \<in> {tx, tx', ty, ty', st, st'}. CHR ''|'' \<notin> set x"
  shows "DedupKey tx ty st k = DedupKey tx' ty' st' k' \<longleftrightarrow> (tx, ty, st, k) = (tx', ty', st', k')"
  using DedupKey_parts [of tx tx' ty ty' st st' k k'] assms by auto

theorem DedupKey_injective_witness:
  "DedupKey ''tx-1'' ''step.LEDGER.succeeded'' ''LEDGER'' 1 \<noteq> DedupKey ''tx-1'' ''step.LEDGER.succeeded'' ''LEDGER'' 11"
  by (subst DedupKey_injective) simp_all

text \<open>No lost update: of two writers that loaded the same version of a saga, the first one's save
  succeeds and is what a load then returns, and the second one's save fails with a version
  conflict and changes nothing.\<close>

theorem save_no_lost_update:
  assumes "mem_LoadSagaState txID s = Inr cur"
    and "sg_TxID a = txID" "sg_Version a = sg_Version cur + 1"
    and "sg_TxID b = txID" "sg_Version b = sg_Version cur + 1"
    and "mem_SaveSagaState a s = (r, s')"
  shows "r = Inr () \<and> mem_LoadSagaState txID s' = Inr a \<and>
    mem_SaveSagaState b s' = (Inl (Sentinel ErrConflict), s')"
  using assms by (auto simp: mem_LoadSagaState_def mem_SaveSagaState_def split: option.splits)

definition sample_saga :: "int \<Rightarrow> SagaState" where
  "sample_saga v = zero_saga\<lparr>sg_TxID := ''tx-1'', sg_State := StateCreated, sg_CurrentStep := StepPolicy, sg_Version := v\<rparr>"

definition sample_store :: mem_store where
  "sample_store = NewMemStore\<lparr>ms_sagas := [''tx-1'' \<mapsto> sample_saga 1]\<rparr>"

theorem save_no_lost_update_witness:
  "mem_SaveSagaState (sample_saga 2) (snd (mem_SaveSagaState (sample_saga 2) sample_store)) =
     (Inl (Sentinel ErrConflict), snd (mem_SaveSagaState (sample_saga 2) sample_store))"
  using save_no_lost_update [of "''tx-1''" sample_store "sample_saga 1" "sample_saga 2" "sample_saga 2"
      "fst (mem_SaveSagaState (sample_saga 2) sample_store)" "snd (mem_SaveSagaState (sample_saga 2) sample_store)"]
  by (simp add: sample_saga_def sample_store_def mem_LoadSagaState_def)

lemma map_enumerate_same:
  "(\<And>i x. f (g i x) = f x) \<Longrightarrow> map f (map (\<lambda>(i, x). g i x) (enumerate n xs)) = map f xs"
  by (induction xs arbitrary: n) auto

lemma created_rows:
  "map (\<lambda>r. r\<lparr>row_ID := []\<rparr>) (map (\<lambda>(i, r). with_row_id (f i) r) (enumerate n rows)) = map (\<lambda>r. r\<lparr>row_ID := []\<rparr>) rows"
  by (rule map_enumerate_same) (simp add: with_row_id_def)

lemma created_events:
  "map (\<lambda>e. e\<lparr>ev_ID := []\<rparr>) (map (\<lambda>(i, e). with_ev_id (f i) e) (enumerate n evs)) = map (\<lambda>e. e\<lparr>ev_ID := []\<rparr>) evs"
  by (rule map_enumerate_same) (simp add: with_ev_id_def)

text \<open>Creating a transaction fails with \<open>ErrDuplicate\<close> and changes nothing when the id exists;
  otherwise the transaction, its rows and its saga are what loads return, with surrogate ids
  filled in, and its events are at the end of the outbox.\<close>

theorem create_then_load:
  "(case mem_CreateTx ids t steps saga events s of
      (Inl e, s') \<Rightarrow> e = Sentinel ErrDuplicate \<and> s' = s \<and> \<not> isl (mem_LoadTx (tx_TxID t) s)
    | (Inr _, s') \<Rightarrow> isl (mem_LoadTx (tx_TxID t) s) \<and>
        mem_LoadTx (tx_TxID t) s' = Inr (with_tx_id (ids 0) t) \<and>
        mem_LoadSagaState (tx_TxID t) s' = Inr (with_sg_id (ids (1 + length steps)) saga) \<and>
        (\<exists>rows. mem_ListSteps (tx_TxID t) s' = Inr rows \<and>
           map (\<lambda>r. r\<lparr>row_ID := ''''\<rparr>) rows = map (\<lambda>r. r\<lparr>row_ID := ''''\<rparr>) steps) \<and>
        (\<exists>evs. ms_outbox s' = ms_outbox s @ evs \<and>
           map (\<lambda>e. e\<lparr>ev_ID := ''''\<rparr>) evs = map (\<lambda>e. e\<lparr>ev_ID := ''''\<rparr>) events))"
  by (cases "ms_txs s (tx_TxID t)")
    (simp_all only: mem_CreateTx_def mem_LoadTx_def mem_LoadSagaState_def mem_ListSteps_def, simp_all add: created_rows created_events del: map_map)

text \<open>Step rows: an insert succeeds exactly when the attempt has no row, and its row is then what
  a load returns; an update succeeds exactly when there is one, and replaces it; neither touches the row of another attempt, step or
  transaction.\<close>

theorem step_rows_roundtrip:
  "(case mem_InsertStep u row s of
      (Inl e, s') \<Rightarrow> e = Sentinel ErrDuplicate \<and> s' = s \<and> \<not> isl (mem_LoadStep (row_TxID row) (row_StepName row) (row_Attempt row) s)
    | (Inr _, s') \<Rightarrow> isl (mem_LoadStep (row_TxID row) (row_StepName row) (row_Attempt row) s) \<and>
        (\<forall>tx st k. mem_LoadStep tx st k s' =
           (if (tx, st, k) = (row_TxID row, row_StepName row, row_Attempt row) then Inr (with_row_id u row)
            else mem_LoadStep tx st k s))) \<and>
   (case mem_UpdateStep row s of
      (Inl e, s') \<Rightarrow> e = Sentinel ErrNotFound \<and> s' = s \<and> isl (mem_LoadStep (row_TxID row) (row_StepName row) (row_Attempt row) s)
    | (Inr _, s') \<Rightarrow> \<not> isl (mem_LoadStep (row_TxID row) (row_StepName row) (row_Attempt row) s) \<and>
        (\<forall>tx st k. mem_LoadStep tx st k s' =
           (if (tx, st, k) = (row_TxID row, row_StepName row, row_Attempt row) then Inr row
            else mem_LoadStep tx st k s)))"
  by (auto simp: mem_InsertStep_def mem_UpdateStep_def mem_LoadStep_def find_row_append find_replace_row
      row_is_def with_row_id_def split: option.splits)

text \<open>A claim takes the oldest pending events, in order, up to the limit (a limit below one counts as
  one), marks exactly these as in flight and leaves the others as they are; so two claims in a
  row share no event and together claim what one claim of both sizes would.\<close>

theorem claim_in_order_once:
  assumes "mem_ClaimOutboxPending limit s = (r, s')" and "mem_ClaimOutboxPending limit' s' = (r', s'')"
  shows "r = Inr (map inflight (take (claim_size limit) (pending (ms_outbox s)))) \<and>
    pending (ms_outbox s') = drop (claim_size limit) (pending (ms_outbox s)) \<and>
    (\<forall>i < length (ms_outbox s). ms_outbox s' ! i = ms_outbox s ! i \<or>
       ev_Status (ms_outbox s ! i) = OutboxPending \<and> ms_outbox s' ! i = inflight (ms_outbox s ! i)) \<and>
    (\<exists>c c'. r = Inr c \<and> r' = Inr c' \<and>
       c @ c' = map inflight (take (claim_size limit + claim_size limit') (pending (ms_outbox s))))"
proof -
  obtain c o1 where c: "claim_upto limit 0 (ms_outbox s) = (c, o1)" by fastforce
  with assms(1) have r: "r = Inr c" "s' = s\<lparr>ms_outbox := o1\<rparr>" by (auto simp: mem_ClaimOutboxPending_def)
  obtain c' o2 where c': "claim_upto limit' 0 o1 = (c', o2)" by fastforce
  with assms(2) r have r': "r' = Inr c'" by (simp add: mem_ClaimOutboxPending_def)
  from claim_upto_spec [OF c] claim_upto_spec [OF c'] r r' show ?thesis
    by (simp add: take_add)
qed

definition sample_event :: "string \<Rightarrow> OutboxStatus \<Rightarrow> OutboxEvent" where
  "sample_event i st = \<lparr>ev_ID = '''', ev_EventID = i, ev_TxID = ''tx-1'', ev_EventType = ''transaction.created'',
     ev_Step = '''', ev_Attempt = 0, ev_Payload = Map.empty, ev_CreatedAt = 0, ev_PublishedAt = None,
     ev_Status = st, ev_DedupKey = i\<rparr>"

definition sample_outbox :: mem_store where
  "sample_outbox = NewMemStore\<lparr>ms_outbox := [sample_event ''a'' OutboxPublished, sample_event ''b'' OutboxPending,
     sample_event ''c'' OutboxPending]\<rparr>"

theorem claim_in_order_once_witness:
  "\<exists>c c'. fst (mem_ClaimOutboxPending 1 sample_outbox) = Inr c \<and>
     fst (mem_ClaimOutboxPending 1 (snd (mem_ClaimOutboxPending 1 sample_outbox))) = Inr c' \<and>
     map ev_EventID (c @ c') = [''b'', ''c'']"
  using claim_in_order_once [of 1 sample_outbox "fst (mem_ClaimOutboxPending 1 sample_outbox)"
      "snd (mem_ClaimOutboxPending 1 sample_outbox)" 1
      "fst (mem_ClaimOutboxPending 1 (snd (mem_ClaimOutboxPending 1 sample_outbox)))"
      "snd (mem_ClaimOutboxPending 1 (snd (mem_ClaimOutboxPending 1 sample_outbox)))"]
  by (auto simp: sample_outbox_def sample_event_def claim_size_def inflight_def)

text \<open>Marking events published touches exactly the events with the given ids, when ids are distinct.\<close>

theorem publish_marks_exactly:
  assumes "distinct (map ev_EventID (ms_outbox s))" and "mem_MarkOutboxPublished ids at s = (r, s')"
  shows "r = Inr () \<and> ms_outbox s' = map (\<lambda>e. if ev_EventID e \<in> set ids
      then e\<lparr>ev_Status := OutboxPublished, ev_PublishedAt := Some at\<rparr> else e) (ms_outbox s) \<and>
    ms_txs s' = ms_txs s \<and> ms_sagas s' = ms_sagas s \<and> ms_steps s' = ms_steps s"
  using assms fold_mark_first [OF assms(1), of at ids] by (auto simp: mem_MarkOutboxPublished_def mark_def)

theorem publish_marks_exactly_witness:
  "map ev_Status (ms_outbox (snd (mem_MarkOutboxPublished [''c''] 7 sample_outbox))) =
     [OutboxPublished, OutboxPending, OutboxPublished]"
  using publish_marks_exactly [of sample_outbox "[''c'']" 7 "fst (mem_MarkOutboxPublished [''c''] 7 sample_outbox)"
      "snd (mem_MarkOutboxPublished [''c''] 7 sample_outbox)"]
  by (simp add: sample_outbox_def sample_event_def)

text \<open>The outbox accepts an event only under a new dedup key and then appends it, so dedup keys
  stay distinct; a repeated key is refused with \<open>ErrDuplicate\<close> and changes nothing.\<close>

theorem append_keeps_dedup:
  assumes "distinct (map ev_DedupKey (ms_outbox s))" and "mem_AppendOutbox [e] s = (r, s')"
  shows "distinct (map ev_DedupKey (ms_outbox s')) \<and>
    (if ev_DedupKey e \<in> ev_DedupKey ` set (ms_outbox s) then r = Inl (Sentinel ErrDuplicate) \<and> s' = s
     else r = Inr () \<and> ms_outbox s' = ms_outbox s @ [e])"
proof -
  have "(\<exists>ex \<in> set (ms_outbox s). ev_DedupKey ex = ev_DedupKey e) \<longleftrightarrow> ev_DedupKey e \<in> ev_DedupKey ` set (ms_outbox s)"
    by (auto simp: image_iff eq_commute)
  with assms show ?thesis by (auto simp: mem_AppendOutbox_def split: if_splits)
qed

theorem append_keeps_dedup_witness:
  "distinct (map ev_DedupKey (ms_outbox (snd (mem_AppendOutbox [sample_event ''d'' OutboxPending] sample_outbox)))) \<and>
   fst (mem_AppendOutbox [sample_event ''b'' OutboxPending] sample_outbox) = Inl (Sentinel ErrDuplicate)"
  using append_keeps_dedup [of sample_outbox "sample_event ''d'' OutboxPending"
      "fst (mem_AppendOutbox [sample_event ''d'' OutboxPending] sample_outbox)"
      "snd (mem_AppendOutbox [sample_event ''d'' OutboxPending] sample_outbox)"]
    append_keeps_dedup [of sample_outbox "sample_event ''b'' OutboxPending"
      "fst (mem_AppendOutbox [sample_event ''b'' OutboxPending] sample_outbox)"
      "snd (mem_AppendOutbox [sample_event ''b'' OutboxPending] sample_outbox)"]
  by (simp add: sample_outbox_def sample_event_def)

end
