(* ===== verification/Executor_Properties.thy ===== *)
theory Executor_Properties
  imports Executor_Progress Store_Laws
begin

text \<open>
  The properties of the executor on the in-memory store, obtained from the store-independent
  results through the interpretation of the store contract, with the witnesses that show their
  hypotheses can hold together.
\<close>

section \<open>A concrete world\<close>

text \<open>A transaction as it is after creation: saga in \<open>CREATED\<close> at the policy step, one pending
  row per step.\<close>

definition demo_tx :: Transaction where
  "demo_tx = \<lparr>tx_ID = ''u-1'', tx_TxID = ''tx-1'', tx_UserID = ''user'', tx_QuoteID = ''quote'',
     tx_Amount = ''100'', tx_Asset = ''USDC'', tx_Rail = ''ach'', tx_DestAddress = ''0xabc'',
     tx_Status = StateCreated, tx_CreatedAt = 0, tx_UpdatedAt = 0, tx_Version = 1\<rparr>"

definition demo_saga :: SagaState where
  "demo_saga = \<lparr>sg_ID = ''u-2'', sg_TxID = ''tx-1'', sg_CurrentStep = StepPolicy, sg_State = StateCreated,
     sg_LeaseOwner = '''', sg_LeaseExpiresAt = None, sg_Payload = Map.empty, sg_Version = 1\<rparr>"

definition demo_row :: "Step \<Rightarrow> StepRow" where
  "demo_row st = zero_row\<lparr>row_TxID := ''tx-1'', row_StepName := st, row_Status := StepPending, row_Attempt := 1\<rparr>"

definition demo_db :: mem_store where
  "demo_db = \<lparr>ms_txs = [''tx-1'' \<mapsto> demo_tx], ms_steps = (\<lambda>_. [])(''tx-1'' := map demo_row StepOrder),
     ms_sagas = [''tx-1'' \<mapsto> demo_saga], ms_outbox = []\<rparr>"

definition demo_clients :: "Stub Clients" where
  "demo_clients = \<lparr>cl_Policy = Some \<lparr>Evaluate = stub_Evaluate\<rparr>,
     cl_Payment = Some \<lparr>Authorize = stub_Authorize, Capture = stub_Capture,
       VoidAuthorization = stub_VoidAuthorization, Refund = stub_Refund\<rparr>,
     cl_Kyt = Some \<lparr>Screen = stub_Screen\<rparr>, cl_Mpc = Some \<lparr>Sign = stub_Sign\<rparr>,
     cl_Blockchain = Some \<lparr>Broadcast = stub_Broadcast, Status = stub_Status\<rparr>,
     cl_Ledger = Some \<lparr>PostDoubleEntry = stub_PostDoubleEntry\<rparr>,
     cl_Audit = Some \<lparr>Record = stub_Record\<rparr>\<rparr>"

text \<open>A runtime whose contexts are done at every wait.\<close>

definition demo_rt :: runtime where
  "demo_rt = \<lparr>rt_clock = int, rt_uuid = (\<lambda>n. ''id''), rt_rand = (\<lambda>_. 0), rt_done = (\<lambda>_. Some (Sentinel DeadlineExceeded))\<rparr>"

definition demo_world :: "(mem_store, Stub, unit) world" where
  "demo_world = \<lparr>w_db = demo_db, w_net = \<lparr>net_peers = NewStub DefaultStubConfig, net_tick = 0\<rparr>, w_leases = ()\<rparr>"

definition demo_executor :: "(mem_store, Stub, unit) Executor" where
  "demo_executor = NewExecutor demo_rt mem_ops demo_clients DefaultConfig"

lemma demo_rows: "find_row st k (map demo_row StepOrder) = Some r \<Longrightarrow> row_Status r = StepPending"
  by (auto simp: StepOrder_def demo_row_def dest!: find_row_Some)

lemma demo_stored: "stored ''tx-1'' demo_tx demo_saga demo_db"
  by (auto simp: stored_def synced_def demo_db_def demo_tx_def demo_saga_def demo_row_def StepOrder_def)

lemma demo_ready: "ready ''tx-1'' (w_db demo_world)"
  using demo_stored demo_rows
  by (force simp: ready_def demo_world_def demo_saga_def StepOrder_def unsucceeded_def row_at_def demo_db_def)

lemma runs_steps_NewExecutor:
  "runs_steps rt pf (NewExecutor rt s c cfg) \<longleftrightarrow> sane_backoff cfg \<and> (\<forall>n. \<exists>m < pf. rt_done rt (n + m) \<noteq> None)"
  by (auto simp: runs_steps_def NewExecutor_def NoopLease_def StepOrder_def)

lemma NewExecutor_store [simp]: "ex_Store (NewExecutor rt s c cfg) = s"
  by (simp add: NewExecutor_def)

lemma steps_from_le: "length (steps_from st) \<le> 6"
  using length_dropWhile_le [of "\<lambda>x. x \<noteq> st" StepOrder] by (simp add: steps_from_def StepOrder_def)

lemma steps_left_le: "steps_left txID T \<le> 6"
  using steps_from_le by (simp add: steps_left_def split: option.splits)

lemma sane_DefaultConfig: "sane_backoff DefaultConfig"
  by (simp add: sane_backoff_def DefaultConfig_def)

section \<open>Safety and termination of \<open>Run\<close>\<close>

text \<open>C2: whatever the partners, the runtime and the registered steps do, \<open>Run\<close> on the in-memory store
  moves the saga only along legal transitions, raises its version with every change, never changes the user, the quote, the amount, the
  asset, the rail or the destination of the transaction, keeps its status and version equal to those of the saga, leaves every other transaction as it is and
  only appends to the outbox, only events of this transaction.\<close>

theorem Run_is_safe:
  assumes "ex_Store e = mem_ops" and "synced txID (w_db w)"
  shows "safe_step txID (w_db w) (w_db (snd (Run rt e pf txID owner n w)))"
  using mem.Run_safe [OF assms] .

theorem Run_is_safe_witness:
  "safe_step ''tx-1'' demo_db (w_db (snd (Run demo_rt demo_executor 1 ''tx-1'' ''worker-0'' 7 demo_world)))"
  using Run_is_safe [of demo_executor "''tx-1''" demo_world demo_rt 1 "''worker-0''" 7]
    stored_synced [OF demo_stored] by (simp add: demo_executor_def demo_world_def)

text \<open>C1: every saga comes to an end: with the six registered steps on the in-memory store, \<open>Run\<close> returns
  after at most seven turns, whatever the partners answer, and the saga is then terminal; it returns an error only when a
  compensation failed, and then the saga is \<open>FAILED\<close>. Waits for a confirmation end within \<open>pf\<close> polls by
  the timeout of their context.\<close>

theorem Run_reaches_terminal:
  assumes "sane_backoff cfg" and "\<forall>k. \<exists>m < pf. rt_done rt (k + m) \<noteq> None"
    and "ready txID (w_db w)" and "7 \<le> n"
  shows "\<exists>r w' sg. Run rt (NewExecutor rt mem_ops c cfg) pf txID owner n w = (Returned r, w') \<and>
    ms_sagas (w_db w') txID = Some sg \<and> Terminal (sg_State sg) \<and> (r \<noteq> None \<longrightarrow> sg_State sg = StateFailed)"
  using mem.Run_ends [of "NewExecutor rt mem_ops c cfg" rt pf txID w n owner] assms steps_left_le [of txID "w_db w"]
  by (fastforce simp: runs_steps_NewExecutor ended_def)

theorem Run_reaches_terminal_witness:
  "\<exists>r w' sg. Run demo_rt demo_executor 1 ''tx-1'' ''worker-0'' 7 demo_world = (Returned r, w') \<and>
    ms_sagas (w_db w') ''tx-1'' = Some sg \<and> Terminal (sg_State sg)"
  using Run_reaches_terminal [of DefaultConfig 1 demo_rt "''tx-1''" demo_world 7 demo_clients "''worker-0''"]
    sane_DefaultConfig demo_ready by (fastforce simp: demo_executor_def demo_rt_def)

text \<open>A terminal saga is left alone: \<open>Run\<close> returns without an error and changes nothing, neither the
  store nor the partners nor the leases.\<close>

theorem Run_terminal_noop:
  assumes "ex_Store e = mem_ops" and "ms_txs (w_db w) txID = Some tx" and "ms_sagas (w_db w) txID = Some sg"
    and "Terminal (sg_State sg)"
  shows "Run rt e pf txID owner (Suc n) w = (Returned None, w)"
  using assms by (simp add: Run.simps run_turn_def mem_LoadTx_def mem_LoadSagaState_def Let_def)

definition done_world :: "(mem_store, Stub, unit) world" where
  "done_world = demo_world\<lparr>w_db := demo_db\<lparr>ms_sagas := [''tx-1'' \<mapsto> demo_saga\<lparr>sg_State := StateCompleted\<rparr>]\<rparr>\<rparr>"

theorem Run_terminal_noop_witness:
  "Run demo_rt demo_executor 1 ''tx-1'' ''worker-0'' 1 done_world = (Returned None, done_world)"
  using Run_terminal_noop [of demo_executor done_world "''tx-1''" demo_tx "demo_saga\<lparr>sg_State := StateCompleted\<rparr>" demo_rt 1 "''worker-0''" 0]
  by (simp add: demo_executor_def done_world_def demo_db_def)

lemma Run_mono_Suc: "fst (Run rt e pf txID owner n w) \<noteq> OutOfFuel \<Longrightarrow> Run rt e pf txID owner (Suc n) w = Run rt e pf txID owner n w"
proof (induction n arbitrary: w)
  case 0
  then show ?case by (simp add: Run.simps)
next
  case (Suc n)
  show ?case
  proof (cases "run_turn rt e pf txID owner w")
    case (Pair t w1)
    then show ?thesis using Suc by (cases t) (simp_all add: Run.simps(2))
  qed
qed

text \<open>The fuel of \<open>Run\<close> is only a bound: a run that ends gives the same result and the same world
  with any larger bound.\<close>

theorem Run_fuel_irrelevant:
  assumes "fst (Run rt e pf txID owner n w) \<noteq> OutOfFuel" and "n \<le> m"
  shows "Run rt e pf txID owner m w = Run rt e pf txID owner n w"
  using assms(2)
proof (induction rule: dec_induct)
  case base
  show ?case by simp
next
  case (step k)
  then show ?case using Run_mono_Suc [of rt e pf txID owner k w] assms(1) by simp
qed

theorem Run_fuel_irrelevant_witness:
  "Run demo_rt demo_executor 1 ''tx-1'' ''worker-0'' 9 done_world = Run demo_rt demo_executor 1 ''tx-1'' ''worker-0'' 1 done_world"
  by (rule Run_fuel_irrelevant)
    (simp_all add: Run.simps run_turn_def demo_executor_def done_world_def demo_db_def mem_LoadTx_def mem_LoadSagaState_def Let_def)

section \<open>Attempts\<close>

text \<open>A step that already succeeded is not executed again: when the row of the attempt is
  \<open>SUCCEEDED\<close>, \<open>runStepOnce\<close> returns without an error, calls no partner and writes nothing.\<close>

theorem succeeded_attempt_skipped:
  assumes "ex_Store e = mem_ops"
    and "row_at (tx_TxID (sc_Tx sc)) (Name step) (sc_Attempt sc) (w_db w) = Some row" and "row_Status row = StepSucceeded"
  shows "\<exists>w'. runStepOnce rt e step sc w = (Inr (), w') \<and> w_db w' = w_db w \<and>
    net_peers (w_net w') = net_peers (w_net w) \<and> w_leases w' = w_leases w"
proof -
  obtain clk ids w1 where w1: "w_stamp rt w = ((clk, ids), w1)" by (metis surj_pair)
  have same: "w_db w1 = w_db w" "net_peers (w_net w1) = net_peers (w_net w)" "w_leases w1 = w_leases w"
    using w_stamp_db [of rt w] w1 by simp_all
  have "begin_attempt mem_ops (tx_TxID (sc_Tx sc)) (Name step) (sc_Attempt sc) (clk 0) (ids 0) (w_db w1) = (Inr True, w_db w1)"
    using assms(2,3) same by (simp add: begin_attempt_def mem_LoadStep_row_at)
  then have "runStepOnce rt e step sc w = (Inr (), w1)"
    by (simp add: runStepOnce_def assms(1) w1 on_db_def)
  with same show ?thesis by simp
qed

definition skip_db :: mem_store where
  "skip_db = demo_db\<lparr>ms_steps := (\<lambda>_. [(demo_row StepPolicy)\<lparr>row_Status := StepSucceeded\<rparr>])\<rparr>"

definition demo_context :: "Stub SagaContext" where
  "demo_context = \<lparr>sc_Tx = demo_tx, sc_Saga = demo_saga, sc_Attempt = 1, sc_Partners = Some demo_clients\<rparr>"

theorem succeeded_attempt_skipped_witness:
  "\<exists>w'. runStepOnce demo_rt demo_executor (NewPolicyStep None) demo_context (demo_world\<lparr>w_db := skip_db\<rparr>) = (Inr (), w') \<and>
     net_peers (w_net w') = NewStub DefaultStubConfig"
  using succeeded_attempt_skipped [of demo_executor demo_context "NewPolicyStep None" "demo_world\<lparr>w_db := skip_db\<rparr>"
      "(demo_row StepPolicy)\<lparr>row_Status := StepSucceeded\<rparr>" demo_rt]
  by (auto simp: demo_executor_def demo_context_def demo_tx_def skip_db_def row_at_def find_row_def row_is_def demo_row_def demo_world_def)

text \<open>An attempt that returns an error, for whatever reason, has changed neither the transaction nor
  the saga: only its own step row differs.\<close>

theorem failed_attempt_keeps_saga:
  assumes "ex_Store e = mem_ops" and "stored txID (sc_Tx sc) (sc_Saga sc) (w_db w)"
    and "runStepOnce rt e step sc w = (Inl err, w')"
  shows "ms_txs (w_db w') = ms_txs (w_db w) \<and> ms_sagas (w_db w') = ms_sagas (w_db w) \<and> synced txID (w_db w')"
  using mem.runStepOnce_guarded [OF assms] by (simp add: guarded_def quiet_step_def)

theorem failed_attempt_keeps_saga_witness:
  "\<exists>err w'. runStepOnce demo_rt demo_executor (NewPolicyStep None) demo_context demo_world = (Inl err, w') \<and>
     ms_sagas (w_db w') = ms_sagas demo_db"
proof -
  have f: "find_row StepPolicy 1 (map demo_row StepOrder) = Some (demo_row StepPolicy)"
    by (simp add: find_row_def StepOrder_def row_is_def demo_row_def)
  have "isl (fst (runStepOnce demo_rt demo_executor (NewPolicyStep None) demo_context demo_world))"
    by (simp add: runStepOnce_def demo_executor_def demo_context_def demo_tx_def NewPolicyStep_def PolicyStep_Execute_def
        begin_attempt_def mem_LoadStep_def demo_db_def demo_world_def f mem_UpdateStep_def running_row_def
        go_monad_defs on_db_def w_stamp_def on_net_def demo_row_def zero_result_def Let_def)
  then obtain err w' where r: "runStepOnce demo_rt demo_executor (NewPolicyStep None) demo_context demo_world = (Inl err, w')"
    by (metis isl_def prod.collapse)
  have "stored ''tx-1'' (sc_Tx demo_context) (sc_Saga demo_context) (w_db demo_world)"
    using demo_stored by (simp add: demo_context_def demo_world_def)
  from failed_attempt_keeps_saga [OF _ this r] r show ?thesis by (simp add: demo_executor_def demo_world_def)
qed

text \<open>How many times the retry loop calls the partner: each attempt executes the step at most once.\<close>

lemma runStepOnce_count:
  assumes exec: "\<And>sc n. f (net_peers (snd (Execute step sc n))) \<le> f (net_peers n) + 1"
    and aud: "\<And>cl au a p. ex_Clients e = Some cl \<Longrightarrow> cl_Audit cl = Some au \<Longrightarrow> f (snd (Record au a p)) \<le> f p"
  shows "f (net_peers (w_net (snd (runStepOnce rt e step sc w)))) \<le> f (net_peers (w_net w)) + (1 :: nat)"
proof -
  have audit: "f (net_peers (w_net (audit rt e sc a b c er w'))) \<le> f (net_peers (w_net w'))" for a b c er w'
  proof -
    obtain clk ids w1 where w1: "w_stamp rt w' = ((clk, ids), w1)" by (metis surj_pair)
    then have "net_peers (w_net w1) = net_peers (w_net w')" using w_stamp_db(3) [of rt w'] by simp
    then have "f (net_peers (snd (rpc (Record au a') (w_net w1)))) \<le> f (net_peers (w_net w'))"
      if "ex_Clients e = Some cl" "cl_Audit cl = Some au" for cl au a'
      using aud [OF that, of a' "net_peers (w_net w1)"] by (cases "Record au a' (net_peers (w_net w1))") (simp add: rpc_def)
    then show ?thesis by (auto simp: audit_def w1 split: option.splits)
  qed
  obtain clk ids w1 where w1: "w_stamp rt w = ((clk, ids), w1)" by (metis surj_pair)
  let ?b = "RunInTx (ex_Store e) (begin_attempt (ex_Store e) (tx_TxID (sc_Tx sc)) (Name step) (sc_Attempt sc) (clk 0) (ids 0))"
  obtain rb w2 where w2: "on_db ?b w1 = (rb, w2)" by (metis surj_pair)
  have p2: "net_peers (w_net w2) = net_peers (w_net w)"
    using w_stamp_db(3) [of rt w] w1 on_db_net(1) [of ?b w1] w2 by simp
  obtain res err w3 where w3: "on_net (Execute step sc) w2 = ((res, err), w3)" by (metis surj_pair)
  obtain clk' ids' w4 where w4: "w_stamp rt w3 = ((clk', ids'), w4)" by (metis surj_pair)
  have "net_peers (w_net w4) = net_peers (snd (Execute step sc (w_net w2)))"
    using w_stamp_db(3) [of rt w3] w4 on_net_db(3) [of "Execute step sc" w2] w3 by simp
  then have p4: "f (net_peers (w_net w4)) \<le> f (net_peers (w_net w)) + 1" using exec [of sc "w_net w2"] p2 by simp
  show ?thesis
    using p2 p4 order_trans [OF audit]
    by (auto simp: runStepOnce_def w1 w2 w3 w4 Let_def split: sum.splits bool.splits option.splits)
qed

lemma retry_loop_count:
  assumes exec: "\<And>sc n. f (net_peers (snd (Execute step sc n))) \<le> f (net_peers n) + 1"
    and aud: "\<And>cl au a p. ex_Clients e = Some cl \<Longrightarrow> cl_Audit cl = Some au \<Longrightarrow> f (snd (Record au a p)) \<le> f p"
  shows "f (net_peers (w_net (snd (retry_loop n rt e step sc k le w)))) \<le> f (net_peers (w_net w)) + (n :: nat)"
proof (induction n arbitrary: k le w)
  case 0
  then show ?case by (simp add: retry_loop.simps Let_def)
next
  case (Suc n)
  obtain r w1 where w1: "runStepOnce rt e step (sc\<lparr>sc_Attempt := k\<rparr>) w = (r, w1)" by (metis surj_pair)
  have p1: "f (net_peers (w_net w1)) \<le> f (net_peers (w_net w)) + 1"
    using runStepOnce_count [of f step e rt "sc\<lparr>sc_Attempt := k\<rparr>" w, OF exec aud] w1 by simp
  obtain c w2 where w2: "w_wait rt w1 = (c, w2)" by (metis surj_pair)
  then have "net_peers (w_net w2) = net_peers (w_net w1)" using w_wait_db(3) [of rt w1] by simp
  then show ?case using p1 Suc.IH [of "k + 1" _ w2] w1 w2
    by (fastforce simp: retry_loop.simps split: sum.splits option.splits intro: order_trans)
qed

text \<open>A step is executed at most \<open>MaxRetries\<close> times: any count of partner calls that one execution
  raises by at most one, and that recording an audit event does not raise, is raised by at most
  \<open>MaxRetries\<close> by \<open>runStepWithRetry\<close>.\<close>

theorem attempts_bounded:
  assumes "\<forall>sc n. f (net_peers (snd (Execute step sc n))) \<le> f (net_peers n) + 1"
    and "\<forall>cl au a p. ex_Clients e = Some cl \<longrightarrow> cl_Audit cl = Some au \<longrightarrow> f (snd (Record au a p)) \<le> f p"
  shows "f (net_peers (w_net (snd (runStepWithRetry rt e step sc w)))) \<le>
    f (net_peers (w_net w)) + nat (cfg_MaxRetries (ex_Cfg e))"
  unfolding runStepWithRetry_def using retry_loop_count [of f step e] assms by blast

lemma policy_calls_once:
  "nat (PolicyCalls (net_peers (snd (Execute (NewPolicyStep (cl_Policy demo_clients)) sc n)))) \<le> nat (PolicyCalls (net_peers n)) + 1"
  by (auto simp: demo_clients_def NewPolicyStep_def PolicyStep_Execute_def rpc_def stub_defs
      split: sum.splits option.splits)

theorem attempts_bounded_witness:
  "nat (PolicyCalls (net_peers (w_net (snd (runStepWithRetry demo_rt demo_executor (NewPolicyStep (cl_Policy demo_clients))
     demo_context demo_world))))) \<le> nat (PolicyCalls (NewStub DefaultStubConfig)) + 5"
proof -
  have "nat (PolicyCalls (net_peers (w_net (snd (runStepWithRetry demo_rt demo_executor (NewPolicyStep (cl_Policy demo_clients))
     demo_context demo_world))))) \<le> nat (PolicyCalls (net_peers (w_net demo_world))) + nat (cfg_MaxRetries (ex_Cfg demo_executor))"
  proof (rule attempts_bounded)
    show "\<forall>sc n. nat (PolicyCalls (net_peers (snd (Execute (NewPolicyStep (cl_Policy demo_clients)) sc n)))) \<le>
        nat (PolicyCalls (net_peers n)) + 1"
      using policy_calls_once by blast
  qed (auto simp: demo_executor_def NewExecutor_def demo_clients_def stub_Record_def)
  then show ?thesis by (simp add: demo_executor_def NewExecutor_def DefaultConfig_def demo_world_def)
qed

section \<open>Backoff\<close>



section \<open>The payload of a saga\<close>

text \<open>C10: no step loses what another step stored: whatever the partners answer, the payload of the saga that is saved after a step, on
  success and on a terminal failure, comes back from its \<open>jsonb\<close> column exactly as it was, when the payload before the step did. So the
  authorisation, the capture, the signed transaction and the hash that later steps and compensations read are those that were stored.\<close>

theorem saga_payload_survives:
  fixes ops :: "'s store_ops" and cfg :: Config
  assumes "jsonb_faithful jsonb" and "impl \<in> set (ex_Steps (NewExecutor rt ops c cfg))" and "Execute impl sc n = ((res, err), n')"
    and "plain (sg_Payload (sc_Saga sc))" and "new \<in> {advanced_saga (sc_Saga sc) (Name impl) res, terminal_saga (sc_Saga sc) res}"
  shows "plain (sg_Payload new) \<and> decodePayload (jsonb (EncodeJSON (sg_Payload new))) = sg_Payload new"
proof -
  have "step_contract impl" using assms(2) by (auto simp: NewExecutor_def)
  from step_contract.merged_plain [OF this assms(3,4)] have "plain (sg_Payload new)"
    using assms(5) by (auto simp: advanced_saga_def terminal_saga_def mergePayload_def Let_def split: option.splits)
  then show ?thesis using plain_reads_back [OF assms(1)] by simp
qed

theorem saga_payload_survives_witness:
  "\<exists>res err n'. Execute (NewPaymentStep (cl_Payment demo_clients)) demo_context (w_net demo_world) = ((res, err), n') \<and>
     decodePayload (EncodeJSON (sg_Payload (advanced_saga demo_saga StepPayment res))) = sg_Payload (advanced_saga demo_saga StepPayment res)"
proof -
  let ?impl = "NewPaymentStep (cl_Payment demo_clients)"
  obtain res err n' where x: "Execute ?impl demo_context (w_net demo_world) = ((res, err), n')" by (metis surj_pair)
  have i: "?impl \<in> set (ex_Steps (NewExecutor demo_rt mem_ops demo_clients DefaultConfig :: (mem_store, Stub, unit) Executor))"
    by (simp add: NewExecutor_def)
  have "sc_Saga demo_context = demo_saga" "plain (sg_Payload demo_saga)" by (simp_all add: demo_context_def demo_saga_def)
  with x saga_payload_survives [OF jsonb_faithful_id i x, of "advanced_saga demo_saga StepPayment res"] show ?thesis by auto
qed

end
