(* ===== verification/Confirm_Poller.thy ===== *)
theory Confirm_Poller
  imports Executor_Properties
begin

text \<open>
  The stand-alone confirmation poller, \<open>internal/saga/confirm_poller.go\<close>. It watches a saga from
  outside the executor, so it loads the saga afresh in every round and may find that somebody else
  has moved it on.
\<close>

section \<open>The poller\<close>

text \<open>\<open>broadcastStatus\<close> and \<open>partnerBlockchain\<close>: the poller's own view of the gateway.\<close>

record broadcastStatus =
  bst_Confirmed :: bool
  bst_TxHash :: string

record 'p partnerBlockchain =
  PollStatus :: "string \<Rightarrow> ('p, broadcastStatus) go"

record ('s, 'p) ConfirmPoller =
  cp_Store :: "'s store_ops"
  cp_Client :: "'p partnerBlockchain"
  cp_Interval :: int
  cp_MaxWait :: int

definition persistConfirmed ::
  "runtime \<Rightarrow> ('s, 'p) ConfirmPoller \<Rightarrow> string \<Rightarrow> SagaState \<Rightarrow> (('s, 'p, 'l) world, unit) go" where
  "persistConfirmed rt cp txID sg w =
     (case op_LoadTx (cp_Store cp) txID (w_db w) of
        Inl err \<Rightarrow> (Inl err, w)
      | Inr tx \<Rightarrow>
          (case w_stamp rt w of ((clk, ids), w1) \<Rightarrow>
             on_db (RunInTx (cp_Store cp)
               (let newSaga = sg\<lparr>sg_State := StateConfirmed, sg_CurrentStep := StepLedger,
                                 sg_Version := sg_Version sg + 1\<rparr>
                in case snd (Transition (sg_State sg) (sg_State newSaga)) of
                     Some err \<Rightarrow> errE err
                   | None \<Rightarrow>
                       thenE (op_SaveSagaState (cp_Store cp) newSaga)
                      (thenE (op_UpdateTransactionStatus (cp_Store cp) (clk 0) txID (sg_State newSaga) (tx_Version tx))
                      (ignE (op_AppendOutbox (cp_Store cp) (\<lambda>i. ids (Suc i))
                               [tx_event (ids 0) txID ''transaction.confirmed''
                                  [''tx_id'' \<mapsto> AStr txID,
                                   ''tx_hash'' \<mapsto> (case sg_Payload sg ''tx_hash'' of None \<Rightarrow> ANil | Some v \<Rightarrow> v)]
                                  (clk 1)])
                            (okE ()))))) w1))"

text \<open>One clock reading moves the runtime streams on by one.\<close>

definition w_now :: "runtime \<Rightarrow> ('s, 'p, 'l) world \<Rightarrow> time \<times> ('s, 'p, 'l) world" where
  "w_now rt = on_net (net_now rt)"

text \<open>The loop of \<open>Run\<close>; the first argument is fuel.\<close>

primrec confirm_loop ::
  "nat \<Rightarrow> runtime \<Rightarrow> ('s, 'p) ConfirmPoller \<Rightarrow> string \<Rightarrow> time \<Rightarrow>
   ('s, 'p, 'l) world \<Rightarrow> go_error option outcome \<times> ('s, 'p, 'l) world"
where
  "confirm_loop 0 rt cp txID deadline w = (OutOfFuel, w)"
| "confirm_loop (Suc fuel) rt cp txID deadline w =
     (case op_LoadSagaState (cp_Store cp) txID (w_db w) of
        Inl err \<Rightarrow> (Returned (Some err), w)
      | Inr sg \<Rightarrow>
          if sg_State sg = StateConfirmed \<or> sg_State sg = StateLedgered \<or> sg_State sg = StateCompleted
          then (Returned None, w)
          else if sg_State sg \<noteq> StateBroadcasted
          then (Returned (Some (ErrorString ''confirm: saga not in broadcasted state'')), w)
          else
            (let txHash = payload_string (sg_Payload sg) ''tx_hash'' in
             if txHash = '''' then (Returned (Some (ErrorString ''confirm: missing tx_hash in saga payload'')), w)
             else
               (case on_net (rpc (PollStatus (cp_Client cp) txHash)) w of (st, w1) \<Rightarrow>
                if (case st of Inl _ \<Rightarrow> False | Inr resp \<Rightarrow> bst_Confirmed resp)
                then (case persistConfirmed rt cp txID sg w1 of
                        (Inl err, w2) \<Rightarrow> (Returned (Some err), w2)
                      | (Inr _, w2) \<Rightarrow> (Returned None, w2))
                else
                  (case w_now rt w1 of (now, w2) \<Rightarrow>
                   if deadline < now then (Returned (Some (ErrorString ''confirm: deadline exceeded'')), w2)
                   else
                     (case w_wait rt w2 of
                        (Some cerr, w3) \<Rightarrow> (Returned (Some cerr), w3)
                      | (None, w3) \<Rightarrow> confirm_loop fuel rt cp txID deadline w3)))))"

definition confirm_Run ::
  "nat \<Rightarrow> runtime \<Rightarrow> ('s, 'p) ConfirmPoller \<Rightarrow> string \<Rightarrow>
   ('s, 'p, 'l) world \<Rightarrow> go_error option outcome \<times> ('s, 'p, 'l) world"
where
  "confirm_Run fuel rt cp txID w =
     (case w_now rt w of (now, w1) \<Rightarrow> confirm_loop fuel rt cp txID (now + cp_MaxWait cp) w1)"

section \<open>Lemmas\<close>

text \<open>The poller's transaction is the one the executor uses inline.\<close>

lemma persistConfirmed_inline: "persistConfirmed rt cp txID sg w = persistConfirmedInline rt (cp_Store cp) txID sg w"
  by (cases "snd (Transition (sg_State sg) StateConfirmed)")
    (auto simp: persistConfirmed_def persistConfirmedInline_def persist_confirmed_def Let_def split: sum.splits prod.splits)

lemma w_now_db [simp]: "w_db (snd (w_now rt w)) = w_db w" "w_net (snd (w_now rt w)) = snd (net_now rt (w_net w))"
  by (simp_all add: w_now_def)

context store_contract
begin

lemma confirm_loop_safe:
  assumes e: "cp_Store cp = ops" and "synced txID (tables (w_db w))"
  shows "safe_step txID (tables (w_db w)) (tables (w_db (snd (confirm_loop n rt cp txID dl w))))"
  using assms(2)
proof (induction n arbitrary: w)
  case 0
  then show ?case by (simp add: safe_step_refl)
next
  case (Suc n)
  from synced_stored [OF Suc.prems] obtain tx sg where st: "stored txID tx sg (tables (w_db w))" by blast
  have load: "op_LoadSagaState ops txID (w_db w) = Inr sg"
    using st by (simp add: LoadSagaState mem_LoadSagaState_def stored_def)
  let ?h = "payload_string (sg_Payload sg) ''tx_hash''"
  obtain r w1 where w1: "on_net (rpc (PollStatus (cp_Client cp) ?h)) w = (r, w1)" by (metis surj_pair)
  then have db1: "w_db w1 = w_db w" by (metis on_net_db(1) snd_conv)
  obtain now w2 where w2: "w_now rt w1 = (now, w2)" by (metis surj_pair)
  then have db2: "w_db w2 = w_db w" using w_now_db(1) [of rt w1] db1 by simp
  obtain c w3 where w3: "w_wait rt w2 = (c, w3)" by (metis surj_pair)
  then have db3: "w_db w3 = w_db w" using db2 by (simp add: w_wait_fst)
  have pc: "safe_step txID (tables (w_db w)) (tables (w_db (snd (persistConfirmedInline rt ops txID sg w1))))"
    using persistConfirmedInline_safe [of txID tx sg w1] st db1 by simp
  have ih: "safe_step txID (tables (w_db w)) (tables (w_db (snd (confirm_loop n rt cp txID dl w3))))"
    using Suc.IH [of w3] Suc.prems db3 by simp
  show ?case
    using pc ih safe_step_refl [OF Suc.prems] load
    by (auto simp: e w1 w2 w3 db2 db3 Let_def persistConfirmed_inline split: sum.splits prod.splits option.splits)
qed

end

text \<open>A round that reads the clock sees a later time than every round before it.\<close>

lemma clock_grows:
  assumes "\<forall>k. rt_clock rt k < rt_clock rt (Suc k)"
  shows "rt_clock rt k + int m \<le> rt_clock rt (k + m)"
proof (induction m)
  case (Suc m)
  then show ?case using assms [rule_format, of "k + m"] by simp
qed simp

lemma confirm_loop_ends:
  fixes w :: "('s, 'p, 'l) world"
  assumes clock: "\<forall>k. rt_clock rt k < rt_clock rt (Suc k)"
    and "dl < rt_clock rt (net_tick (w_net w)) + int n"
  shows "\<exists>r. fst (confirm_loop (Suc n) rt cp txID dl w) = Returned r"
  using assms(2)
proof (induction n arbitrary: w)
  case 0
  then show ?case
    by (auto simp: Let_def on_net_def rpc_def w_now_def net_now_def split: sum.splits prod.splits option.splits)
next
  case (Suc n)
  have ih: "\<exists>r. fst (confirm_loop (Suc n) rt cp txID dl w3) = Returned r" if "net_tick (w_net w3) = net_tick (w_net w) + 2" for w3 :: "('s, 'p, 'l) world"
  proof (rule Suc.IH)
    show "dl < rt_clock rt (net_tick (w_net w3)) + int n"
      using Suc.prems clock_grows [OF clock, of "net_tick (w_net w)" 2] that by simp
  qed
  show ?case
    by (subst confirm_loop.simps(2), insert ih)
      (auto simp del: confirm_loop.simps simp: Let_def on_net_def rpc_def w_now_def net_now_def w_wait_def
        split: sum.splits prod.splits option.splits)
qed

section \<open>Properties\<close>

lemma mem_confirm_loop_result:
  assumes "cp_Store cp = mem_ops" and "synced txID (w_db w)" and "confirm_loop n rt cp txID dl w = (Returned None, w')"
  shows "\<exists>sg. ms_sagas (w_db w') txID = Some sg \<and> sg_State sg \<in> {StateConfirmed, StateLedgered, StateCompleted}"
  using assms(2,3)
proof (induction n arbitrary: w)
  case 0
  then show ?case by simp
next
  case (Suc n)
  from mem.synced_stored [OF Suc.prems(1)] obtain tx sg where st: "stored txID tx sg (w_db w)" by blast
  have load: "mem_LoadSagaState txID (w_db w) = Inr sg" using st by (simp add: mem_LoadSagaState_def stored_def)
  let ?h = "payload_string (sg_Payload sg) ''tx_hash''"
  obtain r w1 where w1: "on_net (rpc (PollStatus (cp_Client cp) ?h)) w = (r, w1)" by (metis surj_pair)
  then have db1: "w_db w1 = w_db w" by (metis on_net_db(1) snd_conv)
  obtain now w2 where w2: "w_now rt w1 = (now, w2)" by (metis surj_pair)
  then have db2: "w_db w2 = w_db w" using w_now_db(1) [of rt w1] db1 by simp
  obtain c w3 where w3: "w_wait rt w2 = (c, w3)" by (metis surj_pair)
  then have db3: "w_db w3 = w_db w" using db2 by (simp add: w_wait_fst)
  obtain pr w4 where w4: "persistConfirmedInline rt mem_ops txID sg w1 = (pr, w4)" by (metis surj_pair)
  have pc: "\<exists>sg'. ms_sagas (w_db w4) txID = Some sg' \<and> sg_State sg' = StateConfirmed" if "pr = Inr ()"
  proof -
    obtain clk ids w5 where w5: "w_stamp rt w1 = ((clk, ids), w5)" by (metis surj_pair)
    then have "w_db w5 = w_db w" using w_stamp_db(1) [of rt w1] db1 by simp
    then have "persist_confirmed mem_ops txID tx sg clk ids (w_db w) = (Inr (), w_db w4)"
      using w4 that st w5 db1
      by (auto simp: persistConfirmedInline_def mem_LoadTx_def stored_def RunInTx_def mem_Commit_def on_db_def split: prod.splits sum.splits)
    then have p: "fst (persist_confirmed mem_ops txID tx sg clk ids (w_db w)) = Inr ()"
      "w_db w4 = snd (persist_confirmed mem_ops txID tx sg clk ids (w_db w))" by simp_all
    from p(1) have tr: "snd (Transition (sg_State sg) StateConfirmed) = None"
      by (cases "snd (Transition (sg_State sg) StateConfirmed)") (simp_all add: persist_confirmed_def errE_def)
    show ?thesis unfolding p(2) using st stored_facts [OF st] tr
      by (simp add: persist_confirmed_def Let_def stored_def thenE_def bindE_def ignE_def okE_def
          mem_SaveSagaState_def mem_UpdateTransactionStatus_def mem_AppendOutbox_def)
  qed
  have ih: "\<exists>sg. ms_sagas (w_db w') txID = Some sg \<and> sg_State sg \<in> {StateConfirmed, StateLedgered, StateCompleted}"
    if "confirm_loop n rt cp txID dl w3 = (Returned None, w')" using Suc.IH [OF _ that] Suc.prems(1) db3 by simp
  show ?case
    using Suc.prems(2) load st pc ih
    by (auto simp: assms(1) w1 w2 w3 w4 Let_def persistConfirmed_inline stored_def
        split: sum.splits if_splits option.splits)
qed

text \<open>The poller comes to an end and never breaks a saga: with a clock that moves on, it returns within
  \<open>MaxWait\<close> nanoseconds' worth of rounds; it moves the saga only along the legal move to \<open>CONFIRMED\<close>, keeps
  the transaction in step, and when it returns without an error the saga is confirmed or further.\<close>

theorem poller_confirms_or_gives_up:
  assumes "cp_Store cp = mem_ops" and "synced txID (w_db w)" and "\<forall>k. rt_clock rt k < rt_clock rt (Suc k)"
    and "cp_MaxWait cp < int n" and "confirm_Run (Suc n) rt cp txID w = (r, w')"
  shows "(\<exists>x. r = Returned x) \<and> safe_step txID (w_db w) (w_db w') \<and>
    (r = Returned None \<longrightarrow> (\<exists>sg. ms_sagas (w_db w') txID = Some sg \<and>
       sg_State sg \<in> {StateConfirmed, StateLedgered, StateCompleted}))"
proof -
  obtain now w1 where w1: "w_now rt w = (now, w1)" by (metis surj_pair)
  then have now: "now = rt_clock rt (net_tick (w_net w))" "net_tick (w_net w1) = Suc (net_tick (w_net w))" "w_db w1 = w_db w"
    by (auto simp: w_now_def on_net_def net_now_def)
  have loop: "confirm_loop (Suc n) rt cp txID (now + cp_MaxWait cp) w1 = (r, w')"
    using assms(5) w1 by (simp add: confirm_Run_def)
  have "now + cp_MaxWait cp < rt_clock rt (net_tick (w_net w1)) + int n"
    using assms(3) [rule_format, of "net_tick (w_net w)"] assms(4) now by simp
  from confirm_loop_ends [OF assms(3) this, of cp txID] loop have "\<exists>x. r = Returned x" by simp
  moreover have "safe_step txID (w_db w) (w_db w')"
    using mem.confirm_loop_safe [OF assms(1), of txID w1 "Suc n" rt "now + cp_MaxWait cp"] assms(2) now(3) loop by simp
  moreover have "r = Returned None \<longrightarrow> (\<exists>sg. ms_sagas (w_db w') txID = Some sg \<and>
       sg_State sg \<in> {StateConfirmed, StateLedgered, StateCompleted})"
    using mem_confirm_loop_result [OF assms(1), of txID w1 "Suc n" rt "now + cp_MaxWait cp" w'] loop assms(2) now(3) by simp
  ultimately show ?thesis by blast
qed

definition demo_poller :: "(mem_store, Stub) ConfirmPoller" where
  "demo_poller = \<lparr>cp_Store = mem_ops, cp_Client = \<lparr>PollStatus = (\<lambda>h p. (Inr \<lparr>bst_Confirmed = False, bst_TxHash = h\<rparr>, p))\<rparr>,
     cp_Interval = 1, cp_MaxWait = 3\<rparr>"

theorem poller_confirms_or_gives_up_witness:
  "\<exists>x w'. confirm_Run 5 demo_rt demo_poller ''tx-1'' demo_world = (Returned x, w') \<and> safe_step ''tx-1'' demo_db (w_db w')"
proof -
  obtain r w' where r: "confirm_Run (Suc 4) demo_rt demo_poller ''tx-1'' demo_world = (r, w')" by (metis surj_pair)
  have "(\<exists>x. r = Returned x) \<and> safe_step ''tx-1'' (w_db demo_world) (w_db w')"
    using poller_confirms_or_gives_up [OF _ _ _ _ r] stored_synced [OF demo_stored]
    by (simp add: demo_poller_def demo_rt_def demo_world_def)
  with r show ?thesis by (auto simp: demo_world_def eval_nat_numeral)
qed

end
