(* ===== verification/Auth_Token.thy ===== *)
theory Auth_Token
  imports Go_Json
begin

text \<open>
  Service tokens, \<open>internal/authtoken/middleware.go\<close>: HS256 tokens over HMAC-SHA-256 and unpadded base64url, and the
  middleware that guards the HTTP API. A token's header and claims are written and read by \<open>Go_Json\<close>; only the text of
  a JSON error is an argument, \<open>json_err\<close>, since it ends in the message of a 401 answer.
\<close>

section \<open>Base64\<close>

text \<open>\<open>base64.RawURLEncoding\<close>: the alphabet, six bits at a time, no padding.\<close>

definition b64_char :: "nat \<Rightarrow> char" where
  "b64_char n = (if n < 26 then char_of (65 + n) else if n < 52 then char_of (71 + n)
     else if n < 62 then char_of (n - 4) else if n = 62 then CHR ''-'' else CHR ''_'')"

definition b64_val :: "char \<Rightarrow> nat option" where
  "b64_val c = (let k = (of_char c :: nat) in
     if 65 \<le> k \<and> k \<le> 90 then Some (k - 65) else if 97 \<le> k \<and> k \<le> 122 then Some (k - 71)
     else if 48 \<le> k \<and> k \<le> 57 then Some (k + 4) else if k = 45 then Some 62 else if k = 95 then Some 63 else None)"

fun sextets :: "byte list \<Rightarrow> nat list" where
  "sextets (a # b # c # rest) =
     [unat a div 4, unat a mod 4 * 16 + unat b div 16, unat b mod 16 * 4 + unat c div 64, unat c mod 64] @ sextets rest"
| "sextets [a, b] = [unat a div 4, unat a mod 4 * 16 + unat b div 16, unat b mod 16 * 4]"
| "sextets [a] = [unat a div 4, unat a mod 4 * 16]"
| "sextets [] = []"

fun unsextets :: "nat list \<Rightarrow> byte list" where
  "unsextets (p # q # r # s # rest) =
     [word_of_nat (p * 4 + q div 16), word_of_nat (q mod 16 * 16 + r div 4), word_of_nat (r mod 4 * 64 + s)] @ unsextets rest"
| "unsextets [p, q, r] = [word_of_nat (p * 4 + q div 16), word_of_nat (q mod 16 * 16 + r div 4)]"
| "unsextets [p, q] = [word_of_nat (p * 4 + q div 16)]"
| "unsextets _ = []"

definition encode :: "byte list \<Rightarrow> string" where
  "encode bs = map b64_char (sextets bs)"

definition corrupt_input :: "nat \<Rightarrow> go_error" where
  "corrupt_input off = ErrorString (''illegal base64 data at input byte '' @ fmt_d (int off))"

text \<open>Line ends are skipped; a character outside the alphabet or a last group of one character is an error.\<close>

definition decode :: "string \<Rightarrow> go_error + byte list" where
  "decode s =
     (let skip = (\<lambda>c. of_char c \<in> {10, 13 :: nat}) in
      case find (\<lambda>i. \<not> skip (s ! i) \<and> b64_val (s ! i) = None) [0..<length s] of
        Some i \<Rightarrow> Inl (corrupt_input i)
      | None \<Rightarrow>
          (let vs = map (\<lambda>c. the (b64_val c)) (filter (\<lambda>c. \<not> skip c) s) in
           if length vs mod 4 = 1 then Inl (corrupt_input (length s - 1)) else Inr (unsextets vs)))"

section \<open>HMAC\<close>

definition hmac_sha256 :: "byte list \<Rightarrow> byte list \<Rightarrow> byte list" where
  "hmac_sha256 key msg =
     (let k0 = (if length key > 64 then sha256 key else key);
          k = k0 @ replicate (64 - length k0) 0
      in sha256 (map (\<lambda>b. b XOR 0x5c) k @ sha256 (map (\<lambda>b. b XOR 0x36) k @ msg)))"

section \<open>Tokens\<close>

record Claims =
  cl_Sub :: string
  cl_Iat :: int
  cl_Exp :: int

text \<open>\<open>json.Marshal\<close> of the claims and of the header, which is a map, and \<open>json.Unmarshal\<close> into fresh claims.\<close>

definition json_claims :: "Claims \<Rightarrow> string" where
  "json_claims c = json_print (JObj [(''sub'', JStr (cl_Sub c)), (''iat'', JInt (cl_Iat c)), (''exp'', JInt (cl_Exp c))])"

definition json_header :: string where
  "json_header = json_print (JMap [(''alg'', JStr ''HS256''), (''typ'', JStr ''JWT'')])"

definition claims_fields :: "(string \<times> Claims setter) list" where
  "claims_fields = [(''sub'', string_field (\<lambda>x c. c\<lparr>cl_Sub := x\<rparr>)), (''iat'', int64_field (\<lambda>i c. c\<lparr>cl_Iat := i\<rparr>)),
     (''exp'', int64_field (\<lambda>i c. c\<lparr>cl_Exp := i\<rparr>))]"

definition unmarshal_claims :: "byte list \<Rightarrow> Claims option" where
  "unmarshal_claims b =
     (case unmarshal_struct claims_fields \<lparr>cl_Sub = '''', cl_Iat = 0, cl_Exp = 0\<rparr> (bytes_string b) of
        (c, ok) \<Rightarrow> if ok then Some c else None)"

definition signature :: "string \<Rightarrow> string \<Rightarrow> string" where
  "signature msg secret = encode (hmac_sha256 (string_bytes secret) (string_bytes msg))"

definition sign :: "Claims \<Rightarrow> string \<Rightarrow> string" where
  "sign claims secret =
     (let head = encode (string_bytes json_header); body = encode (string_bytes (json_claims claims))
      in head @ ''.'' @ body @ ''.'' @ signature (head @ ''.'' @ body) secret)"

text \<open>\<open>now\<close> is the Unix time of the call.\<close>

definition Issue :: "int \<Rightarrow> string \<Rightarrow> string \<Rightarrow> go_error + string" where
  "Issue now serviceName secret =
     (if secret = '''' then Inl (ErrorString ''authtoken: secret is required to issue a token'')
      else Inr (sign \<lparr>cl_Sub = serviceName, cl_Iat = now, cl_Exp = now + 24 * 3600\<rparr> secret))"

definition verify :: "(byte list \<Rightarrow> go_error) \<Rightarrow> string \<Rightarrow> string \<Rightarrow> go_error + Claims" where
  "verify json_err token secret =
     (let parts = split_on (CHR ''.'') token in
      if length parts \<noteq> 3 then Inl (ErrorString ''malformed token'')
      else if signature (parts ! 0 @ ''.'' @ parts ! 1) secret \<noteq> parts ! 2 then Inl (ErrorString ''invalid signature'')
      else (case decode (parts ! 1) of
              Inl err \<Rightarrow> Inl (errorf_wrap_tail ''decode payload: '' err)
            | Inr body \<Rightarrow>
                (case unmarshal_claims body of
                   None \<Rightarrow> Inl (errorf_wrap_tail ''parse payload: '' (json_err body))
                 | Some c \<Rightarrow> Inr c)))"

section \<open>Middleware\<close>

definition skipPaths :: "string set" where
  "skipPaths = {''/healthz'', ''/readyz'', ''/metrics''}"

text \<open>\<open>SecretFromEnv\<close>: the secret and whether to bypass; \<open>None\<close> is the fatal exit.\<close>

definition SecretFromEnv :: "(string \<Rightarrow> string option) \<Rightarrow> (string \<times> bool) option" where
  "SecretFromEnv env =
     (let get = (\<lambda>k. case env k of None \<Rightarrow> '''' | Some v \<Rightarrow> v); s = get ''SERVICE_TOKEN_SECRET'' in
      if s \<noteq> '''' then Some (s, False) else if get ''DEV_MODE'' = ''1'' then Some ('''', True) else None)"

text \<open>The decision of the middleware: to serve the request, or the message of the 401 answer. \<open>auth\<close> is the
  \<open>Authorization\<close> header, empty when there is none.\<close>

datatype auth_decision = Serve | Unauthorized string

text \<open>The body that \<open>writeUnauthorized\<close> sends with the status 401.\<close>

definition unauthorized_json :: "string \<Rightarrow> json" where
  "unauthorized_json msg = JObj [(''error'', JObj [(''code'', JStr ''unauthorized''), (''message'', JStr msg)])]"

definition Middleware ::
  "(byte list \<Rightarrow> go_error) \<Rightarrow> string \<Rightarrow> bool \<Rightarrow> int \<Rightarrow> string \<Rightarrow> string \<Rightarrow> auth_decision" where
  "Middleware json_err secret bypass now path auth =
     (if bypass \<or> path \<in> skipPaths then Serve
      else if \<not> has_prefix auth ''Bearer '' then Unauthorized ''missing or malformed Authorization header''
      else (case verify json_err (trim_prefix auth ''Bearer '') secret of
              Inl err \<Rightarrow> Unauthorized (error_text err)
            | Inr claims \<Rightarrow> if now > cl_Exp claims then Unauthorized ''token expired'' else Serve))"

section \<open>Round trips\<close>

lemma b64_val_char: "n < 64 \<Longrightarrow> b64_val (b64_char n) = Some n"
  by (auto simp: b64_char_def b64_val_def of_char_of Let_def)

lemma b64_char_not_skipped: "n < 64 \<Longrightarrow> (of_char (b64_char n) :: nat) \<noteq> 10 \<and> (of_char (b64_char n) :: nat) \<noteq> 13 \<and> b64_char n \<noteq> CHR ''.''"
proof -
  assume n: "n < 64"
  have "b64_val (CHR ''.'') = None" by (simp add: b64_val_def)
  then have "b64_char n \<noteq> CHR ''.''" using b64_val_char [OF n] by auto
  with n show ?thesis by (auto simp: b64_char_def of_char_of)
qed

lemma byte_bound: "unat (b :: byte) < 256"
  using unsigned_less [of b] by simp

lemma byte_bounds: "unat (b :: byte) div 4 < 64" "unat b div 16 < 16" "unat b div 64 < 4"
  using byte_bound [of b] by auto

lemma six_bits: "x < 16 \<Longrightarrow> a mod 4 * 16 + x < 64" "y < 4 \<Longrightarrow> a mod 16 * 4 + y < 64" for a x y :: nat
proof -
  have "a mod 4 < 4" "a mod 16 < 16" by simp_all
  then show "x < 16 \<Longrightarrow> a mod 4 * 16 + x < 64" "y < 4 \<Longrightarrow> a mod 16 * 4 + y < 64" by linarith+
qed

lemma sextets_bound: "v \<in> set (sextets bs) \<Longrightarrow> v < 64"
  by (induction bs rule: sextets.induct)
    (auto simp: byte_bounds six_bits intro: six_bits(1) [of 0, simplified] six_bits(2) [of 0, simplified])

lemma join_high: "x < 16 \<Longrightarrow> a div 4 * 4 + (a mod 4 * 16 + x) div 16 = a" for a x :: nat
  by simp

lemma join_mid: "b < 256 \<Longrightarrow> y < 4 \<Longrightarrow> (a mod 4 * 16 + b div 16) mod 16 * 16 + (b mod 16 * 4 + y) div 4 = b" for a b y :: nat
proof -
  assume "b < 256" "y < 4"
  then have "b div 16 < 16" "y div 4 = 0" by simp_all
  then show ?thesis by simp
qed

lemma join_low: "c < 256 \<Longrightarrow> (b mod 16 * 4 + c div 64) mod 4 * 64 + c mod 64 = c" for b c :: nat
proof -
  assume "c < 256"
  then have "c div 64 < 4" by simp
  then have "(b mod 16 * 4 + c div 64) mod 4 = c div 64" by simp
  then show ?thesis by simp
qed

lemma unsextets_sextets: "unsextets (sextets bs) = bs"
proof (induction bs rule: sextets.induct)
  case (1 a b c rest)
  show ?case
    unfolding sextets.simps append.simps unsextets.simps 1
      join_high [OF byte_bounds(2)] join_mid [OF byte_bound byte_bounds(3)] join_low [OF byte_bound] by simp
next
  case (2 a b)
  have "unat b mod 16 * 4 = unat b mod 16 * 4 + 0" by simp
  then show ?case
    unfolding sextets.simps append.simps unsextets.simps join_high [OF byte_bounds(2)]
    using join_mid [OF byte_bound [of b], of 0 "unat a"] by simp
next
  case (3 a)
  show ?case using join_high [of 0 "unat a"] by simp
qed simp

lemma length_sextets: "length (sextets bs) mod 4 \<noteq> 1"
  by (induction bs rule: sextets.induct) simp_all

lemma decode_plain:
  assumes "\<And>c. c \<in> set s \<Longrightarrow> b64_val c \<noteq> None \<and> of_char c \<notin> {10, 13 :: nat}"
  shows "decode s = (if length s mod 4 = 1 then Inl (corrupt_input (length s - 1)) else Inr (unsextets (map (\<lambda>c. the (b64_val c)) s)))"
proof -
  let ?bad = "\<lambda>i. of_char (s ! i) \<notin> {10, 13 :: nat} \<and> b64_val (s ! i) = None"
  have "\<not> ?bad i" if "i \<in> set [0..<length s]" for i using assms [of "s ! i"] that by simp
  then have f: "find ?bad [0..<length s] = None" unfolding find_None_iff by blast
  have g: "filter (\<lambda>c. of_char c \<notin> {10, 13 :: nat}) s = s" using assms unfolding filter_id_conv by blast
  show ?thesis unfolding decode_def Let_def f g option.case length_map by (rule refl)
qed

lemma decode_encode: "decode (encode bs) = Inr bs"
proof -
  have ok: "b64_val c \<noteq> None \<and> of_char c \<notin> {10, 13 :: nat}" if c: "c \<in> set (encode bs)" for c
  proof -
    obtain n where n: "c = b64_char n" "n < 64" using c sextets_bound by (auto simp: encode_def)
    then show ?thesis using b64_val_char [OF n(2)] b64_char_not_skipped [OF n(2)] by simp
  qed
  have v: "map (\<lambda>c. the (b64_val c)) (encode bs) = sextets bs"
    using sextets_bound [of _ bs] by (simp add: encode_def map_idI b64_val_char)
  have "length (encode bs) mod 4 \<noteq> 1" using length_sextets [of bs] by (simp add: encode_def)
  then show ?thesis by (simp add: decode_plain [OF ok] v unsextets_sextets)
qed

lemma encode_no_dot: "CHR ''.'' \<notin> set (encode bs)"
proof
  assume "CHR ''.'' \<in> set (encode bs)"
  then obtain n where "b64_char n = CHR ''.''" "n < 64" using sextets_bound by (auto simp: encode_def)
  then show False using b64_char_not_skipped by blast
qed

lemma split_token:
  "CHR ''.'' \<notin> set a \<Longrightarrow> CHR ''.'' \<notin> set b \<Longrightarrow> CHR ''.'' \<notin> set c \<Longrightarrow>
   split_on (CHR ''.'') (a @ ''.'' @ b @ ''.'' @ c) = [a, b, c]"
  by (simp add: split_on_append split_on_plain)

text \<open>Times are 64-bit seconds, as the fields of \<open>Claims\<close> are.\<close>

definition claims_int64 :: "Claims \<Rightarrow> bool" where
  "claims_int64 c \<longleftrightarrow> {cl_Iat c, cl_Exp c} \<subseteq> {- (2 ^ 63)..<2 ^ 63}"

lemma unmarshal_json_claims: "claims_int64 c \<Longrightarrow> unmarshal_claims (string_bytes (json_claims c)) = Some c"
proof -
  assume c: "claims_int64 c"
  have f: "find_field claims_fields ''sub'' = Some (string_field (\<lambda>x c. c\<lparr>cl_Sub := x\<rparr>))"
    "find_field claims_fields ''iat'' = Some (int64_field (\<lambda>i c. c\<lparr>cl_Iat := i\<rparr>))"
    "find_field claims_fields ''exp'' = Some (int64_field (\<lambda>i c. c\<lparr>cl_Exp := i\<rparr>))"
    by (simp_all add: find_field_def claims_fields_def)
  show ?thesis using c
    by (simp add: unmarshal_claims_def json_claims_def unmarshal_struct_print decode_struct_def f int64_field_JInt
        claims_int64_def maxNestingDepth_def del: json_print.simps)
qed

lemma verify_sign: "claims_int64 claims \<Longrightarrow> verify json_err (sign claims secret) secret = Inr claims"
proof -
  assume c: "claims_int64 claims"
  let ?h = "encode (string_bytes json_header)" and ?b = "encode (string_bytes (json_claims claims))"
  let ?g = "signature (?h @ ''.'' @ ?b) secret"
  have g: "CHR ''.'' \<notin> set ?g" unfolding signature_def by (rule encode_no_dot)
  have sp: "split_on (CHR ''.'') (sign claims secret) = [?h, ?b, ?g]"
    unfolding sign_def Let_def by (rule split_token [OF encode_no_dot encode_no_dot g])
  show ?thesis unfolding verify_def sp Let_def by (simp add: decode_encode unmarshal_json_claims [OF c])
qed

lemma middleware_token:
  assumes "path \<notin> skipPaths" and "claims_int64 c"
  shows "Middleware json_err secret False t path (''Bearer '' @ sign c secret) =
    (if t \<le> cl_Exp c then Serve else Unauthorized ''token expired'')"
proof -
  have "has_prefix (''Bearer '' @ sign c secret) ''Bearer ''" "trim_prefix (''Bearer '' @ sign c secret) ''Bearer '' = sign c secret"
    by (rule has_prefix_append, rule trim_prefix_append)
  then show ?thesis
    using assms(1) verify_sign [OF assms(2)] unfolding Middleware_def by simp
qed

section \<open>Properties\<close>

text \<open>C35: tokens work until they expire: a token issued for a service opens a guarded path with the same secret for exactly
  24 hours after it was issued, as long as its times fit 64 bits: the claims survive the JSON, the base64 and the signature.\<close>

theorem issued_token_admits:
  assumes "Issue now service secret = Inr token" and "path \<notin> skipPaths" and "- (2 ^ 63) \<le> now" and "now + 86400 < 2 ^ 63"
  shows "Middleware json_err secret False t path (''Bearer '' @ token) =
    (if t \<le> now + 86400 then Serve else Unauthorized ''token expired'')"
proof -
  have "token = sign \<lparr>cl_Sub = service, cl_Iat = now, cl_Exp = now + 86400\<rparr> secret"
    using assms(1) by (simp add: Issue_def split: if_splits)
  moreover have "claims_int64 \<lparr>cl_Sub = service, cl_Iat = now, cl_Exp = now + 86400\<rparr>" using assms(3,4) by (simp add: claims_int64_def)
  ultimately show ?thesis using middleware_token [OF assms(2)] by simp
qed

theorem issued_token_admits_witness:
  "\<exists>token. Issue 1000 ''ledger'' ''s3cret'' = Inr token \<and>
     Middleware (\<lambda>_. ErrorString ''json'') ''s3cret'' False 2000 ''/v1/transactions'' (''Bearer '' @ token) = Serve"
proof -
  obtain token where t: "Issue 1000 ''ledger'' ''s3cret'' = Inr token" by (simp add: Issue_def)
  with issued_token_admits [OF t, of "''/v1/transactions''" "\<lambda>_. ErrorString ''json''" 2000] show ?thesis by (simp add: skipPaths_def)
qed

text \<open>Only signed requests pass: a guarded request is served only with a bearer token of three parts whose last part is the
  signature of the first two under the secret, and whose claims have not expired.\<close>

lemma served_signed:
  assumes "Middleware json_err secret False now path auth = Serve" and "path \<notin> skipPaths"
  shows "\<exists>head body claims. auth = ''Bearer '' @ head @ ''.'' @ body @ ''.'' @ signature (head @ ''.'' @ body) secret \<and>
    verify json_err (drop 7 auth) secret = Inr claims \<and> now \<le> cl_Exp claims"
proof -
  have "has_prefix auth ''Bearer ''" using assms by (auto simp: Middleware_def split: if_splits)
  then obtain token where auth: "auth = ''Bearer '' @ token" by (auto simp: has_prefix_iff)
  have tp: "trim_prefix auth ''Bearer '' = token" unfolding auth by (rule trim_prefix_append)
  obtain claims where v: "verify json_err token secret = Inr claims" "now \<le> cl_Exp claims"
    using assms tp by (auto simp: Middleware_def split: if_splits sum.splits)
  define parts where "parts = split_on (CHR ''.'') token"
  have p: "length parts = 3" "signature (parts ! 0 @ ''.'' @ parts ! 1) secret = parts ! 2"
    using v(1) by (auto simp: verify_def Let_def parts_def split: if_splits)
  obtain x y z where "parts = [x, y, z]" using p(1) by (auto simp: numeral_3_eq_3 length_Suc_conv)
  then have "parts = [parts ! 0, parts ! 1, parts ! 2]" by simp
  then have "token = parts ! 0 @ ''.'' @ parts ! 1 @ ''.'' @ parts ! 2"
    using join_split [of "CHR ''.''" token] unfolding parts_def [symmetric] by (metis strings_Join.simps(2,3))
  then have "auth = ''Bearer '' @ parts ! 0 @ ''.'' @ parts ! 1 @ ''.'' @ signature (parts ! 0 @ ''.'' @ parts ! 1) secret"
    using auth p(2) by simp
  moreover have "drop 7 auth = token" using auth by simp
  ultimately show ?thesis using v by blast
qed

end
