(* ===== verification/Worker.thy ===== *)
theory Worker
  imports Executor_Properties
begin

text \<open>
  The dispatcher of \<open>internal/worker/worker.go\<close>: a pool of workers with one buffered channel per partition,
  crash recovery and the operator's retry and compensate. The goroutines of the pool and the callers of \<open>Submit\<close>
  interleave freely: an event of the pool is one communication of one goroutine, and \<open>serves\<close> runs any
  sequence of events. The legacy channel \<open>jobs\<close>, which nothing uses, is left out.
\<close>

section \<open>Buffered channels\<close>

text \<open>A Go channel made with a capacity: a send blocks on a full buffer, a receive on an empty one.\<close>

record 'a chan =
  ch_cap :: nat
  ch_buf :: "'a list"

definition make_chan :: "nat \<Rightarrow> 'a chan" where
  "make_chan n = \<lparr>ch_cap = n, ch_buf = []\<rparr>"

definition chan_send :: "'a \<Rightarrow> 'a chan \<Rightarrow> 'a chan option" where
  "chan_send x c = (if length (ch_buf c) < ch_cap c then Some (c\<lparr>ch_buf := ch_buf c @ [x]\<rparr>) else None)"

definition chan_recv :: "'a chan \<Rightarrow> ('a \<times> 'a chan) option" where
  "chan_recv c = (case ch_buf c of [] \<Rightarrow> None | x # xs \<Rightarrow> Some (x, c\<lparr>ch_buf := xs\<rparr>))"

datatype 'a comm = Sent 'a | Received 'a

text \<open>A sequence of communications over one channel.\<close>

fun comms :: "('a \<Rightarrow> 'c \<Rightarrow> 'c option) \<Rightarrow> ('c \<Rightarrow> ('a \<times> 'c) option) \<Rightarrow> 'a comm list \<Rightarrow> 'c \<Rightarrow> 'c option" where
  "comms send recv [] c = Some c"
| "comms send recv (Sent x # cs) c = (case send x c of None \<Rightarrow> None | Some c' \<Rightarrow> comms send recv cs c')"
| "comms send recv (Received x # cs) c =
     (case recv c of None \<Rightarrow> None | Some (y, c') \<Rightarrow> if y = x then comms send recv cs c' else None)"

fun sents :: "'a comm list \<Rightarrow> 'a list" where
  "sents [] = []"
| "sents (Sent x # cs) = x # sents cs"
| "sents (Received x # cs) = sents cs"

fun receiveds :: "'a comm list \<Rightarrow> 'a list" where
  "receiveds [] = []"
| "receiveds (Sent x # cs) = receiveds cs"
| "receiveds (Received x # cs) = x # receiveds cs"

text \<open>What the pool relies on: a channel delivers in order, and loses and duplicates nothing.\<close>

locale fifo =
  fixes send :: "'a \<Rightarrow> 'c \<Rightarrow> 'c option" and recv :: "'c \<Rightarrow> ('a \<times> 'c) option" and contents :: "'c \<Rightarrow> 'a list"
    and capacity :: "'c \<Rightarrow> nat"
  assumes send_appends: "send x c = Some c' \<Longrightarrow> contents c' = contents c @ [x] \<and> capacity c' = capacity c"
    and send_ready: "send x c \<noteq> None \<longleftrightarrow> length (contents c) < capacity c"
    and recv_head: "recv c = Some (x, c') \<Longrightarrow> contents c = x # contents c' \<and> capacity c' = capacity c"
begin

lemma in_order: "comms send recv cs c = Some c' \<Longrightarrow> contents c @ sents cs = receiveds cs @ contents c'"
proof (induction cs arbitrary: c)
  case (Cons e cs)
  then show ?case
    by (cases e) (fastforce split: option.splits if_splits dest: send_appends recv_head)+
qed simp

lemma bounded:
  "comms send recv cs c = Some c' \<Longrightarrow> length (contents c) \<le> capacity c \<Longrightarrow>
   length (contents c') \<le> capacity c' \<and> capacity c' = capacity c"
proof (induction cs arbitrary: c)
  case (Cons e cs)
  show ?case
  proof (cases e)
    case (Sent x)
    then obtain c1 where c1: "send x c = Some c1" "comms send recv cs c1 = Some c'"
      using Cons.prems(1) by (auto split: option.splits)
    have "length (contents c) < capacity c" using send_ready [of x c] c1(1) by simp
    then show ?thesis using Cons.IH [OF c1(2)] send_appends [OF c1(1)] by simp
  next
    case (Received x)
    then obtain c1 where c1: "recv c = Some (x, c1)" "comms send recv cs c1 = Some c'"
      using Cons.prems(1) by (auto split: option.splits if_splits)
    then show ?thesis using Cons.IH [OF c1(2)] recv_head [OF c1(1)] Cons.prems(2) by simp
  qed
qed simp

end

interpretation go_chan: fifo chan_send chan_recv ch_buf ch_cap
  by unfold_locales (auto simp: chan_send_def chan_recv_def split: if_splits list.splits)



section \<open>The dispatcher\<close>

text \<open>A worker goroutine: waiting in its \<open>select\<close>, running a saga, or gone.\<close>

datatype goroutine = Idle | Busy string | Exited

text \<open>\<open>d_wg\<close> lists the goroutines the wait group counts, each with the index it was started with.\<close>

record ('s, 'p, 'l) Dispatcher =
  d_Store :: "'s store_ops"
  d_Executor :: "('s, 'p, 'l) Executor"
  d_Concurrency :: int
  d_Owner :: string
  d_partitions :: "string chan list"
  d_stop :: bool
  d_wg :: "(nat \<times> goroutine) list"

definition New :: "'s store_ops \<Rightarrow> ('s, 'p, 'l) Executor \<Rightarrow> int \<Rightarrow> string \<Rightarrow> time \<Rightarrow> ('s, 'p, 'l) Dispatcher" where
  "New s ex concurrency owner now =
     (let n = (if concurrency \<le> 0 then 32 else concurrency) in
      \<lparr>d_Store = s, d_Executor = ex, d_Concurrency = n,
       d_Owner = (if owner = '''' then ''orch-'' @ fmt_d now else owner),
       d_partitions = replicate (nat n) (make_chan (nat n)), d_stop = False, d_wg = []\<rparr>)"

text \<open>The sum is an unsigned 32-bit value, so it stays positive as a 64-bit \<open>int\<close>.\<close>

definition partitionOf :: "('s, 'p, 'l) Dispatcher \<Rightarrow> string \<Rightarrow> nat" where
  "partitionOf d txID = unat (fnv1a (string_bytes txID)) mod length (d_partitions d)"

definition Start :: "('s, 'p, 'l) Dispatcher \<Rightarrow> ('s, 'p, 'l) Dispatcher" where
  "Start d = d\<lparr>d_wg := d_wg d @ map (\<lambda>i. (i, Idle)) [0..<nat (d_Concurrency d)]\<rparr>"

text \<open>\<open>Stop\<close> closes the channel, once, and waits; \<open>wg_done\<close> tells when the wait is over.\<close>

definition close_stop :: "('s, 'p, 'l) Dispatcher \<Rightarrow> ('s, 'p, 'l) Dispatcher" where
  "close_stop d = d\<lparr>d_stop := True\<rparr>"

definition wg_done :: "('s, 'p, 'l) Dispatcher \<Rightarrow> bool" where
  "wg_done d = (\<forall>w \<in> set (d_wg d). snd w = Exited)"

text \<open>The case that the \<open>select\<close> of \<open>Submit\<close> takes; \<open>None\<close> when that case is not ready.\<close>

datatype submit_case = SendCase | StopCase

fun Submit :: "submit_case \<Rightarrow> string \<Rightarrow> ('s, 'p, 'l) Dispatcher \<Rightarrow> ('s, 'p, 'l) Dispatcher option" where
  "Submit SendCase txID d =
     (let p = partitionOf d txID in
      map_option (\<lambda>c. d\<lparr>d_partitions := (d_partitions d)[p := c]\<rparr>) (chan_send txID (d_partitions d ! p)))"
| "Submit StopCase txID d = (if d_stop d then Some d else None)"

text \<open>A send with nobody closing the pool: the caller goes on, or is blocked.\<close>

datatype 'a progress = Proceeds 'a | Blocks

definition Submit_open :: "string \<Rightarrow> ('s, 'p, 'l) Dispatcher \<Rightarrow> ('s, 'p, 'l) Dispatcher progress" where
  "Submit_open txID d =
     (case Submit SendCase txID d of
        Some d' \<Rightarrow> Proceeds d'
      | None \<Rightarrow> (case Submit StopCase txID d of Some d' \<Rightarrow> Proceeds d' | None \<Rightarrow> Blocks))"

text \<open>\<open>Recover\<close>, run to its end or to the first send that blocks, with no worker receiving meanwhile (at startup it is
  called before \<open>Start\<close>).\<close>

fun submit_all :: "string list \<Rightarrow> ('s, 'p, 'l) Dispatcher \<Rightarrow> ('s, 'p, 'l) Dispatcher progress" where
  "submit_all [] d = Proceeds d"
| "submit_all (x # xs) d = (case Submit_open x d of Blocks \<Rightarrow> Blocks | Proceeds d' \<Rightarrow> submit_all xs d')"

definition Recover ::
  "string list \<Rightarrow> 's \<Rightarrow> ('s, 'p, 'l) Dispatcher \<Rightarrow> (go_error option \<times> ('s, 'p, 'l) Dispatcher) progress" where
  "Recover order db d =
     (case op_ListInflightSagaIDs (d_Store d) order db of
        Inl err \<Rightarrow> Proceeds (Some err, d)
      | Inr rows \<Rightarrow> (case submit_all rows d of Blocks \<Rightarrow> Blocks | Proceeds d' \<Rightarrow> Proceeds (None, d')))"

section \<open>Workers\<close>

text \<open>The three cases of the \<open>select\<close> of goroutine \<open>g\<close>, and the end of the run of a saga.\<close>

definition worker_recv :: "nat \<Rightarrow> nat \<Rightarrow> string \<Rightarrow> ('s, 'p, 'l) Dispatcher \<Rightarrow> ('s, 'p, 'l) Dispatcher option" where
  "worker_recv g idx txID d =
     (if g < length (d_wg d) \<and> d_wg d ! g = (idx, Idle)
      then (case chan_recv (d_partitions d ! idx) of
              None \<Rightarrow> None
            | Some (x, c) \<Rightarrow>
                if x = txID then Some (d\<lparr>d_partitions := (d_partitions d)[idx := c], d_wg := (d_wg d)[g := (idx, Busy x)]\<rparr>)
                else None)
      else None)"

definition worker_back :: "nat \<Rightarrow> ('s, 'p, 'l) Dispatcher \<Rightarrow> ('s, 'p, 'l) Dispatcher option" where
  "worker_back g d =
     (if g < length (d_wg d) then
        (case d_wg d ! g of (idx, Busy x) \<Rightarrow> Some (d\<lparr>d_wg := (d_wg d)[g := (idx, Idle)]\<rparr>) | _ \<Rightarrow> None)
      else None)"

definition worker_exit :: "bool \<Rightarrow> nat \<Rightarrow> ('s, 'p, 'l) Dispatcher \<Rightarrow> ('s, 'p, 'l) Dispatcher option" where
  "worker_exit ctx_done g d =
     (if g < length (d_wg d) \<and> snd (d_wg d ! g) = Idle \<and> (d_stop d \<or> ctx_done)
      then Some (d\<lparr>d_wg := (d_wg d)[g := (fst (d_wg d ! g), Exited)]\<rparr>) else None)"

text \<open>What a worker does with an id it received; an error of \<open>Run\<close> is only logged.\<close>

definition worker_job ::
  "runtime \<Rightarrow> ('s, 'p, 'l) Dispatcher \<Rightarrow> nat \<Rightarrow> nat \<Rightarrow> string \<Rightarrow> ('s, 'p, 'l) world \<Rightarrow> ('s, 'p, 'l) world" where
  "worker_job rt d pf fuel txID w = snd (Run rt (d_Executor d) pf txID (d_Owner d) fuel w)"

text \<open>Any interleaving of the goroutines and the callers.\<close>

datatype pool_event =
    EvSubmit submit_case string
  | EvStart
  | EvStop
  | EvRecv nat nat string
  | EvBack nat
  | EvExit bool nat

fun pool_exec :: "pool_event \<Rightarrow> ('s, 'p, 'l) Dispatcher \<Rightarrow> ('s, 'p, 'l) Dispatcher option" where
  "pool_exec (EvSubmit c txID) d = Submit c txID d"
| "pool_exec EvStart d = Some (Start d)"
| "pool_exec EvStop d = Some (close_stop d)"
| "pool_exec (EvRecv g idx txID) d = worker_recv g idx txID d"
| "pool_exec (EvBack g) d = worker_back g d"
| "pool_exec (EvExit ctx_done g) d = worker_exit ctx_done g d"

inductive serves :: "('s, 'p, 'l) Dispatcher \<Rightarrow> pool_event list \<Rightarrow> ('s, 'p, 'l) Dispatcher \<Rightarrow> bool" where
  serves_nil: "serves d [] d"
| serves_cons: "pool_exec e d = Some d1 \<Longrightarrow> serves d1 es d2 \<Longrightarrow> serves d (e # es) d2"

inductive_cases serves_consE: "serves d (e # es) d2"
inductive_simps serves_nil_iff [simp]: "serves d [] d2"
inductive_simps serves_cons_iff: "serves d (e # es) d2"

section \<open>Control\<close>

record ('s, 'p, 'l) Control =
  ctl_Dispatcher :: "('s, 'p, 'l) Dispatcher"
  ctl_Executor :: "('s, 'p, 'l) Executor"

text \<open>\<open>Retry\<close> ignores its \<open>step\<close> argument. \<open>Some err\<close> is the error returned; the dispatcher is the one of the control.\<close>

definition Retry ::
  "('s, 'p, 'l) Control \<Rightarrow> string \<Rightarrow> Step \<Rightarrow> 's \<Rightarrow> (go_error option \<times> ('s, 'p, 'l) Control) progress" where
  "Retry c txID step db =
     (case op_LoadSagaState (ex_Store (ctl_Executor c)) txID db of
        Inl err \<Rightarrow> Proceeds (Some err, c)
      | Inr sg \<Rightarrow>
          if Terminal (sg_State sg)
          then Proceeds (Some (ErrorString (''saga is terminal ('' @ state_string (sg_State sg) @ ''); nothing to retry'')), c)
          else (case Submit_open txID (ctl_Dispatcher c) of
                  Blocks \<Rightarrow> Blocks
                | Proceeds d \<Rightarrow> Proceeds (None, c\<lparr>ctl_Dispatcher := d\<rparr>)))"

definition CompensateCascade ::
  "runtime \<Rightarrow> ('s, 'p, 'l) Executor \<Rightarrow> string \<Rightarrow> string \<Rightarrow> 'p step_impl \<Rightarrow>
   ('s, 'p, 'l) world \<Rightarrow> go_error option \<times> ('s, 'p, 'l) world" where
  "CompensateCascade rt e txID owner failedStep w = compensateCascade rt e txID (Name failedStep) w"

definition Control_Compensate ::
  "runtime \<Rightarrow> ('s, 'p, 'l) Control \<Rightarrow> string \<Rightarrow> ('s, 'p, 'l) world \<Rightarrow> go_error option \<times> ('s, 'p, 'l) world" where
  "Control_Compensate rt c txID w =
     (case op_LoadSagaState (ex_Store (ctl_Executor c)) txID (w_db w) of
        Inl err \<Rightarrow> (Some err, w)
      | Inr sg \<Rightarrow>
          if IsFailure (sg_State sg)
          then (Some (ErrorString (''saga already in failure state '' @ state_string (sg_State sg))), w)
          else if Terminal (sg_State sg)
          then (Some (ErrorString (''saga is terminal ('' @ state_string (sg_State sg) @ ''); nothing to compensate'')), w)
          else (case StepByName (ctl_Executor c) (sg_CurrentStep sg) of
                  None \<Rightarrow> (Some (ErrorString (''no step for current_step='' @ step_string (sg_CurrentStep sg))), w)
                | Some step \<Rightarrow> CompensateCascade rt (ctl_Executor c) txID (d_Owner (ctl_Dispatcher c)) step w))"

section \<open>The invariant of the pool\<close>

definition pool_wf :: "('s, 'p, 'l) Dispatcher \<Rightarrow> bool" where
  "pool_wf d \<longleftrightarrow>
     0 < length (d_partitions d) \<and> length (d_partitions d) = nat (d_Concurrency d) \<and>
     (\<forall>i < length (d_partitions d). \<forall>x \<in> set (ch_buf (d_partitions d ! i)). partitionOf d x = i) \<and>
     (\<forall>(i, g) \<in> set (d_wg d). i < length (d_partitions d) \<and> (\<forall>x. g = Busy x \<longrightarrow> partitionOf d x = i))"

text \<open>What no event changes: the partitioning.\<close>

definition same_partitioning :: "('s, 'p, 'l) Dispatcher \<Rightarrow> ('s, 'p, 'l) Dispatcher \<Rightarrow> bool" where
  "same_partitioning d d' \<longleftrightarrow>
     length (d_partitions d') = length (d_partitions d) \<and> d_Concurrency d' = d_Concurrency d \<and> partitionOf d' = partitionOf d"

lemma same_partitioning_length:
  "length (d_partitions d') = length (d_partitions d) \<Longrightarrow> d_Concurrency d' = d_Concurrency d \<Longrightarrow> same_partitioning d d'"
  by (auto simp: same_partitioning_def partitionOf_def fun_eq_iff)

lemma partitionOf_less: "0 < length (d_partitions d) \<Longrightarrow> partitionOf d x < length (d_partitions d)"
  by (simp add: partitionOf_def)

lemma pool_exec_partitioning:
  assumes ex: "pool_exec e d = Some d'"
  shows "same_partitioning d d'"
proof (rule same_partitioning_length)
  have "length (d_partitions d') = length (d_partitions d) \<and> d_Concurrency d' = d_Concurrency d"
  proof (cases e)
    case (EvSubmit c y)
    then show ?thesis using ex by (cases c) (auto simp: Let_def split: if_splits)
  qed (use ex in \<open>auto simp: Start_def close_stop_def worker_recv_def worker_back_def worker_exit_def
      split: if_splits option.splits prod.splits goroutine.splits\<close>)
  then show "length (d_partitions d') = length (d_partitions d)" "d_Concurrency d' = d_Concurrency d" by simp_all
qed

lemma New_wf: "pool_wf (New s e n ow t)"
  by (auto simp: New_def pool_wf_def make_chan_def Let_def)

lemma pool_wf_update:
  assumes "pool_wf d" and "same_partitioning d d'"
    and "\<And>i x. i < length (d_partitions d) \<Longrightarrow> x \<in> set (ch_buf (d_partitions d' ! i)) \<Longrightarrow>
      x \<in> set (ch_buf (d_partitions d ! i)) \<or> partitionOf d x = i"
    and "\<And>i g. (i, g) \<in> set (d_wg d') \<Longrightarrow>
      (i, g) \<in> set (d_wg d) \<or> i < length (d_partitions d) \<and> (\<forall>x. g = Busy x \<longrightarrow> partitionOf d x = i)"
  shows "pool_wf d'"
  using assms unfolding pool_wf_def same_partitioning_def by fastforce

lemma pool_wfD:
  assumes "pool_wf d"
  shows "0 < length (d_partitions d)" "length (d_partitions d) = nat (d_Concurrency d)"
    "i < length (d_partitions d) \<Longrightarrow> x \<in> set (ch_buf (d_partitions d ! i)) \<Longrightarrow> partitionOf d x = i"
    "(i, g) \<in> set (d_wg d) \<Longrightarrow> i < length (d_partitions d)" "(i, Busy x) \<in> set (d_wg d) \<Longrightarrow> partitionOf d x = i"
  using assms unfolding pool_wf_def by (blast, blast, blast, fastforce, fastforce)

lemma chan_send_buf: "chan_send x c = Some c' \<Longrightarrow> set (ch_buf c') = insert x (set (ch_buf c))"
  using go_chan.send_appends by fastforce

lemma chan_recv_buf: "chan_recv c = Some (x, c') \<Longrightarrow> set (ch_buf c) = insert x (set (ch_buf c'))"
  using go_chan.recv_head by fastforce

lemma worker_recvE:
  assumes "worker_recv g idx x d = Some d'"
  obtains c where "g < length (d_wg d)" "d_wg d ! g = (idx, Idle)" "chan_recv (d_partitions d ! idx) = Some (x, c)"
    "d' = d\<lparr>d_partitions := (d_partitions d)[idx := c], d_wg := (d_wg d)[g := (idx, Busy x)]\<rparr>"
  using assms by (auto simp: worker_recv_def split: if_splits option.splits)

lemma worker_backE:
  assumes "worker_back g d = Some d'"
  obtains idx x where "g < length (d_wg d)" "d_wg d ! g = (idx, Busy x)" "d' = d\<lparr>d_wg := (d_wg d)[g := (idx, Idle)]\<rparr>"
  using assms by (auto simp: worker_back_def split: if_splits prod.splits goroutine.splits)

lemma worker_exitE:
  assumes "worker_exit cd g d = Some d'"
  obtains idx where "g < length (d_wg d)" "d_wg d ! g = (idx, Idle)" "d' = d\<lparr>d_wg := (d_wg d)[g := (idx, Exited)]\<rparr>"
  using assms by (cases "d_wg d ! g") (auto simp: worker_exit_def split: if_splits)

lemma SubmitE:
  assumes "Submit c x d = Some d'"
  obtains (sent) ch where "c = SendCase" "chan_send x (d_partitions d ! partitionOf d x) = Some ch"
      "d' = d\<lparr>d_partitions := (d_partitions d)[partitionOf d x := ch]\<rparr>"
    | (dropped) "c = StopCase" "d_stop d" "d' = d"
  using assms by (cases c) (auto simp: Let_def split: if_splits)

lemmas worker_elims = SubmitE worker_recvE worker_backE worker_exitE

lemma pool_exec_wf:
  assumes wf: "pool_wf d" and ex: "pool_exec e d = Some d'"
  shows "pool_wf d'"
proof -
  note upd = pool_wf_update [OF wf pool_exec_partitioning [OF ex]]
  have into: "w \<in> set (xs[h := v]) \<Longrightarrow> w = v \<or> w \<in> set xs" for w v :: "nat \<times> goroutine" and xs h
    using set_update_subset_insert [of xs h v] by blast
  have idx: "i < length (d_partitions d)" if "h < length (d_wg d)" "d_wg d ! h = (i, g)" for h i g
    using that pool_wfD(4) [OF wf] by (metis nth_mem)
  show ?thesis
  proof (cases e)
    case (EvSubmit c y)
    with ex have "Submit c y d = Some d'" by simp
    then show ?thesis
    proof (cases rule: SubmitE)
      case (sent ch)
      show ?thesis
      proof (rule upd)
        fix i x assume "i < length (d_partitions d)" "x \<in> set (ch_buf (d_partitions d' ! i))"
        then show "x \<in> set (ch_buf (d_partitions d ! i)) \<or> partitionOf d x = i"
          using chan_send_buf [OF sent(2)] sent(3) by (cases "i = partitionOf d y") auto
      qed (use sent(3) in simp)
    qed (use wf in simp)
  next
    case EvStart
    then show ?thesis using ex pool_wfD(1,2) [OF wf] by (intro upd) (auto simp: Start_def)
  next
    case EvStop
    then show ?thesis using ex by (intro upd) (auto simp: close_stop_def)
  next
    case (EvRecv h k y)
    with ex have "worker_recv h k y d = Some d'" by simp
    then obtain c where c: "h < length (d_wg d)" "d_wg d ! h = (k, Idle)" "chan_recv (d_partitions d ! k) = Some (y, c)"
      "d' = d\<lparr>d_partitions := (d_partitions d)[k := c], d_wg := (d_wg d)[h := (k, Busy y)]\<rparr>"
      by (rule worker_recvE)
    note k = idx [OF c(1,2)]
    have y: "partitionOf d y = k" using pool_wfD(3) [OF wf k] chan_recv_buf [OF c(3)] by simp
    show ?thesis
    proof (rule upd)
      fix i x assume "i < length (d_partitions d)" "x \<in> set (ch_buf (d_partitions d' ! i))"
      then show "x \<in> set (ch_buf (d_partitions d ! i)) \<or> partitionOf d x = i"
        using chan_recv_buf [OF c(3)] c(4) by (cases "i = k") auto
    qed (use c(4) k y in \<open>auto dest!: into\<close>)
  next
    case (EvBack h)
    then have "worker_back h d = Some d'" using ex by simp
    then obtain k x where "h < length (d_wg d)" "d_wg d ! h = (k, Busy x)" "d' = d\<lparr>d_wg := (d_wg d)[h := (k, Idle)]\<rparr>"
      by (rule worker_backE)
    with idx [of h k] show ?thesis by (intro upd) (auto dest!: into)
  next
    case (EvExit cd h)
    then have "worker_exit cd h d = Some d'" using ex by simp
    then obtain k where "h < length (d_wg d)" "d_wg d ! h = (k, Idle)" "d' = d\<lparr>d_wg := (d_wg d)[h := (k, Exited)]\<rparr>"
      by (rule worker_exitE)
    with idx [of h k] show ?thesis by (intro upd) (auto dest!: into)
  qed
qed

lemma serves_keeps:
  assumes "serves d es d'" and "pool_wf d"
  shows "pool_wf d' \<and> same_partitioning d d'"
  using assms
proof (induction rule: serves.induct)
  case (serves_cons e d d1 es d2)
  then show ?case
    using pool_exec_wf [OF serves_cons.prems serves_cons.hyps(1)] pool_exec_partitioning [OF serves_cons.hyps(1)]
    by (simp add: same_partitioning_def)
qed (simp add: same_partitioning_def)

lemma pool_exec_indices:
  assumes "pool_exec e d = Some d'"
  shows "map fst (d_wg d') = map fst (d_wg d) @ (if e = EvStart then [0..<nat (d_Concurrency d)] else [])"
proof -
  have upd: "map fst (xs[h := (k, g)]) = map fst xs" if "h < length xs" "fst (xs ! h) = k" for xs :: "(nat \<times> goroutine) list" and h k g
    using that by (metis fst_conv list_update_id map_update nth_map)
  show ?thesis
    by (cases e) (use assms in \<open>auto simp: Start_def close_stop_def comp_def upd elim!: worker_elims\<close>)
qed

lemma serves_indices:
  "serves d es d' \<Longrightarrow> pool_wf d \<Longrightarrow> map fst (d_wg d') =
    map fst (d_wg d) @ concat (replicate (count_list es EvStart) [0..<nat (d_Concurrency d)])"
proof (induction rule: serves.induct)
  case (serves_cons e d d1 es d2)
  have "pool_wf d1" "d_Concurrency d1 = d_Concurrency d"
    using pool_exec_wf [OF serves_cons.prems serves_cons.hyps(1)] pool_exec_partitioning [OF serves_cons.hyps(1)]
    by (simp_all add: same_partitioning_def)
  then show ?case
    using serves_cons.IH pool_exec_indices [OF serves_cons.hyps(1)] by simp
qed simp

lemma New_fields [simp]:
  "d_wg (New s e n ow t) = []" "d_Executor (New s e n ow t) = e" "d_stop (New s e n ow t) = False" "d_Store (New s e n ow t) = s"
  "length (d_partitions (New s e n ow t)) = nat (d_Concurrency (New s e n ow t))"
  by (simp_all add: New_def Let_def)

section \<open>Properties of the pool\<close>

text \<open>C20: one worker per transaction: in a pool that was started once, however submissions, receptions, ends of runs and
  the shutdown interleave, no two workers are busy with the same transaction, and the worker that is has the index of the
  transaction's partition.\<close>

theorem one_worker_per_transaction:
  assumes "serves (New s e n ow t) evs d" and "count_list evs EvStart \<le> 1"
    and "g < length (d_wg d)" "d_wg d ! g = (i, Busy x)" and "h < length (d_wg d)" "d_wg d ! h = (j, Busy x)"
  shows "g = h \<and> i = partitionOf d x"
proof -
  note wf = serves_keeps [OF assms(1) New_wf, THEN conjunct1]
  have ij: "partitionOf d x = i" "partitionOf d x = j" using pool_wfD(5) [OF wf] assms(3-6) by (metis nth_mem)+
  have "map fst (d_wg d) = [] \<or> map fst (d_wg d) = [0..<nat (d_Concurrency (New s e n ow t))]"
    using serves_indices [OF assms(1) New_wf] assms(2) by (cases "count_list evs EvStart") auto
  then have "distinct (map fst (d_wg d))" by (metis distinct.simps(1) distinct_upt)
  moreover have "map fst (d_wg d) ! g = map fst (d_wg d) ! h" using assms(3-6) ij by simp
  ultimately have "g = h" using assms(3,5) by (metis distinct_conv_nth length_map)
  with ij show ?thesis by simp
qed

definition demo_pool :: "(mem_store, Stub, unit) Dispatcher" where
  "demo_pool = New mem_ops demo_executor 1 ''pod-0'' 0"

definition demo_events :: "pool_event list" where
  "demo_events = [EvSubmit SendCase ''tx-1'', EvStart, EvRecv 0 0 ''tx-1'', EvSubmit SendCase ''tx-2'']"

definition demo_pool_after :: "(mem_store, Stub, unit) Dispatcher" where
  "demo_pool_after = demo_pool\<lparr>d_partitions := [\<lparr>ch_cap = 1, ch_buf = [''tx-2'']\<rparr>], d_wg := [(0, Busy ''tx-1'')]\<rparr>"

lemma demo_serves: "serves demo_pool demo_events demo_pool_after"
  by (simp add: demo_events_def demo_pool_after_def demo_pool_def serves_cons_iff New_def Let_def partitionOf_def chan_send_def
      make_chan_def Start_def worker_recv_def chan_recv_def)

theorem one_worker_per_transaction_witness:
  "d_wg demo_pool_after ! 0 = (0, Busy ''tx-1'') \<and> 0 = partitionOf demo_pool_after ''tx-1''"
  using one_worker_per_transaction [OF demo_serves [unfolded demo_pool_def], of 0 0 "''tx-1''" 0 0]
  by (simp add: demo_events_def demo_pool_after_def)

text \<open>Starting twice is not idempotent: it doubles the workers of every partition, and a transaction submitted twice can then
  run on two of them at once.\<close>

lemma start_twice_shares_a_transaction:
  "\<exists>d. serves demo_pool [EvStart, EvStart, EvSubmit SendCase ''tx-1'', EvRecv 0 0 ''tx-1'', EvSubmit SendCase ''tx-1'',
         EvRecv 1 0 ''tx-1''] d \<and>
     d_wg d = [(0, Busy ''tx-1''), (0, Busy ''tx-1'')]"
  by (simp add: demo_pool_def serves_cons_iff New_def Let_def partitionOf_def chan_send_def make_chan_def Start_def worker_recv_def
      chan_recv_def)

text \<open>The communications of partition \<open>i\<close> in a sequence of events.\<close>

fun partition_comms :: "(string \<Rightarrow> nat) \<Rightarrow> nat \<Rightarrow> pool_event list \<Rightarrow> string comm list" where
  "partition_comms p i [] = []"
| "partition_comms p i (EvSubmit SendCase x # es) = (if p x = i then [Sent x] else []) @ partition_comms p i es"
| "partition_comms p i (EvRecv g idx x # es) = (if idx = i then [Received x] else []) @ partition_comms p i es"
| "partition_comms p i (_ # es) = partition_comms p i es"

fun submitted :: "pool_event list \<Rightarrow> string list" where
  "submitted [] = []"
| "submitted (EvSubmit SendCase x # es) = x # submitted es"
| "submitted (_ # es) = submitted es"

fun received_on :: "nat \<Rightarrow> pool_event list \<Rightarrow> string list" where
  "received_on i [] = []"
| "received_on i (EvRecv g idx x # es) = (if idx = i then [x] else []) @ received_on i es"
| "received_on i (_ # es) = received_on i es"

lemma partition_comms_split:
  "sents (partition_comms p i es) = filter (\<lambda>x. p x = i) (submitted es)"
  "receiveds (partition_comms p i es) = received_on i es"
  by (induction es rule: submitted.induct) simp_all

lemma pool_exec_comms:
  assumes "pool_wf d" and ex: "pool_exec e d = Some d'" and i: "i < length (d_partitions d)"
  shows "comms chan_send chan_recv (partition_comms (partitionOf d) i [e]) (d_partitions d ! i) = Some (d_partitions d' ! i)"
proof (cases e)
  case (EvSubmit c x)
  with ex have "Submit c x d = Some d'" by simp
  then show ?thesis using EvSubmit i by (cases rule: SubmitE) (auto simp: nth_list_update)
next
  case (EvRecv g k x)
  with ex i show ?thesis by (cases "k = i") (auto elim!: worker_recvE)
qed (use ex in \<open>auto simp: Start_def close_stop_def elim!: worker_elims\<close>)

lemma comms_append: "comms send recv (xs @ ys) c = (case comms send recv xs c of None \<Rightarrow> None | Some c' \<Rightarrow> comms send recv ys c')"
  by (induction send recv xs c rule: comms.induct) (auto split: option.splits)

lemma partition_comms_Cons: "partition_comms p i (e # es) = partition_comms p i [e] @ partition_comms p i es"
  by (cases "(p, i, [e])" rule: partition_comms.cases) auto

lemma serves_comms:
  "serves d es d' \<Longrightarrow> pool_wf d \<Longrightarrow> i < length (d_partitions d) \<Longrightarrow>
   comms chan_send chan_recv (partition_comms (partitionOf d) i es) (d_partitions d ! i) = Some (d_partitions d' ! i)"
proof (induction rule: serves.induct)
  case (serves_cons e d d1 es d2)
  note keep = pool_exec_wf [OF serves_cons.prems(1) serves_cons.hyps(1)]
    pool_exec_partitioning [OF serves_cons.hyps(1), unfolded same_partitioning_def]
  then show ?case
    using pool_exec_comms [OF serves_cons.prems(1) serves_cons.hyps(1) serves_cons.prems(2)] serves_cons.IH serves_cons.prems(2)
    by (subst partition_comms_Cons) (simp add: comms_append)
qed simp

text \<open>Delivery is in order and complete: at every moment, the ids sent to a partition are those its workers have received, in
  that order, followed by those still in its channel; the channel never holds more than the concurrency of the pool.\<close>

theorem submissions_in_order:
  assumes "serves (New s e n ow t) evs d" and "i < length (d_partitions d)"
  shows "filter (\<lambda>x. partitionOf d x = i) (submitted evs) = received_on i evs @ ch_buf (d_partitions d ! i) \<and>
    int (length (ch_buf (d_partitions d ! i))) \<le> d_Concurrency d"
proof -
  let ?d = "New s e n ow t"
  have keep: "length (d_partitions d) = length (d_partitions ?d)" "d_Concurrency d = d_Concurrency ?d" "partitionOf d = partitionOf ?d"
    using serves_keeps [OF assms(1) New_wf] by (simp_all add: same_partitioning_def)
  have init: "ch_buf (d_partitions ?d ! i) = []" "int (ch_cap (d_partitions ?d ! i)) = d_Concurrency ?d"
    using assms(2) keep(1) by (auto simp: New_def Let_def make_chan_def split: if_splits)
  have c: "comms chan_send chan_recv (partition_comms (partitionOf ?d) i evs) (d_partitions ?d ! i) = Some (d_partitions d ! i)"
    using serves_comms [OF assms(1) New_wf] assms(2) keep(1) by simp
  from go_chan.in_order [OF c] go_chan.bounded [OF c] show ?thesis
    using init keep by (simp add: partition_comms_split)
qed

theorem submissions_in_order_witness:
  "received_on 0 demo_events @ ch_buf (d_partitions demo_pool_after ! 0) = [''tx-1'', ''tx-2'']"
  using submissions_in_order [OF demo_serves [unfolded demo_pool_def], of 0]
  by (simp add: demo_events_def demo_pool_after_def partitionOf_def)

section \<open>Recovery\<close>

text \<open>The channels after the given ids have been sent to their partitions.\<close>

definition loaded :: "string list \<Rightarrow> ('s, 'p, 'l) Dispatcher \<Rightarrow> string chan list" where
  "loaded xs d = map (\<lambda>i. (d_partitions d ! i)\<lparr>ch_buf := ch_buf (d_partitions d ! i) @ filter (\<lambda>x. partitionOf d x = i) xs\<rparr>)
     [0..<length (d_partitions d)]"

definition has_room :: "string list \<Rightarrow> ('s, 'p, 'l) Dispatcher \<Rightarrow> bool" where
  "has_room xs d \<longleftrightarrow> (\<forall>c \<in> set (loaded xs d). length (ch_buf c) \<le> ch_cap c)"

lemma loaded_nil: "loaded [] d = d_partitions d"
  by (simp add: loaded_def map_nth)

lemma Submit_open_eq:
  assumes "\<not> d_stop d" and "0 < length (d_partitions d)" and "has_room [] d"
  shows "Submit_open x d = (if has_room [x] d then Proceeds (d\<lparr>d_partitions := loaded [x] d\<rparr>) else Blocks)"
proof -
  let ?p = "partitionOf d x" and ?cs = "d_partitions d"
  have p: "?p < length ?cs" by (rule partitionOf_less [OF assms(2)])
  have upd: "?cs[?p := (?cs ! ?p)\<lparr>ch_buf := ch_buf (?cs ! ?p) @ [x]\<rparr>] = loaded [x] d"
    by (rule nth_equalityI) (auto simp: loaded_def nth_list_update)
  have "length (ch_buf (?cs ! ?p)) < ch_cap (?cs ! ?p) \<longleftrightarrow> has_room [x] d"
  proof
    assume lt: "length (ch_buf (?cs ! ?p)) < ch_cap (?cs ! ?p)"
    have "c \<in> set (loaded [x] d) \<Longrightarrow> length (ch_buf c) \<le> ch_cap c" for c
      using assms(3) lt upd [symmetric] set_update_subset_insert [of ?cs ?p] by (fastforce simp: has_room_def loaded_nil)
    then show "has_room [x] d" by (simp add: has_room_def)
  next
    assume "has_room [x] d"
    then have "length (ch_buf (loaded [x] d ! ?p)) \<le> ch_cap (loaded [x] d ! ?p)"
      using p unfolding has_room_def by (intro bspec [OF _ nth_mem]) (simp_all add: loaded_def)
    then show "length (ch_buf (?cs ! ?p)) < ch_cap (?cs ! ?p)" using p by (simp add: loaded_def)
  qed
  then show ?thesis using assms(1) upd by (simp add: Submit_open_def chan_send_def Let_def)
qed

lemma loaded_Cons:
  assumes "d1 = d\<lparr>d_partitions := loaded [x] d\<rparr>"
  shows "loaded xs d1 = loaded (x # xs) d"
proof -
  have "length (d_partitions d1) = length (d_partitions d)" "partitionOf d1 = partitionOf d"
    by (simp_all add: assms loaded_def partitionOf_def fun_eq_iff)
  then show ?thesis by (auto simp: loaded_def assms)
qed

lemma has_room_prefix: "has_room (xs @ ys) d \<Longrightarrow> has_room xs d"
  by (fastforce simp: has_room_def loaded_def)

lemma submit_all_eq:
  assumes "\<not> d_stop d" and "0 < length (d_partitions d)" and "has_room [] d"
  shows "submit_all xs d = (if has_room xs d then Proceeds (d\<lparr>d_partitions := loaded xs d\<rparr>) else Blocks)"
  using assms
proof (induction xs arbitrary: d)
  case Nil
  then show ?case by (simp add: loaded_nil)
next
  case (Cons x xs)
  let ?d = "d\<lparr>d_partitions := loaded [x] d\<rparr>"
  note load = loaded_Cons [OF refl, where d = d and x = x]
  have room: "has_room ys ?d \<longleftrightarrow> has_room (x # ys) d" for ys by (simp add: has_room_def load)
  show ?case
  proof (cases "has_room [x] d")
    case True
    then have "submit_all xs ?d = (if has_room xs ?d then Proceeds (?d\<lparr>d_partitions := loaded xs ?d\<rparr>) else Blocks)"
      using Cons.prems room [of "[]"] by (intro Cons.IH) (simp_all add: loaded_def)
    then show ?thesis using True Submit_open_eq [OF Cons.prems, of x] room load by simp
  next
    case False
    then have "\<not> has_room (x # xs) d" using has_room_prefix [of "[x]" xs d] by auto
    then show ?thesis using False Submit_open_eq [OF Cons.prems, of x] by simp
  qed
qed

text \<open>Recovery at startup enqueues every saga in flight on its partition, in the order of the scan, and returns exactly when no
  partition gets more ids than the concurrency of the pool: otherwise it blocks for ever, since no worker has been
  started.\<close>

theorem recover_capacity:
  fixes e :: "(mem_store, 'p, 'l) Executor"
  assumes "d = New mem_ops e n ow t" and "mem_ListInflightSagaIDs order db = Inr rows"
  shows "Recover order db d =
    (if \<forall>i < length (d_partitions d). int (length (filter (\<lambda>x. partitionOf d x = i) rows)) \<le> d_Concurrency d
     then Proceeds (None, d\<lparr>d_partitions := map (\<lambda>i. \<lparr>ch_cap = nat (d_Concurrency d),
            ch_buf = filter (\<lambda>x. partitionOf d x = i) rows\<rparr>) [0..<length (d_partitions d)]\<rparr>)
     else Blocks)"
proof -
  have load: "loaded xs d = map (\<lambda>i. \<lparr>ch_cap = nat (d_Concurrency d), ch_buf = filter (\<lambda>x. partitionOf d x = i) xs\<rparr>)
      [0..<length (d_partitions d)]" for xs
    unfolding loaded_def by (rule map_cong [OF refl]) (auto simp: assms(1) New_def Let_def make_chan_def)
  have c: "0 < d_Concurrency d" by (simp add: assms(1) New_def Let_def)
  have room: "has_room xs d \<longleftrightarrow> (\<forall>i < length (d_partitions d). int (length (filter (\<lambda>x. partitionOf d x = i) xs)) \<le> d_Concurrency d)" for xs
    using c by (fastforce simp: has_room_def load nat_le_iff le_nat_iff)
  have "submit_all rows d = (if has_room rows d then Proceeds (d\<lparr>d_partitions := loaded rows d\<rparr>) else Blocks)"
    using c by (intro submit_all_eq) (simp_all add: assms(1) room [of "[]", unfolded assms(1)])
  moreover have "op_ListInflightSagaIDs (d_Store d) order db = Inr rows" using assms by simp
  ultimately show ?thesis by (simp add: Recover_def room load)
qed

theorem recover_capacity_witness:
  "Recover [''tx-1''] demo_db demo_pool = Proceeds (None, demo_pool\<lparr>d_partitions := [\<lparr>ch_cap = 1, ch_buf = [''tx-1'']\<rparr>]\<rparr>)"
proof -
  have "mem_ListInflightSagaIDs [''tx-1''] demo_db = Inr [''tx-1'']"
    by (simp add: mem_ListInflightSagaIDs_def demo_db_def demo_saga_def Terminal_def)
  from recover_capacity [OF refl this, of demo_executor 1 "''pod-0''" 0] show ?thesis
    by (simp add: demo_pool_def New_def Let_def partitionOf_def)
qed

text \<open>Running one saga leaves the others ready, and itself terminal.\<close>

lemma ready_frame:
  assumes "tx_frame a T T'" and "b \<noteq> a" and "ready b T"
  shows "ready b T'" and "ms_sagas T' b = ms_sagas T b"
proof -
  have eq: "ms_txs T' b = ms_txs T b" "ms_sagas T' b = ms_sagas T b" "ms_steps T' b = ms_steps T b"
    using assms(1,2) by (auto simp: tx_frame_def)
  then have "unsucceeded b st k T' = unsucceeded b st k T" for st k by (simp add: unsucceeded_def row_at_def)
  with eq assms(3) show "ready b T'" by (simp add: ready_def stored_def synced_def)
  show "ms_sagas T' b = ms_sagas T b" by (rule eq)
qed

definition finished :: "string \<Rightarrow> mem_store \<Rightarrow> bool" where
  "finished txID T \<longleftrightarrow> (\<exists>sg. ms_sagas T txID = Some sg \<and> Terminal (sg_State sg))"

definition recovers :: "runtime \<Rightarrow> nat \<Rightarrow> nat \<Rightarrow> (mem_store, 'p, 'l) Executor \<Rightarrow> bool" where
  "recovers rt pf fuel e \<longleftrightarrow> runs_steps rt pf e \<and> ex_Store e = mem_ops \<and> 7 \<le> fuel"

lemma worker_job_finishes:
  fixes d :: "(mem_store, 'p, 'l) Dispatcher"
  assumes "recovers rt pf fuel (d_Executor d)" and "ready x (w_db w)" and "w' = worker_job rt d pf fuel x w"
  shows "tx_frame x (w_db w) (w_db w')" "finished x (w_db w')" "ready x (w_db w')"
proof -
  have sync: "synced x (w_db w)" using assms(2) by (auto simp: ready_def stored_def)
  have safe: "safe_step x (w_db w) (w_db w')"
    using mem.Run_safe [OF _ sync, of "d_Executor d"] assms(1,3) by (simp add: worker_job_def recovers_def)
  then show "tx_frame x (w_db w) (w_db w')" by (simp add: safe_step_def)
  obtain r w1 where "Run rt (d_Executor d) pf x (d_Owner d) fuel w = (Returned r, w1)" "ended x r (w_db w1)"
    using mem.Run_ends [of "d_Executor d" rt pf x w fuel "d_Owner d"] assms(1,2) steps_left_le [of x "w_db w"]
    by (auto simp: recovers_def)
  then show fin: "finished x (w_db w')" using assms(3) by (auto simp: worker_job_def finished_def ended_def)
  have "synced x (w_db w')" by (rule safe_step_synced [OF safe])
  with fin show "ready x (w_db w')" by (auto simp: ready_def stored_def synced_def finished_def)
qed

lemma worker_jobs_finish:
  fixes d :: "(mem_store, 'p, 'l) Dispatcher"
  assumes "recovers rt pf fuel (d_Executor d)" and "\<forall>x \<in> set ids. ready x (w_db w)" and "\<forall>x \<in> D. finished x (w_db w) \<and> ready x (w_db w)"
    and "w' = fold (worker_job rt d pf fuel) ids w"
  shows "(\<forall>x \<in> D \<union> set ids. finished x (w_db w')) \<and> (\<forall>x. x \<notin> set ids \<longrightarrow> ms_sagas (w_db w') x = ms_sagas (w_db w) x)"
  using assms(2-4)
proof (induction ids arbitrary: w D)
  case (Cons x ids)
  let ?w = "worker_job rt d pf fuel x w"
  have rx: "ready x (w_db w)" using Cons.prems(1) by simp
  note job = worker_job_finishes [OF assms(1) rx refl]
  note other = ready_frame [OF job(1)]
  have r: "ready y (w_db ?w)" if "ready y (w_db w)" for y using that other(1) job(3) by (cases "y = x") auto
  have f: "finished y (w_db ?w)" if "finished y (w_db w)" "ready y (w_db w)" for y
    using that other(2) job(2) by (cases "y = x") (auto simp: finished_def)
  have "\<forall>y \<in> insert x D. finished y (w_db ?w) \<and> ready y (w_db ?w)"
    using Cons.prems(2) r f job(2,3) by auto
  from Cons.IH [OF _ this] Cons.prems(1,3) r show ?case
    using job(1) by (auto simp: tx_frame_def)
qed simp



section \<open>Operator control\<close>

text \<open>An operator's compensation: a saga that is not terminal and stands at a registered step is compensated from that step and ends
  in \<open>FAILED_COMPENSATED\<close>, or in \<open>FAILED\<close> with the error of the first compensation that failed; a terminal saga is refused and
  nothing changes. Other transactions are untouched.\<close>

theorem compensate_ends_saga:
  fixes w :: "(mem_store, 'p, 'l) world" and c :: "(mem_store, 'p, 'l) Control"
  assumes "ex_Store (ctl_Executor c) = mem_ops" and "map Name (ex_Steps (ctl_Executor c)) = StepOrder" and "stored txID tx sg (w_db w)"
    and "sg_CurrentStep sg \<in> set StepOrder" and "Control_Compensate rt c txID w = (r, w')"
  shows "if Terminal (sg_State sg) then r \<noteq> None \<and> w' = w
    else safe_step txID (w_db w) (w_db w') \<and>
      (\<exists>sg'. ms_sagas (w_db w') txID = Some sg' \<and> sg_State sg' = (if r = None then StateFailedCompensated else StateFailed))"
proof (cases "Terminal (sg_State sg)")
  case True
  then show ?thesis using assms(1,3,5)
    by (auto simp: Control_Compensate_def mem_LoadSagaState_def stored_def Let_def split: if_splits)
next
  case False
  obtain st where st: "StepByName (ctl_Executor c) (sg_CurrentStep sg) = Some st" "Name st = sg_CurrentStep sg" "st \<in> set (ex_Steps (ctl_Executor c))"
    using StepByName_found [of "sg_CurrentStep sg" "ctl_Executor c"] assms(2,4) by auto
  have run: "compensateCascade rt (ctl_Executor c) txID (sg_CurrentStep sg) w = (r, w')"
    using assms(1,3,5) False st(1,2)
    by (auto simp: Control_Compensate_def CompensateCascade_def mem_LoadSagaState_def stored_def Terminal_iff IsFailure_def)
  obtain i where i: "index_of_step (sg_CurrentStep sg) (ex_Steps (ctl_Executor c)) = Some i"
    using index_of_step_found st(2,3) by (metis imageI)
  have "safe_step txID (w_db w) (w_db w')"
    using mem.compensateCascade_safe [OF assms(1,3) False] run by (metis snd_conv)
  with mem.compensateCascade_terminal [OF assms(1) _ i run] assms(3) False show ?thesis by simp
qed

theorem compensate_ends_saga_witness:
  "\<exists>sg'. ms_sagas (w_db (snd (Control_Compensate demo_rt \<lparr>ctl_Dispatcher = demo_pool, ctl_Executor = demo_executor\<rparr> ''tx-1'' demo_world))) ''tx-1'' = Some sg' \<and>
     sg_State sg' \<in> {StateFailedCompensated, StateFailed}"
proof -
  let ?c = "\<lparr>ctl_Dispatcher = demo_pool, ctl_Executor = demo_executor\<rparr>"
  obtain r w' where run: "Control_Compensate demo_rt ?c ''tx-1'' demo_world = (r, w')" by (metis surj_pair)
  have "ex_Store (ctl_Executor ?c) = mem_ops" "map Name (ex_Steps (ctl_Executor ?c)) = StepOrder"
    "sg_CurrentStep demo_saga \<in> set StepOrder" "stored ''tx-1'' demo_tx demo_saga (w_db demo_world)"
    using demo_stored by (simp_all add: demo_executor_def NewExecutor_def StepOrder_def demo_saga_def demo_world_def)
  from compensate_ends_saga [OF this(1,2,4,3) run] run show ?thesis
    by (auto simp: demo_saga_def Terminal_def split: if_splits)
qed

text \<open>An operator's retry: a terminal saga is refused, a missing one reports the store's error, and any other is sent to its
  partition, behind what waits there; only a full partition of a running pool makes the call wait.\<close>

theorem retry_enqueues:
  fixes c :: "(mem_store, 'p, 'l) Control"
  assumes "ex_Store (ctl_Executor c) = mem_ops" and "\<not> d_stop (ctl_Dispatcher c)" and "d = ctl_Dispatcher c" and "p = partitionOf d txID"
  shows "case ms_sagas db txID of
      None \<Rightarrow> \<exists>err. Retry c txID step db = Proceeds (Some err, c) \<and> errors_is err ErrNotFound
    | Some sg \<Rightarrow>
        if Terminal (sg_State sg) then \<exists>err. Retry c txID step db = Proceeds (Some err, c)
        else if length (ch_buf (d_partitions d ! p)) < ch_cap (d_partitions d ! p)
        then Retry c txID step db = Proceeds (None, c\<lparr>ctl_Dispatcher := d\<lparr>d_partitions :=
               (d_partitions d)[p := (d_partitions d ! p)\<lparr>ch_buf := ch_buf (d_partitions d ! p) @ [txID]\<rparr>]\<rparr>\<rparr>)
        else Retry c txID step db = Blocks"
  using assms by (simp add: Retry_def mem_LoadSagaState_def Submit_open_def Let_def chan_send_def split: option.splits)

theorem retry_enqueues_witness:
  "Retry \<lparr>ctl_Dispatcher = demo_pool, ctl_Executor = demo_executor\<rparr> ''tx-1'' StepPolicy demo_db =
     Proceeds (None, \<lparr>ctl_Dispatcher = demo_pool\<lparr>d_partitions := [\<lparr>ch_cap = 1, ch_buf = [''tx-1'']\<rparr>]\<rparr>, ctl_Executor = demo_executor\<rparr>)"
  using retry_enqueues [of "\<lparr>ctl_Dispatcher = demo_pool, ctl_Executor = demo_executor\<rparr>" demo_pool 0 "''tx-1''" StepPolicy demo_db]
  by (simp add: demo_executor_def demo_pool_def demo_db_def demo_saga_def Terminal_def New_def Let_def make_chan_def partitionOf_def)

end
