(* ===== verification/Config_Load.thy ===== *)
theory Config_Load
  imports Worker Go_Strings
begin

text \<open>
  The configuration from the environment, \<open>internal/config/config.go\<close>, and what \<open>cmd/orchestrator/main.go\<close> makes of it for
  the executor. The environment is a map from names to values.
\<close>

section \<open>Reading the environment\<close>

type_synonym environment = "string \<Rightarrow> string option"

definition os_Getenv :: "environment \<Rightarrow> string \<Rightarrow> string" where
  "os_Getenv env k = (case env k of None \<Rightarrow> '''' | Some v \<Rightarrow> v)"

definition getenv :: "environment \<Rightarrow> string \<Rightarrow> string \<Rightarrow> string" where
  "getenv env k def = (case env k of Some v \<Rightarrow> if v \<noteq> '''' then v else def | None \<Rightarrow> def)"

definition getenvInt :: "environment \<Rightarrow> string \<Rightarrow> int \<Rightarrow> int" where
  "getenvInt env k def =
     (case env k of
        Some v \<Rightarrow> if v \<noteq> '''' then (case Atoi v of Some n \<Rightarrow> n | None \<Rightarrow> def) else def
      | None \<Rightarrow> def)"

section \<open>Config\<close>

record AppConfig =
  Port :: string
  GRPCPort :: string
  DBURL :: string
  RedisURL :: string
  PolicyURL :: string
  PaymentURL :: string
  KytURL :: string
  MpcURL :: string
  BlockchainURL :: string
  LedgerURL :: string
  StepTimeoutSeconds :: int
  StepTimeoutPolicySeconds :: int
  StepTimeoutPaymentSeconds :: int
  StepTimeoutKytSeconds :: int
  StepTimeoutMpcSeconds :: int
  StepTimeoutBroadcastSeconds :: int
  StepTimeoutLedgerSeconds :: int
  MaxRetries :: int
  RetryBaseBackoffMS :: int
  RetryMaxBackoffMS :: int
  EventBusURL :: string
  OutboxPollIntervalMS :: int
  OutboxBatchSize :: int
  WorkerConcurrency :: int
  LeaseTTLOffset :: int
  LogLevel :: string

text \<open>A product of durations, at 64 bits.\<close>

definition duration :: "int \<Rightarrow> int \<Rightarrow> int" where
  "duration n unit_ns = wrap64 (n * unit_ns)"

definition load_config :: "environment \<Rightarrow> AppConfig" where
  "load_config env = \<lparr>
     Port = getenv env ''PORT'' ''8080'',
     GRPCPort = getenv env ''GRPC_PORT'' ''9090'',
     DBURL = os_Getenv env ''DB_URL'',
     RedisURL = os_Getenv env ''REDIS_URL'',
     PolicyURL = os_Getenv env ''POLICY_URL'',
     PaymentURL = os_Getenv env ''PAYMENT_URL'',
     KytURL = os_Getenv env ''KYT_URL'',
     MpcURL = os_Getenv env ''MPC_URL'',
     BlockchainURL = os_Getenv env ''BLOCKCHAIN_URL'',
     LedgerURL = os_Getenv env ''LEDGER_URL'',
     StepTimeoutSeconds = getenvInt env ''STEP_TIMEOUT_SECONDS'' 30,
     StepTimeoutPolicySeconds = getenvInt env ''STEP_TIMEOUT_POLICY_SECONDS'' 5,
     StepTimeoutPaymentSeconds = getenvInt env ''STEP_TIMEOUT_PAYMENT_SECONDS'' 30,
     StepTimeoutKytSeconds = getenvInt env ''STEP_TIMEOUT_KYT_SECONDS'' 15,
     StepTimeoutMpcSeconds = getenvInt env ''STEP_TIMEOUT_MPC_SECONDS'' 20,
     StepTimeoutBroadcastSeconds = getenvInt env ''STEP_TIMEOUT_BROADCAST_SECONDS'' 30,
     StepTimeoutLedgerSeconds = getenvInt env ''STEP_TIMEOUT_LEDGER_SECONDS'' 10,
     MaxRetries = getenvInt env ''MAX_RETRIES'' 5,
     RetryBaseBackoffMS = getenvInt env ''RETRY_BASE_BACKOFF_MS'' 200,
     RetryMaxBackoffMS = getenvInt env ''RETRY_MAX_BACKOFF_MS'' 10000,
     EventBusURL = os_Getenv env ''EVENT_BUS_URL'',
     OutboxPollIntervalMS = getenvInt env ''OUTBOX_POLL_INTERVAL_MS'' 100,
     OutboxBatchSize = getenvInt env ''OUTBOX_BATCH_SIZE'' 100,
     WorkerConcurrency = getenvInt env ''WORKER_CONCURRENCY'' 256,
     LeaseTTLOffset = duration (getenvInt env ''LEASE_TTL_SECONDS'' 30) second,
     LogLevel = to_lower (getenv env ''LOG_LEVEL'' ''info'')\<rparr>"

text \<open>\<open>Load\<close>: the configuration is returned beside the error.\<close>

definition Load :: "environment \<Rightarrow> AppConfig \<times> go_error option" where
  "Load env =
     (let c = load_config env;
          missing = (if EventBusURL c = '''' then [''EVENT_BUS_URL''] else [])
      in if missing \<noteq> []
         then (c, Some (errorf_wrap_head (Sentinel ErrRequired) (strings_Join '', '' missing)))
         else (c, None))"

definition StepTimeout :: "AppConfig \<Rightarrow> string \<Rightarrow> int" where
  "StepTimeout c step =
     (if step = ''POLICY'' then duration (StepTimeoutPolicySeconds c) second
      else if step = ''PAYMENT'' then duration (StepTimeoutPaymentSeconds c) second
      else if step = ''KYT'' then duration (StepTimeoutKytSeconds c) second
      else if step = ''MPC_SIGN'' then duration (StepTimeoutMpcSeconds c) second
      else if step = ''BROADCAST'' then duration (StepTimeoutBroadcastSeconds c) second
      else if step = ''LEDGER'' then duration (StepTimeoutLedgerSeconds c) second
      else duration (StepTimeoutSeconds c) second)"

text \<open>\<open>execCfg\<close> of \<open>run\<close> in \<open>main.go\<close>.\<close>

definition exec_config :: "AppConfig \<Rightarrow> Config" where
  "exec_config c = \<lparr>cfg_MaxRetries = MaxRetries c,
     cfg_BaseBackoff = duration (RetryBaseBackoffMS c) millisecond,
     cfg_MaxBackoff = duration (RetryMaxBackoffMS c) millisecond,
     cfg_StepTimeout = StepTimeout c\<rparr>"



section \<open>Properties of the configuration\<close>

lemma wrap64_even: "even x \<Longrightarrow> even (wrap64 x)"
  by (simp add: wrap64_def dvd_mod)

lemma exec_config_sane: "sane_backoff (exec_config c)"
proof -
  have "even (duration n millisecond)" for n by (simp add: duration_def wrap64_even)
  then show ?thesis by (auto simp: sane_backoff_def exec_config_def dest: arg_cong [where f = even])
qed

text \<open>No environment makes the executor panic in a backoff: whatever the variables hold, with overflow of the
  durations included, the delay of every attempt is defined.\<close>

theorem configured_backoff_total: "backoff (exec_config (fst (Load env))) attempt rnd \<noteq> None"
  by (rule backoff_sane [OF exec_config_sane])

text \<open>The variable of the timeout of a step.\<close>

primrec timeout_var :: "Step \<Rightarrow> string" where
  "timeout_var StepPolicy = ''STEP_TIMEOUT_POLICY_SECONDS''"
| "timeout_var StepPayment = ''STEP_TIMEOUT_PAYMENT_SECONDS''"
| "timeout_var StepKyt = ''STEP_TIMEOUT_KYT_SECONDS''"
| "timeout_var StepMpcSign = ''STEP_TIMEOUT_MPC_SECONDS''"
| "timeout_var StepBroadcast = ''STEP_TIMEOUT_BROADCAST_SECONDS''"
| "timeout_var StepLedger = ''STEP_TIMEOUT_LEDGER_SECONDS''"
| "timeout_var (StepOther s) = ''STEP_TIMEOUT_SECONDS''"

lemma fmt_d_nonempty: "fmt_d n \<noteq> ''''"
  by (simp add: fmt_d_def digits_nonempty)

lemma getenvInt_upd:
  "- (2 ^ 63) \<le> n \<Longrightarrow> n < 2 ^ 63 \<Longrightarrow> getenvInt (env(k \<mapsto> fmt_d n)) k' def = (if k' = k then n else getenvInt env k' def)"
  by (simp add: getenvInt_def Atoi_fmt_d fmt_d_nonempty)

lemma duration_seconds:
  assumes "- 9223372036 \<le> n" "n \<le> 9223372036"
  shows "duration n second = n * second"
  unfolding duration_def using assms by (intro wrap64_id) simp_all

lemma fst_Load: "fst (Load env) = load_config env"
  by (simp add: Load_def Let_def)

lemma exec_timeout:
  assumes "st \<in> set StepOrder"
  obtains d where "\<And>env. cfg_StepTimeout (exec_config (fst (Load env))) (step_string st) = duration (getenvInt env (timeout_var st) d) second"
proof -
  have "\<exists>d. \<forall>env. StepTimeout (load_config env) (step_string st) = duration (getenvInt env (timeout_var st) d) second"
    using assms by (cases st) (auto simp: StepOrder_def StepTimeout_def load_config_def)
  with that show thesis by (auto simp: fst_Load exec_config_def)
qed

lemma timeout_var_inj: "st \<in> set StepOrder \<Longrightarrow> st' \<in> set StepOrder \<Longrightarrow> timeout_var st' = timeout_var st \<longleftrightarrow> st' = st"
  by (cases st; cases st') (simp_all add: StepOrder_def)

text \<open>Every step has its own timeout: setting the variable of one of the six steps to the decimal form of a number
  of seconds gives that step exactly this timeout and changes the timeout of no other step.\<close>

theorem step_timeout_roundtrip:
  assumes "st \<in> set StepOrder" and "st' \<in> set StepOrder" and "- 9223372036 \<le> n" "n \<le> 9223372036"
  shows "cfg_StepTimeout (exec_config (fst (Load (env(timeout_var st \<mapsto> fmt_d n))))) (step_string st') =
    (if st' = st then n * second else cfg_StepTimeout (exec_config (fst (Load env))) (step_string st'))"
proof -
  have n: "n < 2 ^ 63" "- (2 ^ 63) \<le> n" using assms(3,4) by simp_all
  obtain d where "\<And>env. cfg_StepTimeout (exec_config (fst (Load env))) (step_string st') = duration (getenvInt env (timeout_var st') d) second"
    using exec_timeout [OF assms(2)] by blast
  then show ?thesis using getenvInt_upd [OF n(2,1)] duration_seconds [OF assms(3,4)] timeout_var_inj [OF assms(1,2)] by simp
qed

theorem step_timeout_roundtrip_witness:
  "cfg_StepTimeout (exec_config (fst (Load (Map.empty(timeout_var StepKyt \<mapsto> fmt_d 7))))) ''KYT'' = 7 * second"
  using step_timeout_roundtrip [of StepKyt StepKyt 7 Map.empty] by (simp add: StepOrder_def)

text \<open>The only required variable is the event bus: \<open>Load\<close> fails, with \<open>ErrRequired\<close>, exactly when
  \<open>EVENT_BUS_URL\<close> is unset or empty.\<close>

theorem Load_fails_iff:
  "case Load env of (c, err) \<Rightarrow>
     (err = None \<longleftrightarrow> (\<exists>v. env ''EVENT_BUS_URL'' = Some v \<and> v \<noteq> '''')) \<and>
     (case err of None \<Rightarrow> True | Some e \<Rightarrow> errors_is e ErrRequired)"
proof -
  have "EventBusURL (load_config env) = os_Getenv env ''EVENT_BUS_URL''" by (simp add: load_config_def)
  then show ?thesis by (cases "env ''EVENT_BUS_URL''") (simp_all add: Load_def os_Getenv_def Let_def)
qed

end
