(* ===== verification/Compensation.thy ===== *)
theory Compensation
  imports Executor_Properties
begin

text \<open>
  The compensation cascade: what it does to the partners as a short specification that does
  not mention the store, that \<open>compensateCascade\<close> implements it, the step rows it leaves, and
  what it means for a captured payment.
\<close>

section \<open>Specification\<close>

text \<open>Compensate each step in turn, stop at the first error and return it.\<close>

primrec compensate_in_order ::
  "'p SagaContext \<Rightarrow> 'p step_impl list \<Rightarrow> 'p net \<Rightarrow> go_error option \<times> 'p net"
where
  "compensate_in_order sc [] n = (None, n)"
| "compensate_in_order sc (step # rest) n =
     (case Compensate step sc n of
        (Inl err, n') \<Rightarrow> (Some err, n')
      | (Inr _, n') \<Rightarrow> compensate_in_order sc rest n')"

lemma cascade_loop_refines:
  "fst (cascade_loop ops txID sc steps w) = fst (compensate_in_order sc steps (w_net w)) \<and>
   w_net (snd (cascade_loop ops txID sc steps w)) = snd (compensate_in_order sc steps (w_net w))"
proof (induction steps arbitrary: w)
  case Nil
  then show ?case by (simp add: cascade_loop.simps)
next
  case (Cons step rest)
  let ?w1 = "snd (on_db (RunInTx ops (mark_compensating ops txID (Name step))) w)"
  obtain r n' where c: "Compensate step sc (w_net w) = (r, n')" by (metis surj_pair)
  then have "on_net (Compensate step sc) ?w1 = (r, ?w1\<lparr>w_net := n'\<rparr>)" by (simp add: on_net_def)
  with c Cons show ?case by (cases r) (simp_all add: cascade_loop.simps Let_def)
qed

lemma index_of_step_nth:
  "index_of_step st steps = Some i \<Longrightarrow> i < length steps \<and> Name (steps ! i) = st"
  by (induction steps arbitrary: i) (auto split: if_splits)

section \<open>Properties\<close>

text \<open>C19: the cascade compensates the registered steps one by one from the failed step back to the first,
  stops at the first compensation that fails, returns its error, and asks nothing else of the
  partners; the store has no influence on this.\<close>

theorem cascade_reverse_order:
  assumes "ex_Store e = mem_ops" and "ms_txs (w_db w) txID = Some tx" and "ms_sagas (w_db w) txID = Some sg"
    and "index_of_step failed (ex_Steps e) = Some i"
    and "compensateCascade rt e txID failed w = (r, w')"
    and "compensate_in_order \<lparr>sc_Tx = tx, sc_Saga = sg, sc_Attempt = 1, sc_Partners = ex_Clients e\<rparr>
        (rev (take (Suc i) (ex_Steps e))) (w_net w) = (r', n')"
  shows "r = r' \<and> net_peers (w_net w') = net_peers n' \<and> Name (ex_Steps e ! i) = failed"
proof -
  let ?sc = "\<lparr>sc_Tx = tx, sc_Saga = sg, sc_Attempt = 1, sc_Partners = ex_Clients e\<rparr>"
  let ?steps = "rev (take (Suc i) (ex_Steps e))"
  obtain ce w1 where w1: "cascade_loop mem_ops txID ?sc ?steps w = (ce, w1)" by (metis surj_pair)
  then have c: "ce = r'" "w_net w1 = n'"
    using cascade_loop_refines [of mem_ops txID ?sc ?steps w] assms(6) by simp_all
  obtain clk ids w2 where w2: "w_stamp rt w1 = ((clk, ids), w2)" by (metis surj_pair)
  then have "net_peers (w_net w2) = net_peers n'" using w_stamp_db(3) [of rt w1] c by simp
  with assms(1-5) w1 w2 c index_of_step_nth [OF assms(4)] show ?thesis
    by (auto simp: compensateCascade_def mem_LoadSagaState_def mem_LoadTx_def Let_def on_db_def split: prod.splits)
qed

definition captured_saga :: SagaState where
  "captured_saga = demo_saga\<lparr>sg_State := StatePaymentCaptured, sg_CurrentStep := StepKyt,
     sg_Payload := [''auth_id'' \<mapsto> AStr ''auth-tx-1'', ''capture_id'' \<mapsto> AStr ''cap-tx-1'']\<rparr>"

definition captured_world :: "(mem_store, Stub, unit) world" where
  "captured_world = demo_world\<lparr>w_db := demo_db\<lparr>ms_txs := [''tx-1'' \<mapsto> demo_tx\<lparr>tx_Status := StatePaymentCaptured\<rparr>],
     ms_sagas := [''tx-1'' \<mapsto> captured_saga]\<rparr>\<rparr>"

lemma captured_stored: "stored ''tx-1'' (demo_tx\<lparr>tx_Status := StatePaymentCaptured\<rparr>) captured_saga (w_db captured_world)"
  using demo_stored by (auto simp: stored_def synced_def captured_world_def captured_saga_def demo_saga_def)

lemma demo_index: "index_of_step StepKyt (ex_Steps demo_executor) = Some 2"
  by (simp add: demo_executor_def NewExecutor_def)

theorem cascade_reverse_order_witness:
  "fst (compensateCascade demo_rt demo_executor ''tx-1'' StepKyt captured_world) =
   fst (compensate_in_order \<lparr>sc_Tx = demo_tx\<lparr>tx_Status := StatePaymentCaptured\<rparr>, sc_Saga = captured_saga, sc_Attempt = 1,
       sc_Partners = ex_Clients demo_executor\<rparr> (rev (take 3 (ex_Steps demo_executor))) (w_net captured_world))"
proof -
  let ?sc = "\<lparr>sc_Tx = demo_tx\<lparr>tx_Status := StatePaymentCaptured\<rparr>, sc_Saga = captured_saga, sc_Attempt = 1,
       sc_Partners = ex_Clients demo_executor\<rparr>"
  obtain r w' where r: "compensateCascade demo_rt demo_executor ''tx-1'' StepKyt captured_world = (r, w')" by (metis surj_pair)
  obtain r' n' where r': "compensate_in_order ?sc (rev (take (Suc 2) (ex_Steps demo_executor))) (w_net captured_world) = (r', n')"
    by (metis surj_pair)
  have "r = r'"
    using cascade_reverse_order [OF _ _ _ demo_index r r'] captured_stored by (simp add: stored_def demo_executor_def)
  with r r' show ?thesis by (simp add: eval_nat_numeral)
qed

text \<open>The six registered steps: only the payment and the broadcast act when they are compensated.\<close>

definition after_broadcast_compensation ::
  "runtime \<Rightarrow> Step \<Rightarrow> 'p SagaContext \<Rightarrow> 'p net \<Rightarrow> 'p net" where
  "after_broadcast_compensation rt failed sc n =
     (if failed \<in> {StepBroadcast, StepLedger} then snd (BroadcastStep_Compensate rt sc n) else n)"

lemma BroadcastStep_Compensate_ok: "fst (BroadcastStep_Compensate rt sc n) = Inr ()"
  by (simp add: BroadcastStep_Compensate_def Let_def split: option.splits prod.splits)

lemma registered_compensation:
  assumes "failed \<in> set StepOrder - {StepPolicy}"
  obtains i where "index_of_step failed (ex_Steps (NewExecutor rt s c cfg)) = Some i"
    "compensate_in_order sc (rev (take (Suc i) (ex_Steps (NewExecutor rt s c cfg)))) n =
       (case PaymentStep_Compensate (cl_Payment c) sc (after_broadcast_compensation rt failed sc n) of
          (Inl er, n') \<Rightarrow> (Some er, n') | (Inr _, n') \<Rightarrow> (None, n'))"
proof -
  obtain n1 where b: "BroadcastStep_Compensate rt sc n = (Inr (), n1)"
    by (metis BroadcastStep_Compensate_ok prod.collapse)
  note defs = NewExecutor_def NewPolicyStep_def NewPaymentStep_def NewKytStep_def NewMpcSignStep_def
    NewBroadcastStep_def NewLedgerStep_def PolicyStep_Compensate_def KytStep_Compensate_def
    MpcSignStep_Compensate_def LedgerStep_Compensate_def okE_def after_broadcast_compensation_def
  from assms consider "failed = StepPayment" | "failed = StepKyt" | "failed = StepMpcSign"
    | "failed = StepBroadcast" | "failed = StepLedger" by (auto simp: StepOrder_def)
  then show thesis
  proof cases
    case 1
    then show ?thesis by (intro that [of 1]) (simp_all add: defs split: prod.splits sum.splits)
  next
    case 2
    then show ?thesis by (intro that [of 2]) (simp_all add: defs split: prod.splits sum.splits)
  next
    case 3
    then show ?thesis by (intro that [of 3]) (simp_all add: defs split: prod.splits sum.splits)
  next
    case 4
    then show ?thesis using b by (intro that [of 4]) (simp_all add: defs split: prod.splits sum.splits)
  next
    case 5
    then show ?thesis using b by (intro that [of 5]) (simp_all add: defs split: prod.splits sum.splits)
  qed
qed

text \<open>The money goes back: whenever a step after the policy step fails for good, the cascade asks the
  payment service to refund the captured payment (or void the authorisation) recorded in the saga,
  after recording an in-flight broadcast with the audit service, and asks no other partner anything. The saga ends
  \<open>FAILED_COMPENSATED\<close> exactly when the payment service agrees and \<open>FAILED\<close> otherwise. A failure of
  the ledger step is no exception, although the broadcast is confirmed by then.\<close>

theorem cascade_refunds:
  fixes w :: "(mem_store, 'p, 'l) world"
  assumes "stored txID tx sg (w_db w)" and "failed \<in> set StepOrder - {StepPolicy}"
    and "compensateCascade rt (NewExecutor rt mem_ops c cfg) txID failed w = (r, w')"
    and "sc = \<lparr>sc_Tx = tx, sc_Saga = sg, sc_Attempt = 1, sc_Partners = Some c\<rparr>"
    and "PaymentStep_Compensate (cl_Payment c) sc (after_broadcast_compensation rt failed sc (w_net w)) = (paid, n')"
  shows "net_peers (w_net w') = net_peers n' \<and> (r = None \<longleftrightarrow> paid = Inr ()) \<and>
    (\<exists>sg'. ms_sagas (w_db w') txID = Some sg' \<and>
       sg_State sg' = (if paid = Inr () then StateFailedCompensated else StateFailed))"
proof -
  let ?e = "NewExecutor rt mem_ops c cfg :: (mem_store, 'p, 'l) Executor"
  have cl: "ex_Clients ?e = Some c" by (simp add: NewExecutor_def)
  obtain i where i: "index_of_step failed (ex_Steps ?e) = Some i"
    "compensate_in_order sc (rev (take (Suc i) (ex_Steps ?e))) (w_net w) =
       (case PaymentStep_Compensate (cl_Payment c) sc (after_broadcast_compensation rt failed sc (w_net w)) of
          (Inl er, n') \<Rightarrow> (Some er, n') | (Inr _, n') \<Rightarrow> (None, n'))"
    using registered_compensation [OF assms(2), of rt mem_ops c cfg sc "w_net w"] by blast
  then have comp: "compensate_in_order sc (rev (take (Suc i) (ex_Steps ?e))) (w_net w) =
      (case paid of Inl er \<Rightarrow> Some er | Inr _ \<Rightarrow> None, n')"
    using assms(5) by (cases paid) simp_all
  have r: "r = (case paid of Inl er \<Rightarrow> Some er | Inr _ \<Rightarrow> None)" "net_peers (w_net w') = net_peers n'"
    using cascade_loop_refines [of mem_ops txID sc "rev (take (Suc i) (ex_Steps ?e))" w] comp assms(1,3,4) i(1) cl
    by (auto simp: compensateCascade_def mem_LoadSagaState_def mem_LoadTx_def stored_def Let_def on_db_def
        split: prod.splits) (metis snd_conv w_stamp_db(3))
  from r mem.compensateCascade_terminal [OF NewExecutor_store assms(1) i(1) assms(3)]
  show ?thesis by (cases paid) auto
qed

theorem cascade_refunds_witness:
  "\<exists>w'. compensateCascade demo_rt demo_executor ''tx-1'' StepKyt captured_world = (None, w') \<and>
     RefundCalls (net_peers (w_net w')) = 1 \<and>
     (\<exists>sg'. ms_sagas (w_db w') ''tx-1'' = Some sg' \<and> sg_State sg' = StateFailedCompensated)"
proof -
  let ?sc = "\<lparr>sc_Tx = demo_tx\<lparr>tx_Status := StatePaymentCaptured\<rparr>, sc_Saga = captured_saga, sc_Attempt = 1, sc_Partners = Some demo_clients\<rparr>"
  obtain r w' where r: "compensateCascade demo_rt (NewExecutor demo_rt mem_ops demo_clients DefaultConfig) ''tx-1'' StepKyt captured_world = (r, w')"
    by (metis surj_pair)
  obtain n' where n': "PaymentStep_Compensate (cl_Payment demo_clients) ?sc
      (after_broadcast_compensation demo_rt StepKyt ?sc (w_net captured_world)) = (Inr (), n')" "RefundCalls (net_peers n') = 1"
    by (simp add: PaymentStep_Compensate_def demo_clients_def captured_saga_def payload_string_def rpc_def stub_defs
        after_broadcast_compensation_def captured_world_def demo_world_def NewStub_def)
  have "StepKyt \<in> set StepOrder - {StepPolicy}" by (simp add: StepOrder_def)
  from cascade_refunds [OF captured_stored this r refl n'(1)] r n'(2) show ?thesis by (simp add: demo_executor_def)
qed

section \<open>Step rows after a cascade\<close>

definition row_compensated :: "string \<Rightarrow> Step \<Rightarrow> mem_store \<Rightarrow> bool" where
  "row_compensated txID st T \<longleftrightarrow> (\<forall>r. row_at txID st 1 T = Some r \<longrightarrow> row_Status r = StepCompensated)"

lemma row_at_row_tx: "synced txID T \<Longrightarrow> row_at txID st k T = Some r \<Longrightarrow> row_TxID r = txID"
  by (auto simp: synced_def row_at_def dest: find_row_Some)

lemma mark_compensating_rows: "only_row txID st 1 T (snd (mark_compensating mem_ops txID st T))"
  using mem.only_row_UpdateStep
  by (auto simp: mark_compensating_def mem_LoadStep_row_at ignE_def okE_def split: option.splits dest: row_at_Some)

lemma mark_compensated_rows:
  assumes "synced txID T" and "txID \<noteq> ''''"
  shows "only_row txID st 1 T (snd (mark_compensated mem_ops txID st T))"
    and "row_compensated txID st (snd (mark_compensated mem_ops txID st T))"
proof (atomize (full), cases "row_at txID st 1 T")
  case None
  then show "only_row txID st 1 T (snd (mark_compensated mem_ops txID st T)) \<and>
      row_compensated txID st (snd (mark_compensated mem_ops txID st T))"
    by (simp add: mark_compensated_def mem_LoadStep_row_at zero_row_def row_compensated_def)
next
  case (Some r)
  note r = row_at_Some [OF Some] row_at_row_tx [OF assms(1) Some]
  let ?new = "r\<lparr>row_Status := StepCompensated\<rparr>"
  have "snd (mark_compensated mem_ops txID st T) = snd (mem_UpdateStep ?new T)"
    using Some r assms(2) by (simp add: mark_compensated_def mem_LoadStep_row_at ignE_def okE_def)
  then show "only_row txID st 1 T (snd (mark_compensated mem_ops txID st T)) \<and>
      row_compensated txID st (snd (mark_compensated mem_ops txID st T))"
    using mem.only_row_UpdateStep [of ?new st 1 txID T] mem.row_at_UpdateStep [of txID st 1 ?new T] Some r
    by (simp add: row_compensated_def)
qed

lemma snd_on_db: "snd (on_db f w) = w\<lparr>w_db := snd (f (w_db w))\<rparr>"
  by (simp add: on_db_def split: prod.splits)

lemma on_net_eq: "f (w_net w) = (r, n) \<Longrightarrow> on_net f w = (r, w\<lparr>w_net := n\<rparr>)"
  by (simp add: on_net_def)

lemma cascade_rows:
  assumes "synced txID (w_db w)" and "txID \<noteq> ''''" and "distinct (map Name steps)"
    and "cascade_loop mem_ops txID sc steps w = (None, w')"
  shows "(\<forall>step \<in> set steps. row_compensated txID (Name step) (w_db w')) \<and>
    (\<forall>st k. st \<notin> Name ` set steps \<longrightarrow> row_at txID st k (w_db w') = row_at txID st k (w_db w))"
  using assms(1,3,4)
proof (induction steps arbitrary: w)
  case Nil
  then show ?case by (simp add: cascade_loop.simps)
next
  case (Cons step rest)
  let ?T1 = "snd (mark_compensating mem_ops txID (Name step) (w_db w))"
  let ?T2 = "snd (mark_compensated mem_ops txID (Name step) ?T1)"
  obtain r n' where c: "Compensate step sc (w_net w) = (r, n')" by (metis surj_pair)
  let ?w2 = "w\<lparr>w_net := n', w_db := ?T2\<rparr>"
  have sy1: "synced txID ?T1" using quiet_step_synced [OF mem.quiet_mark(1) [OF Cons.prems(1)]] .
  have sy2: "synced txID ?T2" using quiet_step_synced [OF mem.quiet_mark(2) [OF sy1]] .
  have loop: "cascade_loop mem_ops txID sc rest ?w2 = (None, w')"
    using Cons.prems(3) c by (cases r) (simp_all add: cascade_loop.simps Let_def snd_on_db on_net_eq [where r = r])
  from Cons.IH [OF _ _ loop] sy2 Cons.prems(2)
  have ih: "\<forall>s \<in> set rest. row_compensated txID (Name s) (w_db w')"
    "\<forall>st k. st \<notin> Name ` set rest \<longrightarrow> row_at txID st k (w_db w') = row_at txID st k ?T2" by auto
  have T2: "row_compensated txID (Name step) ?T2" "only_row txID (Name step) 1 (w_db w) ?T2"
    using mark_compensated_rows [OF sy1 assms(2)] mark_compensating_rows only_row_trans by blast+
  have "row_compensated txID (Name step) (w_db w')"
    using ih(2) T2(1) Cons.prems(2) by (auto simp: row_compensated_def)
  moreover have "row_at txID st k (w_db w') = row_at txID st k (w_db w)" if "st \<notin> Name ` set (step # rest)" for st k
    using that ih(2) T2(2) by (simp add: only_row_def)
  ultimately show ?case using ih(1) by auto
qed

text \<open>After a cascade that met no error, the first-attempt row of every step from the failed one back
  to the first is \<open>COMPENSATED\<close>, and the rows of the later steps are as they were.\<close>

theorem cascade_marks_rows:
  assumes "ex_Store e = mem_ops" and "synced txID (w_db w)" and "txID \<noteq> ''''" and "distinct (map Name (ex_Steps e))"
    and "index_of_step failed (ex_Steps e) = Some i" and "compensateCascade rt e txID failed w = (None, w')"
  shows "(\<forall>step \<in> set (take (Suc i) (ex_Steps e)). row_compensated txID (Name step) (w_db w')) \<and>
    (\<forall>step \<in> set (drop (Suc i) (ex_Steps e)). \<forall>k. row_at txID (Name step) k (w_db w') = row_at txID (Name step) k (w_db w))"
proof -
  from assms(2) obtain tx sg where st: "ms_txs (w_db w) txID = Some tx" "ms_sagas (w_db w) txID = Some sg"
    by (auto simp: synced_def)
  let ?sc = "\<lparr>sc_Tx = tx, sc_Saga = sg, sc_Attempt = 1, sc_Partners = ex_Clients e\<rparr>"
  let ?steps = "rev (take (Suc i) (ex_Steps e))"
  obtain ce w1 where w1: "cascade_loop mem_ops txID ?sc ?steps w = (ce, w1)" by (metis surj_pair)
  obtain clk ids w2 where w2: "w_stamp rt w1 = ((clk, ids), w2)" by (metis surj_pair)
  then have db2: "w_db w2 = w_db w1" using w_stamp_db(1) [of rt w1] by simp
  have run: "ce = None" "w_db w' = snd (persist_compensation mem_ops txID tx sg StateFailedCompensated clk ids (w_db w1))"
    using assms(1,5,6) st w1 w2 db2
    by (auto simp: compensateCascade_def mem_LoadSagaState_def mem_LoadTx_def Let_def on_db_def split: prod.splits)
  have "distinct (map Name ?steps)" using assms(4) by (simp add: take_map [symmetric] rev_map [symmetric])
  from cascade_rows [OF assms(2,3) this] w1 run(1)
  have rows: "\<forall>step \<in> set (take (Suc i) (ex_Steps e)). row_compensated txID (Name step) (w_db w1)"
    "\<forall>st k. st \<notin> Name ` set (take (Suc i) (ex_Steps e)) \<longrightarrow> row_at txID st k (w_db w1) = row_at txID st k (w_db w)" by auto
  have same: "ms_steps (w_db w') = ms_steps (w_db w1)"
    by (simp add: run(2) persist_compensation_def Let_def ignE_def okE_def mem_SaveSagaState_def
        mem_UpdateTransactionStatus_def mem_AppendOutbox_def split: option.splits)
  have "Name step \<notin> Name ` set (take (Suc i) (ex_Steps e))" if "step \<in> set (drop (Suc i) (ex_Steps e))" for step
  proof -
    have "set (map Name (take (Suc i) (ex_Steps e))) \<inter> set (map Name (drop (Suc i) (ex_Steps e))) = {}"
      using assms(4) by (metis append_take_drop_id distinct_append map_append)
    with that show ?thesis by auto
  qed
  with rows same show ?thesis by (simp add: row_compensated_def row_at_def)
qed

theorem cascade_marks_rows_witness:
  "\<exists>w'. compensateCascade demo_rt demo_executor ''tx-1'' StepPolicy demo_world = (None, w') \<and>
     row_compensated ''tx-1'' StepPolicy (w_db w')"
proof -
  have i: "index_of_step StepPolicy (ex_Steps demo_executor) = Some 0"
    by (simp add: demo_executor_def NewExecutor_def)
  have d: "distinct (map Name (ex_Steps demo_executor))"
    by (simp add: demo_executor_def NewExecutor_def)
  obtain r w' where r: "compensateCascade demo_rt demo_executor ''tx-1'' StepPolicy demo_world = (r, w')" by (metis surj_pair)
  have "fst (compensateCascade demo_rt demo_executor ''tx-1'' StepPolicy demo_world) = None"
    by (simp add: compensateCascade_def i, simp add: demo_executor_def NewExecutor_def mem_LoadSagaState_def mem_LoadTx_def
        demo_world_def demo_db_def cascade_loop.simps on_net_def NewPolicyStep_def PolicyStep_Compensate_def okE_def Let_def
        split: prod.splits)
  with r have r': "compensateCascade demo_rt demo_executor ''tx-1'' StepPolicy demo_world = (None, w')" by simp
  from cascade_marks_rows [OF _ _ _ d i r'] r' stored_synced [OF demo_stored] show ?thesis
    by (auto simp: demo_executor_def demo_world_def NewExecutor_def)
qed

end
