(* ===== verification/Happy_Path.thy ===== *)
theory Happy_Path
  imports Compensation
begin

text \<open>
  What the saga is for: when every partner cooperates, \<open>Run\<close> takes a new transaction through all
  six steps and the confirmation to \<open>COMPLETED\<close>. The exact effect of one successful attempt
  and of a denial are shown on the way.
\<close>

section \<open>One attempt on the in-memory store\<close>

text \<open>Some attempt of a step has a row with the status \<open>SUCCEEDED\<close>.\<close>

definition succeeded :: "string \<Rightarrow> Step \<Rightarrow> mem_store \<Rightarrow> bool" where
  "succeeded txID st T \<longleftrightarrow> (\<exists>k r. row_at txID st k T = Some r \<and> row_Status r = StepSucceeded)"

lemma succeeded_other: "other_steps txID st T T' \<Longrightarrow> st' \<noteq> st \<Longrightarrow> succeeded txID st' T' \<longleftrightarrow> succeeded txID st' T"
  by (simp add: other_steps_def succeeded_def)

lemma succeeded_same_steps: "ms_steps T' = ms_steps T \<Longrightarrow> succeeded txID st T' = succeeded txID st T"
  by (simp add: succeeded_def row_at_def)

lemma RunInTx_mem_eta: "RunInTx mem_ops fn = fn"
  by (rule ext) simp

lemma on_db_eq: "f (w_db w) = (r, s) \<Longrightarrow> on_db f w = (r, w\<lparr>w_db := s\<rparr>)"
  by (simp add: on_db_def)

text \<open>The answer of a step to a context, for partners in state \<open>p\<close>.\<close>

definition executes ::
  "'p step_impl \<Rightarrow> 'p SagaContext \<Rightarrow> 'p \<Rightarrow> StepResult \<Rightarrow> go_error option \<Rightarrow> 'p \<Rightarrow> bool" where
  "executes step sc p res err p' \<longleftrightarrow>
     (\<forall>n. net_peers n = p \<longrightarrow> Execute step sc n = ((res, err), n\<lparr>net_peers := p'\<rparr>))"

lemma mem_persist_success:
  assumes st: "stored txID (sc_Tx sc) (sc_Saga sc) s" and row: "row_at txID step (sc_Attempt sc) s \<noteq> None"
    and path: "validatePath (sg_State (sc_Saga sc)) (res_State res) (sg_State (advanced_saga (sc_Saga sc) step res)) = None"
  shows "\<exists>s'. persist_success mem_ops step sc res fin now ids s = (Inr (), s') \<and>
    ms_sagas s' txID = Some (advanced_saga (sc_Saga sc) step res) \<and> succeeded txID step s'"
proof -
  note f = stored_facts [OF st]
  let ?row = "finished_row txID step StepSucceeded (sc_Attempt sc) fin ''''"
  let ?new = "advanced_saga (sc_Saga sc) step res"
  obtain s1 where s1: "mem_UpdateStep ?row s = (Inr (), s1)" "ms_txs s1 = ms_txs s" "ms_sagas s1 = ms_sagas s"
    using row by (auto simp: mem_UpdateStep_def row_at_def split: option.splits)
  have "row_at txID step (sc_Attempt sc) s1 = Some ?row"
    using mem.row_at_UpdateStep [of txID step "sc_Attempt sc" ?row s] row s1(1) by auto
  then have done_row: "succeeded txID step s1" unfolding succeeded_def by fastforce
  have new: "?new\<lparr>sg_Version := sg_Version (sc_Saga sc) + 1\<rparr> = ?new"
    by (rule SagaState.equality) simp_all
  have same: "ms_steps s' = ms_steps s1 \<Longrightarrow> succeeded txID step s'" for s'
    using done_row by (simp add: succeeded_def row_at_def)
  show ?thesis
    using st path s1 new f(2) same
    by (simp add: persist_success_def Let_def f(1) thenE_def bindE_def ignE_def okE_def stored_def
        mem_SaveSagaState_def mem_UpdateTransactionStatus_def mem_AppendOutbox_def)
qed

lemma mem_persistTerminal:
  assumes st: "stored txID (sc_Tx sc) (sc_Saga sc) s" and "moves (sg_State (sc_Saga sc)) (res_State res)"
  shows "ms_sagas (snd (persistTerminal mem_ops step sc res fin now ids s)) txID = Some (terminal_saga (sc_Saga sc) res)"
proof -
  note f = stored_facts [OF st]
  let ?row = "finished_row txID step StepFailed (sc_Attempt sc) fin ''''"
  have up: "ms_txs (snd (mem_UpdateStep ?row s)) = ms_txs s" "ms_sagas (snd (mem_UpdateStep ?row s)) = ms_sagas s"
    by (auto simp: mem_UpdateStep_def split: option.splits)
  have "snd (Transition (sg_State (sc_Saga sc)) (res_State res)) = None" using assms(2) by (simp add: Transition_ok_iff)
  then show ?thesis
    using st f(2) up
    by (simp add: persistTerminal_def Let_def f(1) ignE_def okE_def stored_def terminal_saga_def
        mem_SaveSagaState_def mem_UpdateTransactionStatus_def mem_AppendOutbox_def split: option.splits)
qed

text \<open>The opening of an attempt, up to the call of the step.\<close>

lemma mem_attempt_opens:
  assumes e: "ex_Store e = mem_ops" and st: "stored txID (sc_Tx sc) (sc_Saga sc) (w_db w)"
    and open_row: "unsucceeded txID (Name step) (sc_Attempt sc) (w_db w)"
    and exec: "executes step sc (net_peers (w_net w)) res err p'"
  shows "\<exists>(clk :: nat \<Rightarrow> time) (ids :: nat \<Rightarrow> uuid) w4. stored txID (sc_Tx sc) (sc_Saga sc) (w_db w4) \<and>
    row_at txID (Name step) (sc_Attempt sc) (w_db w4) \<noteq> None \<and> net_peers (w_net w4) = p' \<and>
    runStepOnce rt e step sc w =
      (case err of
         None \<Rightarrow> on_db (persist_success mem_ops (Name step) sc res (clk 0) (clk 1) ids) w4
       | Some er \<Rightarrow>
           if res_Terminal res
           then (Inr (), snd (on_db (persistTerminal mem_ops (Name step) sc res (clk 0) (clk 1) ids) w4))
           else (Inl er, audit rt e sc (step_string (Name step)) (state_string (sg_State (sc_Saga sc)))
             (state_string (res_State res)) (Some er) (snd (on_db (mem_UpdateStep (finished_row txID (Name step)
                StepFailed (sc_Attempt sc) (clk 0) (error_text er))) w4))))"
proof -
  obtain clk0 ids0 w1 where w1: "w_stamp rt w = ((clk0, ids0), w1)" by (metis surj_pair)
  have same1: "w_db w1 = w_db w" "net_peers (w_net w1) = net_peers (w_net w)" "w_leases w1 = w_leases w"
    using w_stamp_db [of rt w] w1 by simp_all
  obtain s2 row where s2: "begin_attempt mem_ops txID (Name step) (sc_Attempt sc) (clk0 0) (ids0 0) (w_db w) = (Inr False, s2)"
    "row_at txID (Name step) (sc_Attempt sc) s2 = Some row"
    using mem.begin_attempt_fresh [OF unsucceededD [OF open_row]] by metis
  have st2: "stored txID (sc_Tx sc) (sc_Saga sc) s2"
    using stored_quiet [OF st mem.quiet_begin_attempt [OF stored_synced [OF st]], of "Name step" "sc_Attempt sc" "clk0 0" "ids0 0"] s2
    by simp
  let ?w2 = "w1\<lparr>w_db := s2\<rparr>"
  have opened: "on_db (begin_attempt mem_ops txID (Name step) (sc_Attempt sc) (clk0 0) (ids0 0)) w1 = (Inr False, ?w2)"
    by (rule on_db_eq) (use s2(1) same1(1) in simp)
  let ?w3 = "?w2\<lparr>w_net := (w_net w1)\<lparr>net_peers := p'\<rparr>\<rparr>"
  have w3: "on_net (Execute step sc) ?w2 = ((res, err), ?w3)"
    using exec same1 by (simp add: executes_def on_net_def)
  obtain clk ids w4 where w4: "w_stamp rt ?w3 = ((clk, ids), w4)" by (metis surj_pair)
  have same4: "w_db w4 = s2" "net_peers (w_net w4) = p'" "w_leases w4 = w_leases w"
    using w_stamp_db [of rt ?w3] w4 same1 by simp_all
  have "runStepOnce rt e step sc w =
      (case err of
         None \<Rightarrow> on_db (persist_success mem_ops (Name step) sc res (clk 0) (clk 1) ids) w4
       | Some er \<Rightarrow>
           if res_Terminal res
           then (Inr (), snd (on_db (persistTerminal mem_ops (Name step) sc res (clk 0) (clk 1) ids) w4))
           else (Inl er, audit rt e sc (step_string (Name step)) (state_string (sg_State (sc_Saga sc)))
             (state_string (res_State res)) (Some er) (snd (on_db (mem_UpdateStep (finished_row txID (Name step)
                StepFailed (sc_Attempt sc) (clk 0) (error_text er))) w4))))"
    using s2(1) stored_facts(1) [OF st] same1
    by (cases err) (simp_all add: runStepOnce_def e RunInTx_mem_eta w1 w3 w4 Let_def opened)
  with st2 s2(2) same4 show ?thesis by (intro exI [of _ clk] exI [of _ ids] exI [of _ w4]) simp
qed



section \<open>One turn on the in-memory store\<close>

text \<open>A turn that gets the lease and whose first attempt returns no error goes on with \<open>after_step\<close>.\<close>

lemma mem_turn_first_attempt:
  assumes e: "ex_Store e = mem_ops" and st: "stored txID tx sg (w_db w)" and nt: "\<not> Terminal (sg_State sg)"
    and step: "StepByName e (sg_CurrentStep sg) = Some step"
    and lease: "\<And>tx ow ttl l. fst (Acquire (ex_Lease e) tx ow ttl l) = Inr True" and retries: "1 \<le> cfg_MaxRetries (ex_Cfg e)"
    and once: "\<And>l. \<exists>w1. runStepOnce rt e step \<lparr>sc_Tx = tx, sc_Saga = sg, sc_Attempt = 1, sc_Partners = ex_Clients e\<rparr> (w\<lparr>w_leases := l\<rparr>) = (Inr (), w1) \<and> Q (w_db w1) (w_net w1)"
  shows "\<exists>w2. run_turn rt e pf txID owner w = after_step rt e pf txID w2 \<and> Q (w_db w2) (w_net w2)"
proof -
  let ?sc = "\<lparr>sc_Tx = tx, sc_Saga = sg, sc_Attempt = 1, sc_Partners = ex_Clients e\<rparr>"
  let ?ttl = "wrap64 (cfg_StepTimeout (ex_Cfg e) (step_string (Name step)) + 5 * second)"
  obtain l where l: "Acquire (ex_Lease e) txID owner ?ttl (w_leases w) = (Inr True, l)"
    using lease by (metis prod.collapse)
  obtain w1 where w1: "runStepOnce rt e step ?sc (w\<lparr>w_leases := l\<rparr>) = (Inr (), w1)" "Q (w_db w1) (w_net w1)"
    using once by blast
  obtain m where m: "nat (cfg_MaxRetries (ex_Cfg e)) = Suc m" using retries by (cases "nat (cfg_MaxRetries (ex_Cfg e))") auto
  have "runStepWithRetry rt e step ?sc (w\<lparr>w_leases := l\<rparr>) = (Returned None, w1)"
    using w1(1) by (simp add: runStepWithRetry_def m retry_loop.simps)
  with st nt step l have "run_turn rt e pf txID owner w =
      after_step rt e pf txID (w1\<lparr>w_leases := Release (ex_Lease e) txID owner (w_leases w1)\<rparr>)"
    by (simp add: run_turn_def e mem_LoadTx_def mem_LoadSagaState_def stored_def)
  with w1(2) show ?thesis
    by (intro exI [of _ "w1\<lparr>w_leases := Release (ex_Lease e) txID owner (w_leases w1)\<rparr>"]) simp
qed

lemma mem_turn_success:
  assumes e: "ex_Store e = mem_ops" and st: "stored txID tx sg (w_db w)" and nt: "\<not> Terminal (sg_State sg)"
    and step: "StepByName e (sg_CurrentStep sg) = Some step" and contract: "step_contract step"
    and lease: "\<And>tx ow ttl l. fst (Acquire (ex_Lease e) tx ow ttl l) = Inr True" and retries: "1 \<le> cfg_MaxRetries (ex_Cfg e)"
    and open_row: "unsucceeded txID (Name step) 1 (w_db w)"
    and exec: "executes step \<lparr>sc_Tx = tx, sc_Saga = sg, sc_Attempt = 1, sc_Partners = ex_Clients e\<rparr> (net_peers (w_net w)) res None p'"
    and path: "validatePath (sg_State sg) (res_State res) (sg_State (advanced_saga sg (Name step) res)) = None"
  shows "\<exists>w2 tx2. run_turn rt e pf txID owner w = after_step rt e pf txID w2 \<and>
    stored txID tx2 (advanced_saga sg (Name step) res) (w_db w2) \<and> net_peers (w_net w2) = p' \<and>
    other_steps txID (Name step) (w_db w) (w_db w2) \<and> succeeded txID (Name step) (w_db w2)"
proof -
  let ?sc = "\<lparr>sc_Tx = tx, sc_Saga = sg, sc_Attempt = 1, sc_Partners = ex_Clients e\<rparr>"
  let ?Q = "\<lambda>T n. synced txID T \<and> ms_sagas T txID = Some (advanced_saga sg (Name step) res) \<and> net_peers n = p' \<and>
    other_steps txID (Name step) (w_db w) T \<and> succeeded txID (Name step) T"
  have "\<exists>w1. runStepOnce rt e step ?sc (w\<lparr>w_leases := l\<rparr>) = (Inr (), w1) \<and> ?Q (w_db w1) (w_net w1)" for l
  proof -
    let ?w = "w\<lparr>w_leases := l\<rparr>"
    have "\<exists>(clk :: nat \<Rightarrow> time) ids w4. stored txID tx sg (w_db w4) \<and>
      row_at txID (Name step) 1 (w_db w4) \<noteq> None \<and> net_peers (w_net w4) = p' \<and>
      runStepOnce rt e step ?sc ?w = on_db (persist_success mem_ops (Name step) ?sc res (clk 0) (clk 1) ids) w4"
      using mem_attempt_opens [OF e, of txID ?sc ?w step res None p' rt] st open_row exec by simp
    then obtain clk :: "nat \<Rightarrow> time" and ids w4 where w4: "stored txID tx sg (w_db w4)"
      "row_at txID (Name step) 1 (w_db w4) \<noteq> None" "net_peers (w_net w4) = p'"
      "runStepOnce rt e step ?sc ?w = on_db (persist_success mem_ops (Name step) ?sc res (clk 0) (clk 1) ids) w4"
      by blast
    obtain s' where s': "persist_success mem_ops (Name step) ?sc res (clk 0) (clk 1) ids (w_db w4) = (Inr (), s')"
      "ms_sagas s' txID = Some (advanced_saga sg (Name step) res)" "succeeded txID (Name step) s'"
      using mem_persist_success [of txID ?sc "w_db w4" "Name step" res "clk 0" "clk 1" ids] w4(1,2) path by auto
    have run: "runStepOnce rt e step ?sc ?w = (Inr (), w4\<lparr>w_db := s'\<rparr>)"
      using w4(4) on_db_eq [of "persist_success mem_ops (Name step) ?sc res (clk 0) (clk 1) ids" w4] s'(1) by simp
    have "synced txID s'"
      using mem.runStepOnce_guarded [OF e _ run, of txID] st by (auto dest!: guarded_safe safe_step_synced)
    moreover have "other_steps txID (Name step) (w_db w) s'"
      using mem.runStepOnce_progress(1) [OF e _ _ contract _ run, of txID] st nt unsucceededD [OF open_row]
      by (auto dest!: other_steps_only_row)
    ultimately show ?thesis using run s'(2,3) w4(3) by simp
  qed
  from mem_turn_first_attempt [OF e st nt step lease retries, of rt ?Q, OF this]
  show ?thesis unfolding stored_def synced_def by fastforce
qed

lemma mem_turn_terminal:
  assumes e: "ex_Store e = mem_ops" and st: "stored txID tx sg (w_db w)" and nt: "\<not> Terminal (sg_State sg)"
    and step: "StepByName e (sg_CurrentStep sg) = Some step"
    and lease: "\<And>tx ow ttl l. fst (Acquire (ex_Lease e) tx ow ttl l) = Inr True" and retries: "1 \<le> cfg_MaxRetries (ex_Cfg e)"
    and open_row: "unsucceeded txID (Name step) 1 (w_db w)"
    and exec: "executes step \<lparr>sc_Tx = tx, sc_Saga = sg, sc_Attempt = 1, sc_Partners = ex_Clients e\<rparr> (net_peers (w_net w)) res (Some er) p'"
    and res: "res_Terminal res" "IsFailure (res_State res)"
  shows "\<exists>w'. run_turn rt e pf txID owner w = (Stop (Returned None), w') \<and>
    ms_sagas (w_db w') txID = Some (terminal_saga sg res) \<and> net_peers (w_net w') = p'"
proof -
  let ?sc = "\<lparr>sc_Tx = tx, sc_Saga = sg, sc_Attempt = 1, sc_Partners = ex_Clients e\<rparr>"
  let ?Q = "\<lambda>T n. ms_sagas T txID = Some (terminal_saga sg res) \<and> net_peers n = p'"
  have "\<exists>w1. runStepOnce rt e step ?sc (w\<lparr>w_leases := l\<rparr>) = (Inr (), w1) \<and> ?Q (w_db w1) (w_net w1)" for l
  proof -
    have "\<exists>(clk :: nat \<Rightarrow> time) ids w4. stored txID tx sg (w_db w4) \<and>
      row_at txID (Name step) 1 (w_db w4) \<noteq> None \<and> net_peers (w_net w4) = p' \<and>
      runStepOnce rt e step ?sc (w\<lparr>w_leases := l\<rparr>) =
        (Inr (), snd (on_db (persistTerminal mem_ops (Name step) ?sc res (clk 0) (clk 1) ids) w4))"
      using mem_attempt_opens [OF e, of txID ?sc "w\<lparr>w_leases := l\<rparr>" step res "Some er" p' rt] st open_row exec res(1)
      by simp
    then obtain clk :: "nat \<Rightarrow> time" and ids w4 where w4: "stored txID tx sg (w_db w4)" "net_peers (w_net w4) = p'"
      "runStepOnce rt e step ?sc (w\<lparr>w_leases := l\<rparr>) =
        (Inr (), snd (on_db (persistTerminal mem_ops (Name step) ?sc res (clk 0) (clk 1) ids) w4))"
      by blast
    moreover have "moves (sg_State sg) (res_State res)" using nt res(2) by (auto simp: IsFailure_def)
    ultimately show ?thesis
      using mem_persistTerminal [of txID ?sc "w_db w4" res "Name step" "clk 0" "clk 1" ids] by simp
  qed
  from mem_turn_first_attempt [OF e st nt step lease retries, of rt ?Q, OF this]
  obtain w2 where w2: "run_turn rt e pf txID owner w = after_step rt e pf txID w2" "?Q (w_db w2) (w_net w2)" by blast
  moreover have "after_step rt e pf txID w2 = (Stop (Returned None), w2)"
    using w2(2) res(2) by (auto simp: after_step_def e mem_LoadSagaState_def Let_def terminal_saga_def IsFailure_def)
  ultimately show ?thesis by simp
qed

section \<open>Partners that cooperate\<close>

text \<open>While the partners are in a state of \<open>Q\<close>, every call succeeds, the decisions are favourable, the
  transaction is confirmed on the chain, and the state stays in \<open>Q\<close>.\<close>

definition cooperative :: "('p \<Rightarrow> bool) \<Rightarrow> 'p Clients \<Rightarrow> bool" where
  "cooperative Q c \<longleftrightarrow>
     (\<exists>pol pay kyt mpc bc led. cl_Policy c = Some pol \<and> cl_Payment c = Some pay \<and> cl_Kyt c = Some kyt \<and>
        cl_Mpc c = Some mpc \<and> cl_Blockchain c = Some bc \<and> cl_Ledger c = Some led \<and>
        (\<forall>p. Q p \<longrightarrow>
           (\<forall>x. \<exists>r p'. Evaluate pol x p = (Inr r, p') \<and> pls_Decision r \<noteq> PolicyDeny \<and> Q p') \<and>
           (\<forall>x. \<exists>r p'. Authorize pay x p = (Inr r, p') \<and> Q p') \<and>
           (\<forall>x. \<exists>r p'. Capture pay x p = (Inr r, p') \<and> Q p') \<and>
           (\<forall>x. \<exists>r p'. Screen kyt x p = (Inr r, p') \<and> kys_Decision r = KytClear \<and> Q p') \<and>
           (\<forall>x. \<exists>r p'. Sign mpc x p = (Inr r, p') \<and> r \<noteq> '''' \<and> Q p') \<and>
           (\<forall>x. \<exists>r p'. Broadcast bc x p = (Inr r, p') \<and> bcs_TxHash r \<noteq> '''' \<and> Q p') \<and>
           (\<forall>x. \<exists>r p'. Status bc x p = (Inr r, p') \<and> bcs_Confirmed r \<and> Q p') \<and>
           (\<forall>x. \<exists>r p'. PostDoubleEntry led x p = (Inr r, p') \<and> Q p')))"

text \<open>The state a saga is in before each step.\<close>

definition state_before :: "Step \<Rightarrow> State" where
  "state_before st = (case st of
     StepPolicy \<Rightarrow> StateCreated | StepPayment \<Rightarrow> StatePolicyChecked | StepKyt \<Rightarrow> StatePaymentCaptured
   | StepMpcSign \<Rightarrow> StateKytScreened | StepBroadcast \<Rightarrow> StateSigned | StepLedger \<Rightarrow> StateConfirmed
   | StepOther x \<Rightarrow> StateOther x)"

text \<open>A saga on its way: in the state before its current step and, for the broadcast, signed.\<close>

definition on_track :: "SagaState \<Rightarrow> bool" where
  "on_track sg \<longleftrightarrow> sg_CurrentStep sg \<in> set StepOrder \<and> sg_State sg = state_before (sg_CurrentStep sg) \<and>
     (sg_CurrentStep sg = StepBroadcast \<longrightarrow> payload_string (sg_Payload sg) ''signed_tx_hex'' \<noteq> '''')"

text \<open>What a successful step leaves for the next one.\<close>

definition delivers :: "Step \<Rightarrow> StepResult \<Rightarrow> bool" where
  "delivers st res \<longleftrightarrow> \<not> res_Terminal res \<and> StateForStep st = Some (res_State res) \<and>
     (st = StepMpcSign \<longrightarrow> (\<exists>h. h \<noteq> '''' \<and> res_PayloadMerge res ''signed_tx_hex'' = Some (AStr h))) \<and>
     (st = StepBroadcast \<longrightarrow> (\<exists>h. h \<noteq> '''' \<and> res_PayloadMerge res ''tx_hash'' = Some (AStr h)))"

lemma policy_delivers:
  assumes "\<And>x. \<exists>r p'. Evaluate pol x p = (Inr r, p') \<and> pls_Decision r \<noteq> PolicyDeny \<and> Q p'"
  shows "\<exists>res p'. executes (NewPolicyStep (Some pol)) sc p res None p' \<and> Q p' \<and> delivers StepPolicy res"
proof -
  obtain r p' where r: "Evaluate pol \<lparr>plr_TxID = tx_TxID (sc_Tx sc), plr_UserID = tx_UserID (sc_Tx sc),
      plr_QuoteID = tx_QuoteID (sc_Tx sc), plr_Amount = tx_Amount (sc_Tx sc), plr_Asset = tx_Asset (sc_Tx sc),
      plr_Rail = tx_Rail (sc_Tx sc), plr_DestAddress = tx_DestAddress (sc_Tx sc)\<rparr> p = (Inr r, p')"
    "pls_Decision r \<noteq> PolicyDeny" "Q p'" using assms by blast
  let ?res = "\<lparr>res_State = StatePolicyChecked, res_PayloadMerge = [''policy_reason'' \<mapsto> AStr (pls_Reason r)], res_Terminal = False\<rparr>"
  have "executes (NewPolicyStep (Some pol)) sc p ?res None p'"
    using r by (simp add: NewPolicyStep_def PolicyStep_Execute_def executes_def rpc_def Let_def)
  moreover have "delivers StepPolicy ?res" using r by (simp add: delivers_def StateForStep_def)
  ultimately show ?thesis using r by blast
qed

lemma payment_delivers:
  assumes "\<And>x. \<exists>r p'. Authorize pay x p = (Inr r, p') \<and> Q p'"
    and "\<And>x p. Q p \<Longrightarrow> \<exists>r p'. Capture pay x p = (Inr r, p') \<and> Q p'"
  shows "\<exists>res p'. executes (NewPaymentStep (Some pay)) sc p res None p' \<and> Q p' \<and> delivers StepPayment res"
proof -
  obtain a p1 where a: "Authorize pay \<lparr>par_TxID = tx_TxID (sc_Tx sc), par_UserID = tx_UserID (sc_Tx sc),
      par_QuoteID = tx_QuoteID (sc_Tx sc), par_Amount = tx_Amount (sc_Tx sc), par_Asset = tx_Asset (sc_Tx sc),
      par_Rail = tx_Rail (sc_Tx sc)\<rparr> p = (Inr a, p1)" "Q p1" using assms(1) by blast
  obtain r p' where r: "Capture pay \<lparr>pcr_TxID = tx_TxID (sc_Tx sc), pcr_AuthID = a,
      pcr_Amount = tx_Amount (sc_Tx sc), pcr_Asset = tx_Asset (sc_Tx sc)\<rparr> p1 = (Inr r, p')" "Q p'"
    using assms(2) [OF a(2)] by blast
  let ?res = "\<lparr>res_State = StatePaymentCaptured, res_PayloadMerge = [''auth_id'' \<mapsto> AStr a, ''capture_id'' \<mapsto> AStr r], res_Terminal = False\<rparr>"
  have "executes (NewPaymentStep (Some pay)) sc p ?res None p'"
    using r a by (simp add: NewPaymentStep_def PaymentStep_Execute_def executes_def rpc_def Let_def)
  moreover have "delivers StepPayment ?res" using r by (simp add: delivers_def StateForStep_def)
  ultimately show ?thesis using r by blast
qed

lemma kyt_delivers:
  assumes "\<And>x. \<exists>r p'. Screen kyt x p = (Inr r, p') \<and> kys_Decision r = KytClear \<and> Q p'"
  shows "\<exists>res p'. executes (NewKytStep (Some kyt)) sc p res None p' \<and> Q p' \<and> delivers StepKyt res"
proof -
  obtain r p' where r: "Screen kyt \<lparr>kyr_TxID = tx_TxID (sc_Tx sc), kyr_UserID = tx_UserID (sc_Tx sc),
      kyr_DestAddress = tx_DestAddress (sc_Tx sc), kyr_Amount = tx_Amount (sc_Tx sc),
      kyr_Asset = tx_Asset (sc_Tx sc)\<rparr> p = (Inr r, p')" "kys_Decision r = KytClear" "Q p'"
    using assms by blast
  let ?res = "\<lparr>res_State = StateKytScreened, res_PayloadMerge = [''kyt_reason'' \<mapsto> AStr (kys_Reason r)], res_Terminal = False\<rparr>"
  have "executes (NewKytStep (Some kyt)) sc p ?res None p'"
    using r by (simp add: NewKytStep_def KytStep_Execute_def executes_def rpc_def Let_def)
  moreover have "delivers StepKyt ?res" using r by (simp add: delivers_def StateForStep_def)
  ultimately show ?thesis using r by blast
qed

lemma mpc_delivers:
  assumes "\<And>x. \<exists>r p'. Sign mpc x p = (Inr r, p') \<and> r \<noteq> '''' \<and> Q p'"
  shows "\<exists>res p'. executes (NewMpcSignStep (Some mpc)) sc p res None p' \<and> Q p' \<and> delivers StepMpcSign res"
proof -
  let ?u = "payload_string (sg_Payload (sc_Saga sc)) ''unsigned_tx_hex''"
  let ?x = "\<lparr>msr_TxID = tx_TxID (sc_Tx sc), msr_UnsignedTxHex = (if ?u = '''' then ''unsigned-'' @ tx_TxID (sc_Tx sc) else ?u)\<rparr>"
  obtain r p' where r: "Sign mpc ?x p = (Inr r, p')" "r \<noteq> ''''" "Q p'" using assms by blast
  let ?res = "\<lparr>res_State = StateSigned, res_PayloadMerge = [''signed_tx_hex'' \<mapsto> AStr r], res_Terminal = False\<rparr>"
  have "executes (NewMpcSignStep (Some mpc)) sc p ?res None p'"
    using r(1) by (simp add: NewMpcSignStep_def MpcSignStep_Execute_def executes_def rpc_def Let_def)
  moreover have "delivers StepMpcSign ?res" using r by (simp add: delivers_def StateForStep_def)
  ultimately show ?thesis using r by blast
qed

lemma broadcast_delivers:
  assumes "\<And>x. \<exists>r p'. Broadcast bc x p = (Inr r, p') \<and> bcs_TxHash r \<noteq> '''' \<and> Q p'" and "Q p"
    and "payload_string (sg_Payload (sc_Saga sc)) ''signed_tx_hex'' \<noteq> ''''"
  shows "\<exists>res p'. executes (NewBroadcastStep rt (Some bc)) sc p res None p' \<and> Q p' \<and> delivers StepBroadcast res"
proof (cases "payload_string (sg_Payload (sc_Saga sc)) ''tx_hash'' = ''''")
  case False
  let ?h = "payload_string (sg_Payload (sc_Saga sc)) ''tx_hash''"
  let ?res = "\<lparr>res_State = StateBroadcasted, res_PayloadMerge = [''tx_hash'' \<mapsto> AStr ?h], res_Terminal = False\<rparr>"
  have "executes (NewBroadcastStep rt (Some bc)) sc p ?res None p"
    using False by (auto simp: NewBroadcastStep_def BroadcastStep_Execute_def executes_def Let_def)
  moreover have "delivers StepBroadcast ?res" using False by (simp add: delivers_def StateForStep_def)
  ultimately show ?thesis using assms(2) by blast
next
  case True
  obtain r p' where r: "Broadcast bc \<lparr>bcr_TxID = tx_TxID (sc_Tx sc),
      bcr_SignedTxHex = payload_string (sg_Payload (sc_Saga sc)) ''signed_tx_hex''\<rparr> p = (Inr r, p')" "bcs_TxHash r \<noteq> ''''" "Q p'"
    using assms(1) by blast
  let ?p0 = "[''tx_hash'' \<mapsto> AStr (bcs_TxHash r)]"
  let ?p1 = "if bcs_InMempool r then ?p0(''in_mempool'' \<mapsto> ABool True) else ?p0"
  let ?p2 = "if bcs_Confirmed r then ?p1(''confirmed'' \<mapsto> ABool True) else ?p1"
  let ?res = "\<lparr>res_State = StateBroadcasted, res_PayloadMerge = ?p2, res_Terminal = False\<rparr>"
  have "executes (NewBroadcastStep rt (Some bc)) sc p ?res None p'"
    using r(1) True assms(3) by (simp add: NewBroadcastStep_def BroadcastStep_Execute_def executes_def rpc_def Let_def)
  moreover have "?p2 ''tx_hash'' = Some (AStr (bcs_TxHash r))" by simp
  then have "delivers StepBroadcast ?res" using r(2) by (simp add: delivers_def StateForStep_def)
  ultimately show ?thesis using r(3) by blast
qed

lemma ledger_delivers:
  assumes "\<And>x. \<exists>r p'. PostDoubleEntry led x p = (Inr r, p') \<and> Q p'" and "Q p"
  shows "\<exists>res p'. executes (NewLedgerStep (Some led)) sc p res None p' \<and> Q p' \<and> delivers StepLedger res"
proof (cases "payload_string (sg_Payload (sc_Saga sc)) ''ledger_journal_id'' = ''''")
  case False
  let ?res = "\<lparr>res_State = StateLedgered, res_PayloadMerge = [''ledger_journal_id'' \<mapsto>
    AStr (payload_string (sg_Payload (sc_Saga sc)) ''ledger_journal_id'')], res_Terminal = False\<rparr>"
  have "executes (NewLedgerStep (Some led)) sc p ?res None p"
    using False by (auto simp: NewLedgerStep_def LedgerStep_Execute_def executes_def Let_def)
  moreover have "delivers StepLedger ?res" by (simp add: delivers_def StateForStep_def)
  ultimately show ?thesis using assms(2) by blast
next
  case True
  obtain r p' where r: "PostDoubleEntry led \<lparr>lpr_TxID = tx_TxID (sc_Tx sc), lpr_UserID = tx_UserID (sc_Tx sc),
      lpr_Amount = tx_Amount (sc_Tx sc), lpr_Asset = tx_Asset (sc_Tx sc), lpr_Rail = tx_Rail (sc_Tx sc)\<rparr> p = (Inr r, p')" "Q p'"
    using assms(1) by blast
  let ?res = "\<lparr>res_State = StateLedgered, res_PayloadMerge = [''ledger_journal_id'' \<mapsto> AStr r], res_Terminal = False\<rparr>"
  have "executes (NewLedgerStep (Some led)) sc p ?res None p'"
    using r True by (simp add: NewLedgerStep_def LedgerStep_Execute_def executes_def rpc_def Let_def)
  moreover have "delivers StepLedger ?res" using r by (simp add: delivers_def StateForStep_def)
  ultimately show ?thesis using r by blast
qed

lemma cooperative_step:
  assumes coop: "cooperative Q c" and "Q p" and "on_track sg" and sc: "sc_Saga sc = sg"
    and e: "e = NewExecutor rt s c cfg" and step: "StepByName e (sg_CurrentStep sg) = Some step"
  shows "\<exists>res p'. executes step sc p res None p' \<and> Q p' \<and> delivers (sg_CurrentStep sg) res"
proof -
  from coop obtain pol pay kyt mpc bc led where c: "cl_Policy c = Some pol" "cl_Payment c = Some pay"
    "cl_Kyt c = Some kyt" "cl_Mpc c = Some mpc" "cl_Blockchain c = Some bc" "cl_Ledger c = Some led"
    and ok: "\<forall>p. Q p \<longrightarrow>
           (\<forall>x. \<exists>r p'. Evaluate pol x p = (Inr r, p') \<and> pls_Decision r \<noteq> PolicyDeny \<and> Q p') \<and>
           (\<forall>x. \<exists>r p'. Authorize pay x p = (Inr r, p') \<and> Q p') \<and>
           (\<forall>x. \<exists>r p'. Capture pay x p = (Inr r, p') \<and> Q p') \<and>
           (\<forall>x. \<exists>r p'. Screen kyt x p = (Inr r, p') \<and> kys_Decision r = KytClear \<and> Q p') \<and>
           (\<forall>x. \<exists>r p'. Sign mpc x p = (Inr r, p') \<and> r \<noteq> '''' \<and> Q p') \<and>
           (\<forall>x. \<exists>r p'. Broadcast bc x p = (Inr r, p') \<and> bcs_TxHash r \<noteq> '''' \<and> Q p') \<and>
           (\<forall>x. \<exists>r p'. Status bc x p = (Inr r, p') \<and> bcs_Confirmed r \<and> Q p') \<and>
           (\<forall>x. \<exists>r p'. PostDoubleEntry led x p = (Inr r, p') \<and> Q p')"
    unfolding cooperative_def by blast
  note now = ok [rule_format, OF assms(2)]
  have track: "sg_CurrentStep sg \<in> set StepOrder"
    "sg_CurrentStep sg = StepBroadcast \<Longrightarrow> payload_string (sg_Payload (sc_Saga sc)) ''signed_tx_hex'' \<noteq> ''''"
    using assms(3) sc by (simp_all add: on_track_def)
  have steps: "ex_Steps e = [NewPolicyStep (Some pol), NewPaymentStep (Some pay), NewKytStep (Some kyt),
      NewMpcSignStep (Some mpc), NewBroadcastStep rt (Some bc), NewLedgerStep (Some led)]"
    by (simp add: e NewExecutor_def c)
  note pick = StepByName_def
  from track(1) consider "sg_CurrentStep sg = StepPolicy" | "sg_CurrentStep sg = StepPayment" | "sg_CurrentStep sg = StepKyt"
    | "sg_CurrentStep sg = StepMpcSign" | "sg_CurrentStep sg = StepBroadcast" | "sg_CurrentStep sg = StepLedger"
    by (auto simp: StepOrder_def)
  then show ?thesis
  proof cases
    case 1
    with step have "step = NewPolicyStep (Some pol)" by (simp add: pick steps)
    with 1 policy_delivers [of pol p Q sc] now show ?thesis by simp
  next
    case 2
    with step have "step = NewPaymentStep (Some pay)" by (simp add: pick steps)
    with 2 payment_delivers [of pay p Q sc] now ok show ?thesis by simp
  next
    case 3
    with step have "step = NewKytStep (Some kyt)" by (simp add: pick steps)
    with 3 kyt_delivers [of kyt p Q sc] now show ?thesis by simp
  next
    case 4
    with step have "step = NewMpcSignStep (Some mpc)" by (simp add: pick steps)
    with 4 mpc_delivers [of mpc p Q sc] now show ?thesis by simp
  next
    case 5
    with step have "step = NewBroadcastStep rt (Some bc)" by (simp add: pick steps)
    with 5 broadcast_delivers [of bc p Q sc rt, OF _ assms(2) track(2)] now show ?thesis by simp
  next
    case 6
    with step have "step = NewLedgerStep (Some led)" by (simp add: pick steps)
    with 6 ledger_delivers [of led p Q sc] assms(2) now show ?thesis by simp
  qed
qed

text \<open>The path to the state of a step, and on to \<open>COMPLETED\<close> after the last, is legal.\<close>

lemma delivered_path:
  assumes "on_track sg" and "delivers (sg_CurrentStep sg) res"
  shows "validatePath (sg_State sg) (res_State res) (sg_State (advanced_saga sg (sg_CurrentStep sg) res)) = None"
  using assms
  by (cases "sg_CurrentStep sg")
    (auto simp: on_track_def state_before_def delivers_def StateForStep_def advanced_saga_def Let_def validatePath_def
      Transition_def forward_def StepOrder_def split: if_splits)

text \<open>The saga after a step: completed, waiting for the confirmation, or on its way.\<close>

lemma delivered_saga:
  assumes "on_track sg" and "delivers (sg_CurrentStep sg) res"
  defines "new \<equiv> advanced_saga sg (sg_CurrentStep sg) res"
  shows "sg_CurrentStep sg = StepLedger \<Longrightarrow> sg_State new = StateCompleted"
    and "sg_CurrentStep sg = StepBroadcast \<Longrightarrow> sg_State new = StateBroadcasted \<and> sg_CurrentStep new = StepLedger \<and>
      payload_string (sg_Payload new) ''tx_hash'' \<noteq> ''''"
    and "sg_CurrentStep sg \<notin> {StepBroadcast, StepLedger} \<Longrightarrow> on_track new \<and> \<not> Terminal (sg_State new) \<and>
      sg_State new \<noteq> StateBroadcasted \<and> StepAfter (sg_CurrentStep sg) = Some (sg_CurrentStep new)"
  using assms
  by (cases "sg_CurrentStep sg";
      auto simp: on_track_def state_before_def delivers_def StateForStep_def advanced_saga_def Let_def StepOrder_def
        payload_string_def mergePayload_def map_add_def)+

lemma mem_confirm:
  assumes e: "ex_Store e = mem_ops" and st: "stored txID tx sg (w_db w)" and state: "sg_State sg = StateBroadcasted"
    and hash: "payload_string (sg_Payload sg) ''tx_hash'' \<noteq> ''''"
    and cl: "ex_Clients e = Some c" "cl_Blockchain c = Some bc"
    and status: "Status bc (payload_string (sg_Payload sg) ''tx_hash'') (net_peers (w_net w)) = (Inr resp, p')" "bcs_Confirmed resp"
  shows "\<exists>w' sg'. advanceToConfirmed (Suc k) rt e txID w = (Returned None, w') \<and> ms_sagas (w_db w') txID = Some sg' \<and>
    sg_State sg' = StateConfirmed \<and> sg_CurrentStep sg' = StepLedger \<and> net_peers (w_net w') = p' \<and>
    ms_steps (w_db w') = ms_steps (w_db w)"
proof -
  let ?h = "payload_string (sg_Payload sg) ''tx_hash''"
  let ?w1 = "w\<lparr>w_net := (w_net w)\<lparr>net_peers := p'\<rparr>\<rparr>"
  have w1: "on_net (rpc (Status bc ?h)) w = (Inr resp, ?w1)" by (rule on_net_eq) (simp add: rpc_def status)
  obtain clk ids w2 where w2: "w_stamp rt ?w1 = ((clk, ids), w2)" by (metis surj_pair)
  have same: "w_db w2 = w_db w" "net_peers (w_net w2) = p'" using w_stamp_db [of rt ?w1] w2 by simp_all
  have tr: "snd (Transition StateBroadcasted StateConfirmed) = None" by (simp add: Transition_def forward_def)
  let ?new = "sg\<lparr>sg_State := StateConfirmed, sg_CurrentStep := StepLedger, sg_Version := sg_Version sg + 1\<rparr>"
  obtain s' where s': "persist_confirmed mem_ops txID tx sg clk ids (w_db w) = (Inr (), s')"
    "ms_sagas s' txID = Some ?new" "ms_steps s' = ms_steps (w_db w)"
    using st stored_facts [OF st]
    by (simp add: persist_confirmed_def Let_def state tr thenE_def bindE_def ignE_def okE_def stored_def
        mem_SaveSagaState_def mem_UpdateTransactionStatus_def mem_AppendOutbox_def)
  have "persistConfirmedInline rt mem_ops txID sg ?w1 = (Inr (), w2\<lparr>w_db := s'\<rparr>)"
    using st s'(1) same(1)
    by (simp add: persistConfirmedInline_def mem_LoadTx_def stored_def w2 RunInTx_mem_eta on_db_def)
  then have "advanceToConfirmed (Suc k) rt e txID w = (Returned None, w2\<lparr>w_db := s'\<rparr>)"
    using st hash status(2)
    by (simp add: advanceToConfirmed_def e cl mem_LoadSagaState_def stored_def Let_def poll_loop.simps w1)
  with s' same show ?thesis by (intro exI [of _ "w2\<lparr>w_db := s'\<rparr>"] exI [of _ ?new]) simp
qed

section \<open>The run to \<open>COMPLETED\<close>\<close>

text \<open>A saga on its way whose remaining steps have no succeeded row.\<close>

definition under_way :: "string \<Rightarrow> mem_store \<Rightarrow> bool" where
  "under_way txID T \<longleftrightarrow>
     (\<exists>tx sg. stored txID tx sg T \<and> on_track sg \<and> (\<forall>st \<in> set (steps_from (sg_CurrentStep sg)). unsucceeded txID st 1 T))"

lemma under_way_next:
  assumes "stored txID tx sg T" and "on_track sg" and "StepAfter st = Some (sg_CurrentStep sg)"
    and "\<And>st'. st' \<noteq> st \<Longrightarrow> st' \<in> set (steps_from st) \<Longrightarrow> unsucceeded txID st' 1 T"
  shows "under_way txID T"
  using assms steps_from_after [OF assms(3)] steps_from_distinct [OF assms(3)]
  unfolding under_way_def by (metis list.set_intros(2))

lemma on_track_not_terminal: "on_track sg \<Longrightarrow> \<not> Terminal (sg_State sg)"
  by (cases "sg_CurrentStep sg") (auto simp: on_track_def state_before_def StepOrder_def)

text \<open>The steps still to do.\<close>

definition remaining :: "string \<Rightarrow> mem_store \<Rightarrow> Step list" where
  "remaining txID T = (case ms_sagas T txID of None \<Rightarrow> [] | Some sg \<Rightarrow> steps_from (sg_CurrentStep sg))"

lemma remaining_stored: "stored txID tx sg T \<Longrightarrow> remaining txID T = steps_from (sg_CurrentStep sg)"
  by (simp add: remaining_def stored_def)

lemma cooperative_turn:
  fixes w :: "(mem_store, 'p, 'l) world"
  assumes coop: "cooperative Q c" and Q: "Q (net_peers (w_net w))" and way: "under_way txID (w_db w)"
    and retries: "1 \<le> cfg_MaxRetries cfg" and pf: "0 < pf"
    and run: "run_turn rt (NewExecutor rt mem_ops c cfg) pf txID owner w = (t, w')"
  shows "((t = Stop (Returned None) \<and> remaining txID (w_db w) = [StepLedger] \<and> (\<exists>sg. ms_sagas (w_db w') txID = Some sg \<and> sg_State sg = StateCompleted)) \<or>
    (t = Continue \<and> Q (net_peers (w_net w')) \<and> under_way txID (w_db w') \<and> steps_left txID (w_db w') < steps_left txID (w_db w) \<and>
     remaining txID (w_db w) = hd (remaining txID (w_db w)) # remaining txID (w_db w'))) \<and>
    (\<forall>st. st = hd (remaining txID (w_db w)) \<or> succeeded txID st (w_db w) \<longrightarrow> succeeded txID st (w_db w'))"
proof -
  let ?e = "NewExecutor rt mem_ops c cfg :: (mem_store, 'p, 'l) Executor"
  from way obtain tx sg where st: "stored txID tx sg (w_db w)" and tr: "on_track sg"
    and fresh: "\<And>st. st \<in> set (steps_from (sg_CurrentStep sg)) \<Longrightarrow> unsucceeded txID st 1 (w_db w)"
    unfolding under_way_def by blast
  note nt = on_track_not_terminal [OF tr]
  have reg: "sg_CurrentStep sg \<in> set StepOrder" using tr by (simp add: on_track_def)
  then have "sg_CurrentStep sg \<in> set (map Name (ex_Steps ?e))" by (simp add: NewExecutor_def StepOrder_def)
  then obtain step where step: "StepByName ?e (sg_CurrentStep sg) = Some step" "step \<in> set (ex_Steps ?e)" "Name step = sg_CurrentStep sg"
    using StepByName_found by blast
  have contract: "step_contract step" using step(2) by (auto simp: NewExecutor_def)
  let ?sc = "\<lparr>sc_Tx = tx, sc_Saga = sg, sc_Attempt = 1, sc_Partners = ex_Clients ?e\<rparr>"
  obtain res p' where res: "executes step ?sc (net_peers (w_net w)) res None p'" "Q p'" "delivers (sg_CurrentStep sg) res"
    using cooperative_step [OF coop Q tr _ refl step(1), of ?sc] by auto
  let ?new = "advanced_saga sg (sg_CurrentStep sg) res"
  have lease: "\<And>tx ow ttl l. fst (Acquire (ex_Lease ?e) tx ow ttl l) = Inr True"
    by (simp add: NewExecutor_def NoopLease_def)
  have "\<exists>w2 tx2. run_turn rt ?e pf txID owner w = after_step rt ?e pf txID w2 \<and>
      stored txID tx2 ?new (w_db w2) \<and> net_peers (w_net w2) = p' \<and> other_steps txID (Name step) (w_db w) (w_db w2) \<and>
      succeeded txID (Name step) (w_db w2)"
    using mem_turn_success [OF NewExecutor_store st nt step(1) contract lease _ _ res(1), of rt pf owner]
      retries fresh [OF steps_from_head [OF reg]] delivered_path [OF tr res(3)] step(3)
    by (simp add: NewExecutor_def)
  then obtain w2 tx2 where w2: "run_turn rt ?e pf txID owner w = after_step rt ?e pf txID w2"
    "stored txID tx2 ?new (w_db w2)" "net_peers (w_net w2) = p'" "other_steps txID (sg_CurrentStep sg) (w_db w) (w_db w2)"
    "succeeded txID (sg_CurrentStep sg) (w_db w2)"
    using step(3) by auto
  have rem: "remaining txID (w_db w) = steps_from (sg_CurrentStep sg)" "hd (remaining txID (w_db w)) = sg_CurrentStep sg"
    using remaining_stored [OF st] reg by (auto simp: StepOrder_def steps_from_def)
  have rows: "\<forall>st. st = hd (remaining txID (w_db w)) \<or> succeeded txID st (w_db w) \<longrightarrow> succeeded txID st (w_db w2)"
    using w2(4,5) rem(2) succeeded_other by metis
  have later: "unsucceeded txID st' 1 (w_db w2)" if "st' \<noteq> sg_CurrentStep sg" "st' \<in> set (steps_from (sg_CurrentStep sg))" for st'
    using unsucceeded_other [OF w2(4) that(1) fresh [OF that(2)]] .
  have left: "steps_left txID (w_db w) = length (steps_from (sg_CurrentStep sg))"
    using st nt by (simp add: steps_left_def stored_def)
  note after = run [unfolded w2(1) after_step_def Let_def NewExecutor_store mem_ops_simps]
  have load: "mem_LoadSagaState txID (w_db w2) = Inr ?new" using w2(2) by (simp add: mem_LoadSagaState_def stored_def)
  consider (last) "sg_CurrentStep sg = StepLedger" | (wait) "sg_CurrentStep sg = StepBroadcast"
    | (go) "sg_CurrentStep sg \<notin> {StepBroadcast, StepLedger}" by blast
  then show ?thesis
  proof cases
    case last
    then have "remaining txID (w_db w) = [StepLedger]" using rem(1) by (simp add: steps_from_def StepOrder_def)
    then show ?thesis using delivered_saga(1) [OF tr res(3) last] after load w2(2) rows by (auto simp: stored_def)
  next
    case go
    note new = delivered_saga(3) [OF tr res(3) go]
    have "remaining txID (w_db w) = hd (remaining txID (w_db w)) # remaining txID (w_db w2)"
      using steps_from_after new rem remaining_stored [OF w2(2)] by auto
    then show ?thesis
      using under_way_next [OF w2(2) _ _ later] ready_moved_on [OF w2(2) _ later] new after load w2(3) res(2) left rows by auto
  next
    case wait
    note new = delivered_saga(2) [OF tr res(3) wait]
    obtain bc where bc: "cl_Blockchain c = Some bc" and
      status: "\<And>x. \<exists>r p1. Status bc x p' = (Inr r, p1) \<and> bcs_Confirmed r \<and> Q p1"
      using coop res(2) unfolding cooperative_def by blast
    obtain resp p1 where s: "Status bc (payload_string (sg_Payload ?new) ''tx_hash'') (net_peers (w_net w2)) = (Inr resp, p1)"
      "bcs_Confirmed resp" "Q p1" using status w2(3) by blast
    obtain k where k: "pf = Suc k" using pf by (cases pf) auto
    have cl: "ex_Clients ?e = Some c" by (simp add: NewExecutor_def)
    obtain w3 sg' where w3: "advanceToConfirmed pf rt ?e txID w2 = (Returned None, w3)" "ms_sagas (w_db w3) txID = Some sg'"
      "sg_State sg' = StateConfirmed" "sg_CurrentStep sg' = StepLedger" "net_peers (w_net w3) = p1" "ms_steps (w_db w3) = ms_steps (w_db w2)"
      using mem_confirm [OF NewExecutor_store w2(2) _ _ cl bc s(1,2), of k rt] new k by blast
    then have t: "t = Continue" "w' = w3" using after load new by auto
    have "safe_step txID (w_db w2) (w_db (snd (advanceToConfirmed pf rt ?e txID w2)))"
      by (rule mem.advanceToConfirmed_safe) (simp_all add: stored_synced [OF w2(2)])
    then have "synced txID (w_db w3)" using w3(1) by (simp add: safe_step_def)
    then obtain tx3 where st3: "stored txID tx3 sg' (w_db w3)" using w3(2) unfolding stored_def synced_def by auto
    have track: "on_track sg'" using w3(3,4) by (simp add: on_track_def state_before_def StepOrder_def)
    have nxt: "StepAfter (sg_CurrentStep sg) = Some (sg_CurrentStep sg')" using wait w3(4) by simp
    have later3: "unsucceeded txID st' 1 (w_db w3)" if "st' \<noteq> sg_CurrentStep sg" "st' \<in> set (steps_from (sg_CurrentStep sg))" for st'
      using later [OF that] unsucceeded_same_steps [OF w3(6)] by simp
    show ?thesis
      using under_way_next [OF st3 track nxt later3] ready_moved_on [OF st3 nxt later3] t w3(5) s(3) left
        steps_from_after [OF nxt] rem remaining_stored [OF st3] rows succeeded_same_steps [OF w3(6)] by simp
  qed
qed

lemma cooperative_Run:
  fixes w :: "(mem_store, 'p, 'l) world"
  assumes "cooperative Q c" and "1 \<le> cfg_MaxRetries cfg" and "0 < pf"
    and "Q (net_peers (w_net w))" and "under_way txID (w_db w)" and "steps_left txID (w_db w) < n"
  shows "\<exists>w' sg. Run rt (NewExecutor rt mem_ops c cfg) pf txID owner n w = (Returned None, w') \<and>
    ms_sagas (w_db w') txID = Some sg \<and> sg_State sg = StateCompleted \<and>
    (\<forall>st. st \<in> set (remaining txID (w_db w)) \<or> succeeded txID st (w_db w) \<longrightarrow> succeeded txID st (w_db w'))"
  using assms(4-6)
proof (induction n arbitrary: w)
  case 0
  then show ?case by simp
next
  case (Suc n)
  obtain t w1 where t: "run_turn rt (NewExecutor rt mem_ops c cfg) pf txID owner w = (t, w1)" by (metis surj_pair)
  note turn = cooperative_turn [OF assms(1) Suc.prems(1,2) assms(2,3) t]
  from turn [THEN conjunct1] show ?case
  proof (elim disjE conjE exE)
    fix sg
    assume "t = Stop (Returned None)" "ms_sagas (w_db w1) txID = Some sg" "sg_State sg = StateCompleted"
      "remaining txID (w_db w) = [StepLedger]"
    then show ?thesis using t turn [THEN conjunct2] by (simp add: Run.simps)
  next
    assume c: "t = Continue" "Q (net_peers (w_net w1))" "under_way txID (w_db w1)" "steps_left txID (w_db w1) < steps_left txID (w_db w)"
      "remaining txID (w_db w) = hd (remaining txID (w_db w)) # remaining txID (w_db w1)"
    have "\<exists>w' sg. Run rt (NewExecutor rt mem_ops c cfg) pf txID owner n w1 = (Returned None, w') \<and>
        ms_sagas (w_db w') txID = Some sg \<and> sg_State sg = StateCompleted \<and>
        (\<forall>st. st \<in> set (remaining txID (w_db w1)) \<or> succeeded txID st (w_db w1) \<longrightarrow> succeeded txID st (w_db w'))"
      by (rule Suc.IH) (use c Suc.prems(3) in simp_all)
    then obtain w' sg where w': "Run rt (NewExecutor rt mem_ops c cfg) pf txID owner n w1 = (Returned None, w')"
      "ms_sagas (w_db w') txID = Some sg" "sg_State sg = StateCompleted"
      "\<forall>st. st \<in> set (remaining txID (w_db w1)) \<or> succeeded txID st (w_db w1) \<longrightarrow> succeeded txID st (w_db w')" by blast
    have "\<forall>st. st \<in> set (remaining txID (w_db w)) \<or> succeeded txID st (w_db w) \<longrightarrow> succeeded txID st (w_db w')"
      using w'(4) turn [THEN conjunct2] c(5) by (metis set_ConsD)
    with w'(1-3) t c(1) show ?thesis by (simp add: Run.simps)
  qed
qed

lemma demo_under_way: "under_way ''tx-1'' (w_db demo_world)"
  using demo_stored demo_rows
  by (force simp: under_way_def on_track_def state_before_def demo_world_def demo_saga_def StepOrder_def
      unsucceeded_def row_at_def demo_db_def)

lemma stub_cooperates: "cooperative (\<lambda>s. stub_cfg s = DefaultStubConfig) demo_clients"
  by (auto simp: cooperative_def demo_clients_def stub_defs DefaultStubConfig_def Let_def)

text \<open>C9: when the partners cooperate, a new transaction (or one anywhere on its way) is completed:
  \<open>Run\<close> returns without an error after at most seven turns, the saga is \<open>COMPLETED\<close>, and every step that was left has a row
  with the status \<open>SUCCEEDED\<close>.\<close>

theorem Run_completes:
  fixes w :: "(mem_store, 'p, 'l) world"
  assumes "cooperative Q c" and "Q (net_peers (w_net w))" and "under_way txID (w_db w)"
    and "1 \<le> cfg_MaxRetries cfg" and "0 < pf" and "7 \<le> n"
  shows "\<exists>w' sg. Run rt (NewExecutor rt mem_ops c cfg) pf txID owner n w = (Returned None, w') \<and>
    ms_sagas (w_db w') txID = Some sg \<and> sg_State sg = StateCompleted \<and>
    (\<forall>st \<in> set (remaining txID (w_db w)). succeeded txID st (w_db w'))"
  using cooperative_Run [OF assms(1,4,5,2,3), of n rt owner] steps_left_le [of txID "w_db w"] assms(6) by fastforce

theorem Run_completes_witness:
  "\<exists>w' sg. Run demo_rt demo_executor 1 ''tx-1'' ''worker-0'' 7 demo_world = (Returned None, w') \<and>
     ms_sagas (w_db w') ''tx-1'' = Some sg \<and> sg_State sg = StateCompleted \<and> succeeded ''tx-1'' StepLedger (w_db w')"
proof -
  have "StepLedger \<in> set (remaining ''tx-1'' (w_db demo_world))"
    using demo_stored by (simp add: demo_world_def remaining_stored demo_saga_def steps_from_def StepOrder_def)
  with Run_completes [OF stub_cooperates, of demo_world "''tx-1''" DefaultConfig 1 7 demo_rt "''worker-0''"] demo_under_way
  show ?thesis by (fastforce simp: demo_executor_def demo_world_def NewStub_def DefaultConfig_def)
qed

text \<open>C31: a policy denial ends the saga at once: \<open>Run\<close> returns without an error, the saga is
  \<open>FAILED_COMPENSATED\<close> with the reason in its payload, and no partner but the policy service was called.\<close>

theorem policy_denial_stops:
  fixes w :: "(mem_store, 'p, 'l) world"
  assumes "stored txID tx sg (w_db w)" and "\<not> Terminal (sg_State sg)" and "sg_CurrentStep sg = StepPolicy"
    and "unsucceeded txID StepPolicy 1 (w_db w)" and "cl_Policy c = Some pol" and "1 \<le> cfg_MaxRetries cfg"
    and "Evaluate pol \<lparr>plr_TxID = tx_TxID tx, plr_UserID = tx_UserID tx, plr_QuoteID = tx_QuoteID tx,
        plr_Amount = tx_Amount tx, plr_Asset = tx_Asset tx, plr_Rail = tx_Rail tx, plr_DestAddress = tx_DestAddress tx\<rparr>
        (net_peers (w_net w)) = (Inr resp, p')"
    and "pls_Decision resp = PolicyDeny"
  shows "\<exists>w' sg'. Run rt (NewExecutor rt mem_ops c cfg) pf txID owner (Suc n) w = (Returned None, w') \<and>
    ms_sagas (w_db w') txID = Some sg' \<and> sg_State sg' = StateFailedCompensated \<and>
    sg_Payload sg' ''policy_reason'' = Some (AStr (pls_Reason resp)) \<and> net_peers (w_net w') = p'"
proof -
  let ?e = "NewExecutor rt mem_ops c cfg :: (mem_store, 'p, 'l) Executor"
  let ?step = "NewPolicyStep (Some pol)"
  let ?sc = "\<lparr>sc_Tx = tx, sc_Saga = sg, sc_Attempt = 1, sc_Partners = ex_Clients ?e\<rparr>"
  let ?res = "\<lparr>res_State = StateFailedCompensated, res_PayloadMerge = [''policy_reason'' \<mapsto> AStr (pls_Reason resp)], res_Terminal = True\<rparr>"
  have exec: "executes ?step ?sc (net_peers (w_net w)) ?res (Some (ErrorString (''policy denied: '' @ pls_Reason resp))) p'"
    using assms(7,8) by (simp add: executes_def NewPolicyStep_def PolicyStep_Execute_def rpc_def)
  have step: "StepByName ?e (sg_CurrentStep sg) = Some ?step"
    by (simp add: StepByName_def NewExecutor_def assms(3,5))
  have lease: "\<And>tx ow ttl l. fst (Acquire (ex_Lease ?e) tx ow ttl l) = Inr True"
    by (simp add: NewExecutor_def NoopLease_def)
  obtain w' where "run_turn rt ?e pf txID owner w = (Stop (Returned None), w')"
    "ms_sagas (w_db w') txID = Some (terminal_saga sg ?res)" "net_peers (w_net w') = p'"
    using mem_turn_terminal [OF NewExecutor_store assms(1,2) step lease _ _ exec, of rt pf owner] assms(4,6)
    by (auto simp: NewExecutor_def IsFailure_def)
  then show ?thesis by (simp add: Run.simps terminal_saga_def mergePayload_def)
qed

definition denying_world :: "(mem_store, Stub, unit) world" where
  "denying_world = demo_world\<lparr>w_net := \<lparr>net_peers = NewStub (DefaultStubConfig\<lparr>sc_PolicyDecision := PolicyDeny\<rparr>), net_tick = 0\<rparr>\<rparr>"

theorem policy_denial_stops_witness:
  "\<exists>w' sg'. Run demo_rt demo_executor 1 ''tx-1'' ''worker-0'' 1 denying_world = (Returned None, w') \<and>
     ms_sagas (w_db w') ''tx-1'' = Some sg' \<and> sg_State sg' = StateFailedCompensated \<and>
     AuthorizeCalls (net_peers (w_net w')) = 0 \<and> PolicyCalls (net_peers (w_net w')) = 1"
proof -
  have fresh: "unsucceeded ''tx-1'' StepPolicy 1 (w_db denying_world)"
    using demo_rows by (force simp: unsucceeded_def row_at_def denying_world_def demo_world_def demo_db_def)
  have st: "stored ''tx-1'' demo_tx demo_saga (w_db denying_world)"
    using demo_stored by (simp add: denying_world_def demo_world_def)
  let ?p = "NewStub (DefaultStubConfig\<lparr>sc_PolicyDecision := PolicyDeny\<rparr>)"
  from policy_denial_stops [OF st _ _ fresh, of demo_clients "\<lparr>Evaluate = stub_Evaluate\<rparr>" DefaultConfig
      "\<lparr>pls_Decision = PolicyDeny, pls_Reason = ''stub''\<rparr>" "?p\<lparr>PolicyCalls := 1\<rparr>" demo_rt 1 "''worker-0''" 0]
  show ?thesis
    by (fastforce simp: demo_saga_def demo_clients_def DefaultConfig_def stub_defs NewStub_def DefaultStubConfig_def
        denying_world_def demo_executor_def)
qed

section \<open>The ledger step before the confirmation\<close>


definition broadcast_saga :: SagaState where
  "broadcast_saga = demo_saga\<lparr>sg_State := StateBroadcasted, sg_CurrentStep := StepLedger,
     sg_Payload := [''tx_hash'' \<mapsto> AStr ''0xhash'']\<rparr>"

definition broadcast_world :: "(mem_store, Stub, unit) world" where
  "broadcast_world = demo_world\<lparr>w_db := demo_db\<lparr>ms_txs := [''tx-1'' \<mapsto> demo_tx\<lparr>tx_Status := StateBroadcasted\<rparr>],
     ms_sagas := [''tx-1'' \<mapsto> broadcast_saga]\<rparr>\<rparr>"




end
