(* ===== verification/Api.thy ===== *)
theory Api
  imports Auth_Token Config_Load Happy_Path
begin

text \<open>
  The REST API, \<open>internal/api/api.go\<close>, with the quote locker of \<open>internal/quotelocker/quotelocker.go\<close>. A handler is a function from
  the request to a response and the new state: \<open>serve_route\<close> decodes the body of a request, \<open>write_body\<close> is the text of a response.
  Fresh identifiers and the clock are arguments. Logging is left out.
\<close>

section \<open>Quote lock\<close>

record 'q Locker =
  lk_Acquire :: "string \<Rightarrow> ('q, bool) go"
  lk_release :: "string \<Rightarrow> 'q \<Rightarrow> 'q"

definition NoopLocker :: "'q Locker" where
  "NoopLocker = \<lparr>lk_Acquire = (\<lambda>quoteID q. (Inr True, q)), lk_release = (\<lambda>quoteID q. q)\<rparr>"

section \<open>Service\<close>

text \<open>The control plane of the retry and compensate endpoints acts on the store and on a state of its own.\<close>

record ('s, 'c) ControlPlane =
  cp_Retry :: "string \<Rightarrow> Step \<Rightarrow> 's \<times> 'c \<Rightarrow> (go_error option \<times> ('s \<times> 'c)) progress"
  cp_Compensate :: "string \<Rightarrow> 's \<times> 'c \<Rightarrow> (go_error option \<times> ('s \<times> 'c)) progress"

record ('s, 'q, 'c) Service =
  svc_Store :: "'s store_ops"
  svc_Locker :: "'q Locker"
  svc_Control :: "('s, 'c) ControlPlane option"

definition NewService :: "'s store_ops \<Rightarrow> 'q Locker option \<Rightarrow> ('s, 'q, 'c) Service" where
  "NewService s l = \<lparr>svc_Store = s, svc_Locker = (case l of None \<Rightarrow> NoopLocker | Some lk \<Rightarrow> lk), svc_Control = None\<rparr>"

text \<open>\<open>worker.Control\<close> as a control plane: its state is the dispatcher, the partners and the leases.\<close>

definition worker_control ::
  "runtime \<Rightarrow> ('s, 'p, 'l) Executor \<Rightarrow> ('s, ('s, 'p, 'l) Dispatcher \<times> 'p net \<times> 'l) ControlPlane" where
  "worker_control rt ex = \<lparr>
     cp_Retry = (\<lambda>txID step (db, d, n, l).
       case Retry \<lparr>ctl_Dispatcher = d, ctl_Executor = ex\<rparr> txID step db of
         Blocks \<Rightarrow> Blocks
       | Proceeds (err, c) \<Rightarrow> Proceeds (err, (db, ctl_Dispatcher c, n, l))),
     cp_Compensate = (\<lambda>txID (db, d, n, l).
       case Control_Compensate rt \<lparr>ctl_Dispatcher = d, ctl_Executor = ex\<rparr> txID \<lparr>w_db = db, w_net = n, w_leases = l\<rparr> of
         (err, w) \<Rightarrow> Proceeds (err, (w_db w, d, w_net w, w_leases w)))\<rparr>"

section \<open>Requests and responses\<close>

record CreateTxRequest =
  rq_UserID :: string
  rq_QuoteID :: string
  rq_Amount :: string
  rq_Asset :: string
  rq_Rail :: string
  rq_DestAddress :: string

record StepRowResponse =
  rp_StepName :: string
  rp_Status :: string
  rp_Attempt :: int
  rp_StartedAt :: "time option"
  rp_FinishedAt :: "time option"
  rp_Error :: string
  rp_IdempotencyKey :: string

record TxResponse =
  rp_TxID :: string
  rp_UserID :: string
  rp_QuoteID :: string
  rp_Amount :: string
  rp_Asset :: string
  rp_Rail :: string
  rp_DestAddress :: string
  rp_TxStatus :: string
  rp_CurrentStep :: string
  rp_State :: string
  rp_Version :: int
  rp_CreatedAt :: time
  rp_UpdatedAt :: time
  rp_Steps :: "StepRowResponse list"

datatype body =
    ErrorBody string
  | UnauthorizedBody string
  | StatusBody string
  | PlainText string
  | CreateTxResponse string
  | TxBody TxResponse
  | StepsBody "StepRowResponse list"
  | RetryBody string string

record response =
  rs_code :: int
  rs_body :: body

definition writeJSON :: "int \<Rightarrow> body \<Rightarrow> response" where
  "writeJSON code v = \<lparr>rs_code = code, rs_body = v\<rparr>"

text \<open>The bodies as JSON. A field with \<open>omitempty\<close> is left out when it is a nil pointer or an empty string.\<close>

definition step_json :: "StepRowResponse \<Rightarrow> json" where
  "step_json r = JObj ([(''step_name'', JStr (rp_StepName r)), (''status'', JStr (rp_Status r)), (''attempt'', JInt (rp_Attempt r))] @
     (case rp_StartedAt r of None \<Rightarrow> [] | Some t \<Rightarrow> [(''started_at'', time_json t)]) @
     (case rp_FinishedAt r of None \<Rightarrow> [] | Some t \<Rightarrow> [(''finished_at'', time_json t)]) @
     (if rp_Error r = '''' then [] else [(''error'', JStr (rp_Error r))]) @
     [(''idempotency_key'', JStr (rp_IdempotencyKey r))])"

fun body_json :: "body \<Rightarrow> json" where
  "body_json (ErrorBody msg) = JObj [(''error'', JStr msg)]"
| "body_json (UnauthorizedBody msg) = unauthorized_json msg"
| "body_json (StatusBody status) = JMap [(''status'', JStr status)]"
| "body_json (PlainText msg) = JNull"
| "body_json (CreateTxResponse txID) = JObj [(''tx_id'', JStr txID)]"
| "body_json (TxBody t) = JObj [(''tx_id'', JStr (rp_TxID t)), (''user_id'', JStr (rp_UserID t)), (''quote_id'', JStr (rp_QuoteID t)),
     (''amount'', JStr (rp_Amount t)), (''asset'', JStr (rp_Asset t)), (''rail'', JStr (rp_Rail t)), (''dest_address'', JStr (rp_DestAddress t)),
     (''status'', JStr (rp_TxStatus t)), (''current_step'', JStr (rp_CurrentStep t)), (''state'', JStr (rp_State t)),
     (''version'', JInt (rp_Version t)), (''created_at'', time_json (rp_CreatedAt t)), (''updated_at'', time_json (rp_UpdatedAt t)),
     (''steps'', JArr (map step_json (rp_Steps t)))]"
| "body_json (StepsBody rows) = JMap [(''steps'', JArr (map step_json rows))]"
| "body_json (RetryBody status step) = JMap [(''status'', JStr status), (''step'', JStr step)]"

text \<open>The text of a body: an \<open>Encoder\<close> ends the value with a newline, and so does \<open>http.Error\<close> with the text of \<open>ServeMux\<close>.\<close>

definition write_body :: "body \<Rightarrow> string" where
  "write_body b = (case b of PlainText msg \<Rightarrow> msg | _ \<Rightarrow> json_print (body_json b)) @ [char_of (10 :: nat)]"

definition writeErr :: "int \<Rightarrow> string \<Rightarrow> response" where
  "writeErr code msg = writeJSON code (ErrorBody msg)"

text \<open>\<open>string(r.Status)\<close>.\<close>

primrec step_status_string :: "StepStatus \<Rightarrow> string" where
  "step_status_string StepPending = ''PENDING''"
| "step_status_string StepRunning = ''RUNNING''"
| "step_status_string StepSucceeded = ''SUCCEEDED''"
| "step_status_string StepFailed = ''FAILED''"
| "step_status_string StepCompensating = ''COMPENSATING''"
| "step_status_string StepCompensated = ''COMPENSATED''"
| "step_status_string (StatusOther s) = s"

definition toStepResponses :: "StepRow list \<Rightarrow> StepRowResponse list" where
  "toStepResponses rows = map (\<lambda>r. \<lparr>rp_StepName = step_string (row_StepName r), rp_Status = step_status_string (row_Status r),
     rp_Attempt = row_Attempt r, rp_StartedAt = row_StartedAt r, rp_FinishedAt = row_FinishedAt r, rp_Error = row_Error r,
     rp_IdempotencyKey = row_IdempotencyKey r\<rparr>) rows"

section \<open>Creation\<close>

text \<open>\<open>validateCreate\<close> ranges over a Go map, in the order \<open>order\<close> of its keys.\<close>

definition create_fields :: "CreateTxRequest \<Rightarrow> (string \<times> string) list" where
  "create_fields r = [(''user_id'', rq_UserID r), (''quote_id'', rq_QuoteID r), (''amount'', rq_Amount r),
     (''asset'', rq_Asset r), (''rail'', rq_Rail r), (''dest_address'', rq_DestAddress r)]"

text \<open>Reading the body: \<open>None\<close> when it is not a JSON object of strings in its known fields.\<close>

definition create_setters :: "(string \<times> CreateTxRequest setter) list" where
  "create_setters = [(''user_id'', string_field (\<lambda>x r. r\<lparr>rq_UserID := x\<rparr>)), (''quote_id'', string_field (\<lambda>x r. r\<lparr>rq_QuoteID := x\<rparr>)),
     (''amount'', string_field (\<lambda>x r. r\<lparr>rq_Amount := x\<rparr>)), (''asset'', string_field (\<lambda>x r. r\<lparr>rq_Asset := x\<rparr>)),
     (''rail'', string_field (\<lambda>x r. r\<lparr>rq_Rail := x\<rparr>)), (''dest_address'', string_field (\<lambda>x r. r\<lparr>rq_DestAddress := x\<rparr>))]"

definition zero_request :: CreateTxRequest where
  "zero_request = \<lparr>rq_UserID = '''', rq_QuoteID = '''', rq_Amount = '''', rq_Asset = '''', rq_Rail = '''', rq_DestAddress = ''''\<rparr>"

definition Decode_create :: "string \<Rightarrow> CreateTxRequest option" where
  "Decode_create b = (case decoder_Decode create_setters zero_request b of (req, ok) \<Rightarrow> if ok then Some req else None)"

definition validateCreate :: "string list \<Rightarrow> CreateTxRequest \<Rightarrow> go_error option" where
  "validateCreate order r =
     (let missing = filter (\<lambda>k. case map_of (create_fields r) k of None \<Rightarrow> False | Some v \<Rightarrow> trim_space v = '''') order
      in if missing \<noteq> [] then Some (ErrorString (''missing required fields: '' @ strings_Join '', '' missing)) else None)"

definition new_tx :: "CreateTxRequest \<Rightarrow> string \<Rightarrow> time \<Rightarrow> Transaction" where
  "new_tx req txID now = \<lparr>tx_ID = '''', tx_TxID = txID, tx_UserID = rq_UserID req, tx_QuoteID = rq_QuoteID req,
     tx_Amount = rq_Amount req, tx_Asset = rq_Asset req, tx_Rail = rq_Rail req, tx_DestAddress = rq_DestAddress req,
     tx_Status = StateCreated, tx_CreatedAt = now, tx_UpdatedAt = now, tx_Version = 1\<rparr>"

definition new_steps :: "string \<Rightarrow> StepRow list" where
  "new_steps txID = map (\<lambda>st. \<lparr>row_ID = '''', row_TxID = txID, row_StepName = st, row_Status = StepPending, row_Attempt = 1,
     row_StartedAt = None, row_FinishedAt = None, row_Error = '''', row_IdempotencyKey = IdempotencyKey txID st 1\<rparr>) StepOrder"

definition new_saga :: "string \<Rightarrow> SagaState" where
  "new_saga txID = \<lparr>sg_ID = '''', sg_TxID = txID, sg_CurrentStep = StepPolicy, sg_State = StateCreated, sg_LeaseOwner = '''',
     sg_LeaseExpiresAt = None, sg_Payload = Map.empty, sg_Version = 1\<rparr>"

definition handleCreate ::
  "('s, 'q, 'c) Service \<Rightarrow> string list \<Rightarrow> CreateTxRequest option \<Rightarrow> uuid \<Rightarrow> time \<Rightarrow> uuid \<Rightarrow> (nat \<Rightarrow> uuid) \<Rightarrow> 's \<times> 'q \<Rightarrow> response \<times> ('s \<times> 'q)" where
  "handleCreate svc order body txID now eventID ids sq =
     (case sq of (s, q) \<Rightarrow>
      case body of
        None \<Rightarrow> (writeErr 400 ''invalid json body'', (s, q))
      | Some req \<Rightarrow>
     (case validateCreate order req of
        Some err \<Rightarrow> (writeErr 400 (error_text err), (s, q))
      | None \<Rightarrow>
     (case lk_Acquire (svc_Locker svc) (rq_QuoteID req) q of
        (Inl err, q1) \<Rightarrow> (writeErr 500 ''quote lock error'', (s, q1))
      | (Inr ok, q1) \<Rightarrow>
          if \<not> ok then (writeErr 409 ''quote already in use'', (s, q1))
          else
            (let events = [tx_event eventID txID ''transaction.created''
                   [''tx_id'' \<mapsto> AStr txID, ''user_id'' \<mapsto> AStr (rq_UserID req), ''quote_id'' \<mapsto> AStr (rq_QuoteID req)] now];
                 q2 = lk_release (svc_Locker svc) (rq_QuoteID req) q1
             in case RunInTx (svc_Store svc)
                       (op_CreateTx (svc_Store svc) ids (new_tx req txID now) (new_steps txID) (new_saga txID) events) s of
                  (Inl err, s1) \<Rightarrow>
                    (if errors_is err ErrDuplicate then writeErr 409 ''tx already exists'' else writeErr 500 ''create tx failed'', (s1, q2))
                | (Inr _, s1) \<Rightarrow> (writeJSON 201 (CreateTxResponse txID), (s1, q2))))))"

section \<open>Reading\<close>

text \<open>The answer once the transaction and its saga are loaded.\<close>

definition get_response :: "('s, 'q, 'c) Service \<Rightarrow> string \<Rightarrow> Transaction \<Rightarrow> SagaState \<Rightarrow> 's \<Rightarrow> response" where
  "get_response svc txID tx sg s =
     (case op_ListSteps (svc_Store svc) txID s of
        Inl err \<Rightarrow> writeErr 500 ''load steps failed''
      | Inr steps \<Rightarrow> writeJSON 200 (TxBody \<lparr>
          rp_TxID = tx_TxID tx, rp_UserID = tx_UserID tx, rp_QuoteID = tx_QuoteID tx, rp_Amount = tx_Amount tx,
          rp_Asset = tx_Asset tx, rp_Rail = tx_Rail tx, rp_DestAddress = tx_DestAddress tx,
          rp_TxStatus = state_string (tx_Status tx), rp_CurrentStep = step_string (sg_CurrentStep sg),
          rp_State = state_string (sg_State sg), rp_Version = tx_Version tx,
          rp_CreatedAt = tx_CreatedAt tx, rp_UpdatedAt = tx_UpdatedAt tx, rp_Steps = toStepResponses steps\<rparr>))"

text \<open>A saga that is not found leaves its fields at the zero value.\<close>

definition handleGet :: "('s, 'q, 'c) Service \<Rightarrow> string \<Rightarrow> 's \<Rightarrow> response" where
  "handleGet svc txID s =
     (case op_LoadTx (svc_Store svc) txID s of
        Inl err \<Rightarrow> if errors_is err ErrNotFound then writeErr 404 ''not found'' else writeErr 500 ''load tx failed''
      | Inr tx \<Rightarrow>
          (case op_LoadSagaState (svc_Store svc) txID s of
             Inl err \<Rightarrow> if errors_is err ErrNotFound then get_response svc txID tx zero_saga s
                        else writeErr 500 ''load saga failed''
           | Inr sg \<Rightarrow> get_response svc txID tx sg s))"

definition handleSteps :: "('s, 'q, 'c) Service \<Rightarrow> string \<Rightarrow> 's \<Rightarrow> response" where
  "handleSteps svc txID s =
     (case op_LoadTx (svc_Store svc) txID s of
        Inl err \<Rightarrow> if errors_is err ErrNotFound then writeErr 404 ''not found'' else writeErr 500 ''load tx failed''
      | Inr tx \<Rightarrow>
          (case op_ListSteps (svc_Store svc) txID s of
             Inl err \<Rightarrow> writeErr 500 ''load steps failed''
           | Inr steps \<Rightarrow> writeJSON 200 (StepsBody (toStepResponses steps))))"

section \<open>Control endpoints\<close>

text \<open>\<open>step\<close> is the field of the decoded body. An error of the decoder is ignored: what it stored before the error stays.\<close>

definition Decode_step :: "string \<Rightarrow> string" where
  "Decode_step b = fst (decoder_Decode [(''step'', string_field (\<lambda>x _. x))] '''' b)"

definition handleRetry ::
  "('s, 'q, 'c) Service \<Rightarrow> string \<Rightarrow> string \<Rightarrow> 's \<times> 'c \<Rightarrow> (response \<times> ('s \<times> 'c)) progress" where
  "handleRetry svc txID step sc =
     (case svc_Control svc of
        None \<Rightarrow> Proceeds (writeJSON 202 (StatusBody ''retry-accepted''), sc)
      | Some cp \<Rightarrow>
          (case (if step = '''' then op_LoadSagaState (svc_Store svc) txID (fst sc) else Inr (zero_saga\<lparr>sg_CurrentStep := step_of_string step\<rparr>)) of
             Inl err \<Rightarrow> Proceeds (writeErr 400 ''missing --step or current saga state'', sc)
           | Inr sg \<Rightarrow>
               (case cp_Retry cp txID (sg_CurrentStep sg) sc of
                  Blocks \<Rightarrow> Blocks
                | Proceeds (Some err, sc') \<Rightarrow> Proceeds (writeErr 409 (error_text err), sc')
                | Proceeds (None, sc') \<Rightarrow>
                    Proceeds (writeJSON 202 (RetryBody ''retry-accepted'' (step_string (sg_CurrentStep sg))), sc'))))"

definition handleCompensate ::
  "('s, 'q, 'c) Service \<Rightarrow> string \<Rightarrow> 's \<times> 'c \<Rightarrow> (response \<times> ('s \<times> 'c)) progress" where
  "handleCompensate svc txID sc =
     (case svc_Control svc of
        None \<Rightarrow> Proceeds (writeJSON 202 (StatusBody ''compensate-accepted''), sc)
      | Some cp \<Rightarrow>
          (case cp_Compensate cp txID sc of
             Blocks \<Rightarrow> Blocks
           | Proceeds (Some err, sc') \<Rightarrow> Proceeds (writeErr 409 (error_text err), sc')
           | Proceeds (None, sc') \<Rightarrow> Proceeds (writeJSON 202 (StatusBody ''compensate-accepted''), sc')))"

section \<open>The mux\<close>

text \<open>The state that the API works on, and a request: verb, path, headers, the body and what the call draws from the
  clock and the identifier generator.\<close>

record ('s, 'q, 'c) api_state =
  as_db :: 's
  as_quotes :: 'q
  as_control :: 'c

record request =
  rq_verb :: string
  rq_path :: string
  rq_authorization :: string
  rq_request_id :: string
  rq_body :: string
  rq_order :: "string list"
  rq_fresh :: uuid
  rq_now :: time
  rq_event_id :: uuid
  rq_ids :: "nat \<Rightarrow> uuid"

datatype route =
    Healthz | Readyz | CreateRoute | GetRoute string | StepsRoute string | RetryRoute string | CompensateRoute string | NotFoundRoute | MethodNotAllowed

text \<open>The patterns of \<open>Mux\<close> on a clean path; a pattern with \<open>GET\<close> also serves \<open>HEAD\<close>. \<open>ServeMux\<close> itself answers a path without
  a pattern and a verb that no pattern of the path has.\<close>

definition Mux_route :: "string \<Rightarrow> string \<Rightarrow> route" where
  "Mux_route verb path =
     (let get = (verb = ''GET'' \<or> verb = ''HEAD''); post = (verb = ''POST'') in
      case split_on (CHR ''/'') path of
        [[], a] \<Rightarrow> if a = ''healthz'' then Healthz else if a = ''readyz'' then Readyz else NotFoundRoute
      | [[], v, t] \<Rightarrow> if v = ''v1'' \<and> t = ''transactions'' then (if post then CreateRoute else MethodNotAllowed) else NotFoundRoute
      | [[], v, t, i] \<Rightarrow> if v = ''v1'' \<and> t = ''transactions'' \<and> i \<noteq> ''''
          then (if get then GetRoute i else MethodNotAllowed) else NotFoundRoute
      | [[], v, t, i, a] \<Rightarrow>
          if v = ''v1'' \<and> t = ''transactions'' \<and> i \<noteq> '''' then
            (if a = ''steps'' then (if get then StepsRoute i else MethodNotAllowed)
             else if a = ''retry'' then (if post then RetryRoute i else MethodNotAllowed)
             else if a = ''compensate'' then (if post then CompensateRoute i else MethodNotAllowed)
             else NotFoundRoute)
          else NotFoundRoute
      | _ \<Rightarrow> NotFoundRoute)"

text \<open>\<open>withRequestID\<close>: the id of the response header.\<close>

definition withRequestID :: "request \<Rightarrow> uuid \<Rightarrow> string" where
  "withRequestID r fresh = (if rq_request_id r = '''' then fresh else rq_request_id r)"

definition healthz :: response where
  "healthz = writeJSON 200 (StatusBody ''ok'')"

definition readyz :: response where
  "readyz = writeJSON 200 (StatusBody ''ready'')"

definition with_control :: "(response \<times> ('s \<times> 'c)) progress \<Rightarrow> ('s, 'q, 'c) api_state \<Rightarrow> (response \<times> ('s, 'q, 'c) api_state) progress" where
  "with_control p st = (case p of Blocks \<Rightarrow> Blocks | Proceeds (rs, (s, c)) \<Rightarrow> Proceeds (rs, st\<lparr>as_db := s, as_control := c\<rparr>))"

definition serve_route :: "('s, 'q, 'c) Service \<Rightarrow> request \<Rightarrow> ('s, 'q, 'c) api_state \<Rightarrow> (response \<times> ('s, 'q, 'c) api_state) progress" where
  "serve_route svc r st =
     (case Mux_route (rq_verb r) (rq_path r) of
        Healthz \<Rightarrow> Proceeds (healthz, st)
      | Readyz \<Rightarrow> Proceeds (readyz, st)
      | CreateRoute \<Rightarrow>
          (case handleCreate svc (rq_order r) (Decode_create (rq_body r)) (rq_fresh r) (rq_now r) (rq_event_id r) (rq_ids r) (as_db st, as_quotes st) of
             (rs, (s, q)) \<Rightarrow> Proceeds (rs, st\<lparr>as_db := s, as_quotes := q\<rparr>))
      | GetRoute i \<Rightarrow> Proceeds (handleGet svc i (as_db st), st)
      | StepsRoute i \<Rightarrow> Proceeds (handleSteps svc i (as_db st), st)
      | RetryRoute i \<Rightarrow> with_control (handleRetry svc i (Decode_step (rq_body r)) (as_db st, as_control st)) st
      | CompensateRoute i \<Rightarrow> with_control (handleCompensate svc i (as_db st, as_control st)) st
      | NotFoundRoute \<Rightarrow> Proceeds (writeJSON 404 (PlainText ''404 page not found''), st)
      | MethodNotAllowed \<Rightarrow> Proceeds (writeJSON 405 (PlainText ''Method Not Allowed''), st))"

definition Mux ::
  "(byte list \<Rightarrow> go_error) \<Rightarrow> string \<times> bool \<Rightarrow> ('s, 'q, 'c) Service \<Rightarrow> request \<Rightarrow> ('s, 'q, 'c) api_state \<Rightarrow>
   (response \<times> ('s, 'q, 'c) api_state) progress" where
  "Mux json_err secret_bypass svc r st =
     (case Middleware json_err (fst secret_bypass) (snd secret_bypass) (rq_now r div second) (rq_path r) (rq_authorization r) of
        Unauthorized msg \<Rightarrow> Proceeds (writeJSON 401 (UnauthorizedBody msg), st)
      | Serve \<Rightarrow> serve_route svc r st)"

section \<open>Properties of the API\<close>

lemma new_rows:
  assumes "r \<in> set (map (\<lambda>(i, r). with_row_id (ids (1 + i)) r) (enumerate 0 (new_steps txID)))"
  shows "row_TxID r = txID" "row_Status r = StepPending"
proof -
  obtain i x where x: "(i, x) \<in> set (enumerate 0 (new_steps txID))" "r = with_row_id (ids (1 + i)) x" using assms by auto
  from x(1) have "snd (i, x) \<in> snd ` set (enumerate 0 (new_steps txID))" by (rule imageI)
  then have "x \<in> set (new_steps txID)" by (simp flip: set_map)
  then show "row_TxID r = txID" "row_Status r = StepPending" using x(2) by (auto simp: new_steps_def with_row_id_def)
qed

lemma find_row_in: "find_row st k rows = Some r \<Longrightarrow> r \<in> set rows"
  by (metis find_Some_iff find_row_def nth_mem)

lemma created_stored:
  assumes "mem_CreateTx ids (new_tx req txID now) (new_steps txID) (new_saga txID) evs s = (Inr u, s')"
  shows "\<exists>tx sg. stored txID tx sg s' \<and> sg_CurrentStep sg = StepPolicy \<and> sg_State sg = StateCreated" and "unsucceeded txID st 1 s'"
proof -
  let ?tx = "with_tx_id (ids 0) (new_tx req txID now)" and ?sg = "with_sg_id (ids (1 + length (new_steps txID))) (new_saga txID)"
  let ?rows = "map (\<lambda>(i, r). with_row_id (ids (1 + i)) r) (enumerate 0 (new_steps txID))"
  have id: "tx_TxID (new_tx req txID now) = txID" by (simp add: new_tx_def)
  have s': "ms_txs s' txID = Some ?tx" "ms_sagas s' txID = Some ?sg" "ms_steps s' txID = ?rows"
    using assms unfolding mem_CreateTx_def id by (auto split: if_splits)
  have "tx_TxID ?tx = txID" "sg_TxID ?sg = txID" "tx_Status ?tx = sg_State ?sg" "tx_Version ?tx = sg_Version ?sg"
    by (simp_all add: new_tx_def new_saga_def with_tx_id_def with_sg_id_def)
  then have "stored txID ?tx ?sg s'" unfolding stored_def synced_def s' using new_rows(1) [of _ ids txID] by blast
  moreover have "sg_CurrentStep ?sg = StepPolicy" "sg_State ?sg = StateCreated" by (simp_all add: new_saga_def with_sg_id_def)
  ultimately show "\<exists>tx sg. stored txID tx sg s' \<and> sg_CurrentStep sg = StepPolicy \<and> sg_State sg = StateCreated" by blast
  have "row_Status r \<noteq> StepSucceeded" if "row_at txID st k s' = Some r" for k r
    using new_rows(2) [OF find_row_in] that unfolding row_at_def s'(3) by fastforce
  then show "unsucceeded txID st 1 s'" unfolding unsucceeded_def by blast
qed

lemma created_ready:
  assumes "mem_CreateTx ids (new_tx req txID now) (new_steps txID) (new_saga txID) evs s = (Inr u, s')"
  shows "ready txID s'"
  using created_stored [OF assms] unfolding ready_def by (metis StepOrder_def list.set_intros(1))

lemma created_under_way:
  assumes "mem_CreateTx ids (new_tx req txID now) (new_steps txID) (new_saga txID) evs s = (Inr u, s')"
  shows "under_way txID s'"
proof -
  obtain tx sg where sg: "stored txID tx sg s'" "sg_CurrentStep sg = StepPolicy" "sg_State sg = StateCreated"
    using created_stored(1) [OF assms] by blast
  have "on_track sg" using sg(2,3) by (simp add: on_track_def state_before_def StepOrder_def)
  then show ?thesis using sg(1) created_stored(2) [OF assms] unfolding under_way_def by blast
qed

text \<open>The event of a creation, and what the handler does with a valid request.\<close>

definition created_event :: "CreateTxRequest \<Rightarrow> string \<Rightarrow> time \<Rightarrow> uuid \<Rightarrow> OutboxEvent" where
  "created_event req txID now ev = tx_event ev txID ''transaction.created''
     [''tx_id'' \<mapsto> AStr txID, ''user_id'' \<mapsto> AStr (rq_UserID req), ''quote_id'' \<mapsto> AStr (rq_QuoteID req)] now"

lemma handleCreate_valid:
  assumes "svc_Store svc = mem_ops" and "validateCreate order req = None" and "lk_Acquire (svc_Locker svc) (rq_QuoteID req) q = (Inr True, q1)"
  shows "handleCreate svc order (Some req) txID now ev ids (s, q) =
    (case mem_CreateTx ids (new_tx req txID now) (new_steps txID) (new_saga txID) [created_event req txID now ev] s of
       (Inl err, s1) \<Rightarrow> (if errors_is err ErrDuplicate then writeErr 409 ''tx already exists'' else writeErr 500 ''create tx failed'',
         (s1, lk_release (svc_Locker svc) (rq_QuoteID req) q1))
     | (Inr _, s1) \<Rightarrow> (writeJSON 201 (CreateTxResponse txID), (s1, lk_release (svc_Locker svc) (rq_QuoteID req) q1)))"
  by (simp add: handleCreate_def assms Let_def created_event_def)

lemma handleCreate_refused:
  assumes "body = None \<or> (\<exists>req. body = Some req \<and> (validateCreate order req \<noteq> None \<or>
    (\<forall>q1. lk_Acquire (svc_Locker svc) (rq_QuoteID req) q \<noteq> (Inr True, q1))))"
  shows "\<exists>code msg q'. handleCreate svc order body txID now ev ids (s, q) = (writeErr code msg, (s, q')) \<and> code \<in> {400, 409, 500}"
proof (cases body)
  case None
  then have "handleCreate svc order body txID now ev ids (s, q) = (writeErr 400 ''invalid json body'', (s, q))" by (simp add: handleCreate_def)
  then show ?thesis by blast
next
  case (Some req)
  show ?thesis
  proof (cases "validateCreate order req")
    case None
    obtain r q1 where r: "lk_Acquire (svc_Locker svc) (rq_QuoteID req) q = (r, q1)" by fastforce
    with None Some assms have "r \<noteq> Inr True" by auto
    then show ?thesis using None Some r by (cases r) (fastforce simp: handleCreate_def)+
  qed (fastforce simp: handleCreate_def Some)
qed

lemma handleCreate_cases:
  assumes "svc_Store svc = mem_ops" and "handleCreate svc order body txID now ev ids (s, q) = (rs, (s', q'))"
  obtains (refused) code msg where "rs = writeErr code msg" "code \<in> {400, 409, 500}" "s' = s"
    | (created) req where "body = Some req" "validateCreate order req = None" "rs = writeJSON 201 (CreateTxResponse txID)"
        "mem_CreateTx ids (new_tx req txID now) (new_steps txID) (new_saga txID) [created_event req txID now ev] s = (Inr (), s')"
proof (cases "\<exists>req q1. body = Some req \<and> validateCreate order req = None \<and> lk_Acquire (svc_Locker svc) (rq_QuoteID req) q = (Inr True, q1)")
  case True
  then obtain req q1 where v: "body = Some req" "validateCreate order req = None"
    "lk_Acquire (svc_Locker svc) (rq_QuoteID req) q = (Inr True, q1)" by blast
  let ?c = "mem_CreateTx ids (new_tx req txID now) (new_steps txID) (new_saga txID) [created_event req txID now ev] s"
  show ?thesis
  proof (cases "ms_txs s txID")
    case None
    then obtain s1 where "?c = (Inr (), s1)" by (simp add: mem_CreateTx_def new_tx_def)
    then show ?thesis using created v assms(2) handleCreate_valid [OF assms(1) v(2,3), of txID now ev ids s] by simp
  next
    case Some
    then have "?c = (Inl (Sentinel ErrDuplicate), s)" by (simp add: mem_CreateTx_def new_tx_def)
    then show ?thesis using refused [of 409 "''tx already exists''"] v assms(2) handleCreate_valid [OF assms(1) v(2,3), of txID now ev ids s] by simp
  qed
next
  case False
  then have "body = None \<or> (\<exists>req. body = Some req \<and> (validateCreate order req \<noteq> None \<or>
    (\<forall>q1. lk_Acquire (svc_Locker svc) (rq_QuoteID req) q \<noteq> (Inr True, q1))))" by (cases body) auto
  from handleCreate_refused [OF this, of txID now ev ids s] show ?thesis using refused assms(2) by fastforce
qed

text \<open>From creation to the end: a transaction that \<open>POST /v1/transactions\<close> has answered with 201 is stored, and running its saga
  brings it to a terminal state, whatever the partners answer.\<close>

theorem created_transaction_finishes:
  fixes svc :: "(mem_store, 'q, 'c) Service" and w :: "(mem_store, 'p, 'l) world"
  assumes "svc_Store svc = mem_ops" and "handleCreate svc order body txID now ev ids (s, q) = (rs, (w_db w, q'))" and "rs_code rs = 201"
    and "sane_backoff cfg" and "\<forall>k. \<exists>m < pf. rt_done rt (k + m) \<noteq> None" and "7 \<le> n"
  shows "\<exists>r w' sg. Run rt (NewExecutor rt mem_ops c cfg) pf txID owner n w = (Returned r, w') \<and>
    ms_sagas (w_db w') txID = Some sg \<and> Terminal (sg_State sg)"
proof -
  from assms(1,2) have "ready txID (w_db w)"
    by (cases rule: handleCreate_cases) (use assms(3) created_ready in \<open>auto simp: writeErr_def writeJSON_def\<close>)
  then show ?thesis
    using mem.Run_ends [of "NewExecutor rt mem_ops c cfg" rt pf txID w n owner] assms(4-6) steps_left_le [of txID "w_db w"]
    by (fastforce simp: runs_steps_NewExecutor ended_def)
qed

definition demo_request :: CreateTxRequest where
  "demo_request = \<lparr>rq_UserID = ''user'', rq_QuoteID = ''quote'', rq_Amount = ''100'', rq_Asset = ''USDC'', rq_Rail = ''ach'',
     rq_DestAddress = ''0xabc''\<rparr>"

definition demo_service :: "(mem_store, unit, unit) Service" where
  "demo_service = NewService mem_ops None"

definition field_order :: "string list" where
  "field_order = [''user_id'', ''quote_id'', ''amount'', ''asset'', ''rail'', ''dest_address'']"

lemma demo_valid: "validateCreate field_order demo_request = None"
  by (simp add: validateCreate_def field_order_def demo_request_def create_fields_def trim_space_def is_space_def)

lemma demo_created:
  "handleCreate demo_service field_order (Some demo_request) ''tx-9'' 5 ''ev'' (\<lambda>_. ''u'') (NewMemStore, ()) =
     (writeJSON 201 (CreateTxResponse ''tx-9''), (snd (mem_CreateTx (\<lambda>_. ''u'') (new_tx demo_request ''tx-9'' 5) (new_steps ''tx-9'') (new_saga ''tx-9'')
        [created_event demo_request ''tx-9'' 5 ''ev''] NewMemStore), ()))"
proof -
  have "svc_Store demo_service = mem_ops" "lk_Acquire (svc_Locker demo_service) x () = (Inr True, ())" for x
    by (simp_all add: demo_service_def NewService_def NoopLocker_def)
  moreover obtain s1 where "mem_CreateTx (\<lambda>_. ''u'') (new_tx demo_request ''tx-9'' 5) (new_steps ''tx-9'') (new_saga ''tx-9'')
        [created_event demo_request ''tx-9'' 5 ''ev''] NewMemStore = (Inr (), s1)"
    by (simp add: mem_CreateTx_def NewMemStore_def)
  ultimately show ?thesis by (simp add: handleCreate_valid [OF _ demo_valid, where ?q1.0 = "()"])
qed

theorem created_transaction_finishes_witness:
  "\<exists>db r w' sg. fst (snd (handleCreate demo_service field_order (Some demo_request) ''tx-9'' 5 ''ev'' (\<lambda>_. ''u'') (NewMemStore, ()))) = db \<and>
     Run demo_rt demo_executor 1 ''tx-9'' ''pod'' 7 (demo_world\<lparr>w_db := db\<rparr>) = (Returned r, w') \<and>
     ms_sagas (w_db w') ''tx-9'' = Some sg \<and> Terminal (sg_State sg)"
proof -
  let ?h = "handleCreate demo_service field_order (Some demo_request) ''tx-9'' 5 ''ev'' (\<lambda>_. ''u'') (NewMemStore, ())"
  let ?w = "demo_world\<lparr>w_db := fst (snd ?h)\<rparr>"
  have h: "?h = (writeJSON 201 (CreateTxResponse ''tx-9''), (w_db ?w, ()))" by (simp add: demo_created)
  have "svc_Store demo_service = mem_ops" by (simp add: demo_service_def NewService_def)
  from created_transaction_finishes [OF this h, of DefaultConfig 1 demo_rt 7 demo_clients "''pod''"] show ?thesis
    by (fastforce simp: writeJSON_def sane_DefaultConfig demo_rt_def demo_executor_def)
qed

text \<open>C38: creation is all or nothing, and blank fields are refused: the answer is 201 with the new id and the transaction stored, or one of
  400, 409 and 500 with the store as it was; it is 400 when a required field is blank or the body does not decode.\<close>

theorem create_all_or_nothing:
  fixes svc :: "(mem_store, 'q, 'c) Service"
  assumes "svc_Store svc = mem_ops" and "handleCreate svc order body txID now ev ids (s, q) = (rs, (s', q'))"
    and "set order = fst ` set (create_fields req)"
  shows "(rs = writeJSON 201 (CreateTxResponse txID) \<and> ms_txs s txID = None \<and> ms_txs s' txID \<noteq> None \<or>
      rs_code rs \<in> {400, 409, 500} \<and> s' = s) \<and>
    (body = None \<or> body = Some req \<and> (\<exists>f \<in> set (create_fields req). trim_space (snd f) = '''') \<longrightarrow> rs_code rs = 400)"
proof -
  have "rs_code rs = 400" if bad: "body = None \<or> body = Some req \<and> (\<exists>f \<in> set (create_fields req). trim_space (snd f) = '''')"
  proof (cases body)
    case None
    then show ?thesis using assms(2) by (auto simp: handleCreate_def writeErr_def writeJSON_def)
  next
    case Some
    then obtain k v where kv: "(k, v) \<in> set (create_fields req)" "trim_space v = ''''" "body = Some req" using bad by auto
    have "distinct (map fst (create_fields req))" by (simp add: create_fields_def)
    then have "map_of (create_fields req) k = Some v" using kv(1) by simp
    moreover have "k \<in> set order" using kv(1) assms(3) by force
    ultimately have "validateCreate order req \<noteq> None" using kv(2)
      by (auto simp: validateCreate_def Let_def filter_empty_conv split: option.splits)
    then show ?thesis using kv(3) assms(2) by (auto simp: handleCreate_def writeErr_def writeJSON_def)
  qed
  moreover have "rs = writeJSON 201 (CreateTxResponse txID) \<and> ms_txs s txID = None \<and> ms_txs s' txID \<noteq> None \<or>
      rs_code rs \<in> {400, 409, 500} \<and> s' = s"
    using assms(1,2)
  proof (cases rule: handleCreate_cases)
    case (refused code msg)
    then show ?thesis by (auto simp: writeErr_def writeJSON_def)
  next
    case (created r)
    have "tx_TxID (new_tx r txID now) = txID" by (simp add: new_tx_def)
    then have "ms_txs s txID = None" "ms_txs s' txID \<noteq> None" using created(4) by (auto simp: mem_CreateTx_def split: if_splits)
    with created(3) show ?thesis by simp
  qed
  ultimately show ?thesis by blast
qed

theorem create_all_or_nothing_witness:
  "rs_code (fst (handleCreate demo_service field_order (Some (demo_request\<lparr>rq_Asset := '' ''\<rparr>)) ''tx-9'' 5 ''ev'' (\<lambda>_. ''u'') (NewMemStore, ()))) = 400"
proof -
  let ?req = "demo_request\<lparr>rq_Asset := '' ''\<rparr>"
  obtain rs s' q' where h: "handleCreate demo_service field_order (Some ?req) ''tx-9'' 5 ''ev'' (\<lambda>_. ''u'') (NewMemStore, ()) = (rs, (s', q'))"
    by (metis prod.exhaust)
  have "svc_Store demo_service = mem_ops" by (simp add: demo_service_def NewService_def)
  moreover have "set field_order = fst ` set (create_fields ?req)" by (simp add: field_order_def create_fields_def)
  moreover have "trim_space '' '' = ''''" by (simp add: trim_space_def is_space_def)
  ultimately show ?thesis using create_all_or_nothing [OF _ h, of ?req] h by (simp add: create_fields_def)
qed

lemma toStepResponses_ids:
  "toStepResponses (map (\<lambda>(i, r). with_row_id (ids (1 + i)) r) (enumerate n rows)) = toStepResponses rows"
  by (induction rows arbitrary: n) (simp_all add: toStepResponses_def with_row_id_def)

text \<open>What was created is what \<open>handleGet\<close> reads.\<close>

lemma handleCreate_then_Get:
  fixes svc :: "(mem_store, 'q, 'c) Service"
  assumes "svc_Store svc = mem_ops" and "handleCreate svc order (Some req) txID now ev ids (s, q) = (rs, (s', q'))" and "rs_code rs = 201"
  shows "\<exists>t. handleGet svc txID s' = writeJSON 200 (TxBody t) \<and>
    (rp_TxID t, rp_UserID t, rp_QuoteID t, rp_Amount t, rp_Asset t, rp_Rail t, rp_DestAddress t) =
      (txID, rq_UserID req, rq_QuoteID req, rq_Amount req, rq_Asset req, rq_Rail req, rq_DestAddress req) \<and>
    rp_TxStatus t = ''CREATED'' \<and> rp_State t = ''CREATED'' \<and> rp_CurrentStep t = ''POLICY'' \<and>
    map rp_StepName (rp_Steps t) = [''POLICY'', ''PAYMENT'', ''KYT'', ''MPC_SIGN'', ''BROADCAST'', ''LEDGER''] \<and>
    (\<forall>r \<in> set (rp_Steps t). rp_Status r = ''PENDING'' \<and> rp_Attempt r = 1)"
  using assms(1,2)
proof (cases rule: handleCreate_cases)
  case (refused code msg)
  then show ?thesis using assms(3) by (auto simp: writeErr_def writeJSON_def)
next
  case (created r)
  let ?tx = "with_tx_id (ids 0) (new_tx req txID now)" and ?sg = "with_sg_id (ids (1 + length (new_steps txID))) (new_saga txID)"
  let ?rows = "map (\<lambda>(i, r). with_row_id (ids (1 + i)) r) (enumerate 0 (new_steps txID))"
  have id: "tx_TxID (new_tx req txID now) = txID" and r: "r = req" using created(1) by (simp_all add: new_tx_def)
  have s': "ms_txs s' txID = Some ?tx" "ms_sagas s' txID = Some ?sg" "ms_steps s' txID = ?rows"
    using created(4) unfolding mem_CreateTx_def r id by (auto split: if_splits)
  have steps: "toStepResponses ?rows = toStepResponses (new_steps txID)" by (rule toStepResponses_ids)
  let ?t = "\<lparr>rp_TxID = tx_TxID ?tx, rp_UserID = tx_UserID ?tx, rp_QuoteID = tx_QuoteID ?tx, rp_Amount = tx_Amount ?tx,
     rp_Asset = tx_Asset ?tx, rp_Rail = tx_Rail ?tx, rp_DestAddress = tx_DestAddress ?tx, rp_TxStatus = state_string (tx_Status ?tx),
     rp_CurrentStep = step_string (sg_CurrentStep ?sg), rp_State = state_string (sg_State ?sg), rp_Version = tx_Version ?tx,
     rp_CreatedAt = tx_CreatedAt ?tx, rp_UpdatedAt = tx_UpdatedAt ?tx, rp_Steps = toStepResponses ?rows\<rparr>"
  have get: "handleGet svc txID s' = writeJSON 200 (TxBody ?t)"
    using assms(1) s' by (simp add: handleGet_def get_response_def mem_LoadTx_def mem_LoadSagaState_def mem_ListSteps_def)
  have "(\<forall>x \<in> set (toStepResponses ?rows). rp_Status x = ''PENDING'' \<and> rp_Attempt x = 1)"
    unfolding steps by (auto simp: toStepResponses_def new_steps_def)
  moreover have "map rp_StepName (toStepResponses ?rows) = [''POLICY'', ''PAYMENT'', ''KYT'', ''MPC_SIGN'', ''BROADCAST'', ''LEDGER'']"
    unfolding steps by (simp add: toStepResponses_def new_steps_def StepOrder_def)
  ultimately show ?thesis
    by (intro exI [of _ ?t] conjI get) (simp_all add: new_tx_def new_saga_def with_tx_id_def with_sg_id_def)
qed

text \<open>C33: only signed requests change anything: with a secret configured, a request after which the state differs carried a bearer token
  of three parts whose last part is the signature of the first two under the secret, and whose claims had not expired.\<close>

theorem changes_only_signed:
  assumes "Mux json_err (secret, False) svc r st = Proceeds (rs, st')" and "st' \<noteq> st"
  shows "\<exists>head body claims.
    rq_authorization r = ''Bearer '' @ head @ ''.'' @ body @ ''.'' @ signature (head @ ''.'' @ body) secret \<and>
    verify json_err (drop 7 (rq_authorization r)) secret = Inr claims \<and> rq_now r div second \<le> cl_Exp claims"
proof (cases "rq_path r \<in> skipPaths")
  case True
  then have "Mux_route (rq_verb r) (rq_path r) \<in> {Healthz, Readyz, NotFoundRoute}"
    by (auto simp: skipPaths_def Mux_route_def Let_def)
  then have "st' = st" using assms(1) by (auto simp: Mux_def serve_route_def split: auth_decision.splits)
  with assms(2) show ?thesis by simp
next
  case False
  have "Middleware json_err secret False (rq_now r div second) (rq_path r) (rq_authorization r) = Serve"
    using assms by (auto simp: Mux_def split: auth_decision.splits)
  from served_signed [OF this False] show ?thesis .
qed

definition create_json :: "CreateTxRequest \<Rightarrow> json" where
  "create_json req = JObj (map (\<lambda>(k, v). (k, JStr v)) (create_fields req))"

lemma Decode_create_json: "Decode_create (json_print (create_json req)) = Some req"
proof -
  have f: "find_field create_setters ''user_id'' = Some (string_field (\<lambda>x r. r\<lparr>rq_UserID := x\<rparr>))"
    "find_field create_setters ''quote_id'' = Some (string_field (\<lambda>x r. r\<lparr>rq_QuoteID := x\<rparr>))"
    "find_field create_setters ''amount'' = Some (string_field (\<lambda>x r. r\<lparr>rq_Amount := x\<rparr>))"
    "find_field create_setters ''asset'' = Some (string_field (\<lambda>x r. r\<lparr>rq_Asset := x\<rparr>))"
    "find_field create_setters ''rail'' = Some (string_field (\<lambda>x r. r\<lparr>rq_Rail := x\<rparr>))"
    "find_field create_setters ''dest_address'' = Some (string_field (\<lambda>x r. r\<lparr>rq_DestAddress := x\<rparr>))"
    by (simp_all add: find_field_def create_setters_def)
  have "json_fits maxNestingDepth (create_json req)" by (simp add: create_json_def create_fields_def maxNestingDepth_def)
  then show ?thesis using decoder_Decode_print [of "create_json req" "[]" create_setters zero_request]
    by (simp add: Decode_create_def create_json_def create_fields_def decode_struct_def f zero_request_def del: json_print.simps)
qed

definition signed_request :: request where
  "signed_request = \<lparr>rq_verb = ''POST'', rq_path = ''/v1/transactions'',
     rq_authorization = ''Bearer '' @ sign \<lparr>cl_Sub = ''web'', cl_Iat = 0, cl_Exp = 9\<rparr> ''k'', rq_request_id = '''',
     rq_body = json_print (create_json demo_request), rq_order = field_order, rq_fresh = ''tx-9'', rq_now = 5, rq_event_id = ''ev'',
     rq_ids = (\<lambda>_. ''u'')\<rparr>"

lemma signed_request_served:
  "Mux json_err (''k'', False) demo_service signed_request \<lparr>as_db = NewMemStore, as_quotes = (), as_control = c\<rparr> =
     (let h = handleCreate demo_service field_order (Some demo_request) ''tx-9'' 5 ''ev'' (\<lambda>_. ''u'') (NewMemStore, ())
      in Proceeds (fst h, \<lparr>as_db = fst (snd h), as_quotes = (), as_control = c\<rparr>))"
proof -
  let ?c = "\<lparr>cl_Sub = ''web'', cl_Iat = 0, cl_Exp = 9\<rparr>"
  have path: "''/v1/transactions'' \<notin> skipPaths" by (simp add: skipPaths_def)
  have "Middleware json_err ''k'' False 0 ''/v1/transactions'' (''Bearer '' @ sign ?c ''k'') = Serve"
    using middleware_token [OF path, of ?c json_err "''k''" 0] by (simp add: claims_int64_def)
  moreover have "Mux_route ''POST'' ''/v1/transactions'' = CreateRoute" by (simp add: Mux_route_def Let_def)
  ultimately show ?thesis
    unfolding Mux_def serve_route_def signed_request_def Let_def
    by (simp add: split_beta Decode_create_json del: json_print.simps)
qed

theorem changes_only_signed_witness:
  "\<exists>rs st'. Mux (\<lambda>_. ErrorString ''json'') (''k'', False) demo_service signed_request
       \<lparr>as_db = NewMemStore, as_quotes = (), as_control = ()\<rparr> = Proceeds (rs, st') \<and>
     (\<exists>head body. rq_authorization signed_request = ''Bearer '' @ head @ ''.'' @ body @ ''.'' @ signature (head @ ''.'' @ body) ''k'')"
proof -
  let ?h = "handleCreate demo_service field_order (Some demo_request) ''tx-9'' 5 ''ev'' (\<lambda>_. ''u'') (NewMemStore, ())"
  have mux: "Mux (\<lambda>_. ErrorString ''json'') (''k'', False) demo_service signed_request \<lparr>as_db = NewMemStore, as_quotes = (), as_control = ()\<rparr> =
      Proceeds (fst ?h, \<lparr>as_db = fst (snd ?h), as_quotes = (), as_control = ()\<rparr>)"
    by (simp add: signed_request_served Let_def)
  have "ms_txs (fst (snd ?h)) ''tx-9'' \<noteq> None"
    unfolding demo_created by (simp add: mem_CreateTx_def NewMemStore_def new_tx_def)
  then have "\<lparr>as_db = fst (snd ?h), as_quotes = (), as_control = ()\<rparr> \<noteq> \<lparr>as_db = NewMemStore, as_quotes = (), as_control = ()\<rparr>"
    by (auto simp: NewMemStore_def)
  from changes_only_signed [OF mux this] mux show ?thesis by blast
qed

lemma step_json_fits [simp]: "d > 0 \<Longrightarrow> json_fits d (step_json r)"
  by (auto simp: step_json_def split: option.splits)

lemma body_json_fits: "json_fits maxNestingDepth (body_json b)"
  by (cases b) (simp_all add: maxNestingDepth_def unauthorized_json_def JMap_def)

lemma write_body_decodes: "\<forall>msg. b \<noteq> PlainText msg \<Longrightarrow> json_decode (write_body b) = Some (body_json b)"
proof -
  assume b: "\<forall>msg. b \<noteq> PlainText msg"
  have "stops [char_of (10 :: nat)]" by (simp add: stops_def is_digit_def char_eq_iff)
  from json_decode_print [OF body_json_fits [of b] this] show ?thesis using b by (cases b) (simp_all add: write_body_def)
qed


definition signed_read :: request where
  "signed_read = signed_request\<lparr>rq_verb := ''GET'', rq_path := ''/v1/transactions/tx-9''\<rparr>"








end
