(* ===== verification/Outbox_Relay.thy ===== *)
theory Outbox_Relay
  imports Steps Store_Laws Payload_Json "HOL-Library.Sublist"
begin

text \<open>
  The outbox relay, \<open>internal/outbox/relay.go\<close>, with the in-memory publisher, and the choice of a
  publisher by URL, \<open>internal/outbox/publisher.go\<close>. A publisher acts on the state \<open>'b\<close> of the event bus.
  The Kafka writer itself is a third-party package: \<open>kafka_write\<close> stands for \<open>WriteMessages\<close> of one message with a key and
  a value, \<open>kafka_close\<close> for its \<open>Close\<close>.
\<close>

section \<open>Relay\<close>

record 'b Publisher =
  Publish :: "string \<Rightarrow> OutboxEvent \<Rightarrow> ('b, unit) go"
  Publisher_Close :: "('b, unit) go"

record ('s, 'b) Relay =
  rl_Store :: "'s store_ops"
  rl_Publisher :: "'b Publisher"
  rl_BatchSize :: int
  rl_Interval :: int
  rl_SubjectFn :: "string \<Rightarrow> string"

definition defaultSubject :: "string \<Rightarrow> string" where
  "defaultSubject eventType = ''transactions.'' @ eventType"

definition NewRelay :: "'s store_ops \<Rightarrow> 'b Publisher \<Rightarrow> int \<Rightarrow> int \<Rightarrow> ('s, 'b) Relay" where
  "NewRelay s p batchSize interval = \<lparr>rl_Store = s, rl_Publisher = p,
     rl_BatchSize = (if batchSize \<le> 0 then 100 else batchSize),
     rl_Interval = (if interval \<le> 0 then 100 * millisecond else interval),
     rl_SubjectFn = defaultSubject\<rparr>"

text \<open>The publishing loop of \<open>drainOnce\<close>: the ids published before the first failure, and the bus.\<close>

fun publish_loop :: "('s, 'b) Relay \<Rightarrow> OutboxEvent list \<Rightarrow> 'b \<Rightarrow> string list \<times> 'b" where
  "publish_loop r [] b = ([], b)"
| "publish_loop r (e # es) b =
     (case Publish (rl_Publisher r) (rl_SubjectFn r (ev_EventType e)) e b of
        (Inl _, b') \<Rightarrow> ([], b')
      | (Inr _, b') \<Rightarrow> (case publish_loop r es b' of (ids, b'') \<Rightarrow> (ev_EventID e # ids, b'')))"

definition drainOnce :: "('s, 'b) Relay \<Rightarrow> time \<Rightarrow> ('s \<times> 'b, unit) go" where
  "drainOnce r now sb =
     (case sb of (s, b) \<Rightarrow>
      (case RunInTx (rl_Store r) (op_ClaimOutboxPending (rl_Store r) (rl_BatchSize r)) s of
         (Inl err, s1) \<Rightarrow> (Inl (errorf_wrap_tail ''claim pending: '' err), (s1, b))
       | (Inr events, s1) \<Rightarrow>
           if events = [] then (Inr (), (s1, b))
           else (case publish_loop r events b of (publishedIDs, b1) \<Rightarrow>
                 if publishedIDs = [] then (Inr (), (s1, b1))
                 else (case RunInTx (rl_Store r) (op_MarkOutboxPublished (rl_Store r) publishedIDs now) s1 of
                         (res, s2) \<Rightarrow> (res, (s2, b1))))))"

text \<open>The loop of the relay goroutine: what each \<open>select\<close> chose. A drain error is only logged.\<close>

datatype relay_select = StopClosed | CtxDone | Tick time

fun relay_loop :: "('s, 'b) Relay \<Rightarrow> relay_select list \<Rightarrow> 's \<times> 'b \<Rightarrow> 's \<times> 'b" where
  "relay_loop r [] sb = sb"
| "relay_loop r (StopClosed # cs) sb = sb"
| "relay_loop r (CtxDone # cs) sb = sb"
| "relay_loop r (Tick now # cs) sb = relay_loop r cs (snd (drainOnce r now sb))"

section \<open>The in-memory publisher\<close>

record InMemoryPublisher =
  pub_Events :: "OutboxEvent list"
  pub_Subjects :: "string list"
  pub_FailOn :: int
  pub_calls :: int

definition NewInMemoryPublisher :: InMemoryPublisher where
  "NewInMemoryPublisher = \<lparr>pub_Events = [], pub_Subjects = [], pub_FailOn = 0, pub_calls = 0\<rparr>"

definition inmem_Publish :: "string \<Rightarrow> OutboxEvent \<Rightarrow> (InMemoryPublisher, unit) go" where
  "inmem_Publish subject event p =
     (let p1 = p\<lparr>pub_calls := pub_calls p + 1\<rparr> in
      if pub_FailOn p1 > 0 \<and> pub_calls p1 = pub_FailOn p1
      then (Inl (ErrorString ''in-memory publisher: simulated failure''), p1)
      else (Inr (), p1\<lparr>pub_Events := pub_Events p1 @ [event], pub_Subjects := pub_Subjects p1 @ [subject]\<rparr>))"

definition inmem_publisher :: "InMemoryPublisher Publisher" where
  "inmem_publisher = \<lparr>Publish = inmem_Publish, Publisher_Close = okE ()\<rparr>"

definition pub_Len :: "InMemoryPublisher \<Rightarrow> int" where
  "pub_Len p = int (length (pub_Events p))"

section \<open>Choice of a publisher\<close>

datatype bus = MemoryBus | KafkaBus "string list" string

definition isPlainBrokerList :: "string \<Rightarrow> bool" where
  "isPlainBrokerList url = (if str_contains url ''://'' then False else str_contains url '':'')"

definition NewKafkaPublisher :: "string list \<Rightarrow> string \<Rightarrow> go_error + bus" where
  "NewKafkaPublisher brokers topic =
     (if brokers = [] then Inl (ErrorString ''kafka: no brokers provided'')
      else Inr (KafkaBus brokers (if topic = '''' then ''transactions'' else topic)))"

definition newKafkaPublisherFromURL :: "string \<Rightarrow> go_error + bus" where
  "newKafkaPublisherFromURL url =
     (let rest = trim_prefix url ''kafka://'';
          hosts = takeWhile (\<lambda>c. c \<noteq> CHR ''?'') rest;
          topic = (if CHR ''?'' \<in> set rest
                   then foldl (\<lambda>t kv. if has_prefix kv ''topic='' then trim_prefix kv ''topic='' else t) ''''
                          (split_on (CHR ''&'') (drop (length hosts + 1) rest))
                   else '''')
      in NewKafkaPublisher (map trim_space (split_on (CHR '','') hosts)) topic)"

definition NewPublisher :: "string \<Rightarrow> go_error + bus" where
  "NewPublisher url =
     (if url = '''' \<or> has_prefix url ''memory://'' then Inr MemoryBus
      else if has_prefix url ''kafka://'' then newKafkaPublisherFromURL url
      else if isPlainBrokerList url then newKafkaPublisherFromURL (''kafka://'' @ url)
      else Inl (ErrorString (''outbox: unknown event bus scheme in '' @ fmt_q url @
             '' (use kafka://<brokers> or memory://)'')))"

text \<open>The JSON text of an event.\<close>

definition Encode :: "OutboxEvent \<Rightarrow> string" where
  "Encode e = json_print (JMap
     [(''event_id'', JStr (ev_EventID e)), (''tx_id'', JStr (ev_TxID e)), (''event_type'', JStr (ev_EventType e)),
      (''step'', JStr (ev_Step e)), (''attempt'', JInt (ev_Attempt e)), (''dedup_key'', JStr (ev_DedupKey e)),
      (''payload'', payload_json (ev_Payload e)), (''created_at'', time_json (ev_CreatedAt e))])"

text \<open>The Kafka publisher: a message is keyed by the transaction id; a publisher without a writer is not connected, and closing it
  does nothing.\<close>

definition kafka_Publish ::
  "(string \<Rightarrow> string \<Rightarrow> ('b, unit) go) option \<Rightarrow> string \<Rightarrow> OutboxEvent \<Rightarrow> ('b, unit) go" where
  "kafka_Publish kafka_write subject event =
     (case kafka_write of
        None \<Rightarrow> errE (ErrorString ''kafka publisher: not connected'')
      | Some wr \<Rightarrow> wr (ev_TxID event) (Encode event))"

definition kafka_Close :: "('b, unit) go option \<Rightarrow> ('b, unit) go" where
  "kafka_Close kafka_close = (case kafka_close of None \<Rightarrow> okE () | Some close \<Rightarrow> close)"

definition kafka_publisher ::
  "(string \<Rightarrow> string \<Rightarrow> ('b, unit) go) option \<Rightarrow> ('b, unit) go option \<Rightarrow> 'b Publisher" where
  "kafka_publisher kafka_write kafka_close =
     \<lparr>Publish = kafka_Publish kafka_write, Publisher_Close = kafka_Close kafka_close\<rparr>"

section \<open>What a drain does\<close>

text \<open>The outcome of a drain on the in-memory store: a prefix of the claimed events has been published and
  is marked, the rest of the claim stays in flight.\<close>

lemma publish_loop_prefix:
  "publish_loop r es b = (ids, b') \<Longrightarrow> ids = map ev_EventID (take (length ids) es) \<and> length ids \<le> length es"
proof (induction es arbitrary: b ids b')
  case (Cons e es)
  then show ?case by (fastforce split: prod.splits sum.splits)
qed simp

lemma mem_drain:
  assumes "rl_Store r = mem_ops" and "claim_upto (rl_BatchSize r) 0 (ms_outbox s) = (events, outbox1)"
    and "publish_loop r events b = (ids, b1)"
  shows "drainOnce r now (s, b) = (Inr (), (s\<lparr>ms_outbox := fold (mark_first now) ids outbox1\<rparr>, b1))"
  using assms publish_loop_prefix [OF assms(3)]
  by (auto simp: drainOnce_def mem_ClaimOutboxPending_def mem_MarkOutboxPublished_def)

lemma claim_ids:
  assumes "claim_upto limit n es = (c, r)"
  shows "map ev_EventID r = map ev_EventID es"
  using claim_upto_spec [OF assms] by (auto simp: list_eq_iff_nth_eq inflight_def)



lemma pending_ids_distinct: "distinct (map ev_EventID es) \<Longrightarrow> distinct (map ev_EventID (pending es))"
  by (simp add: pending_def distinct_map_filter)

lemma inflight_id [simp]: "ev_EventID (inflight e) = ev_EventID e"
  by (simp add: inflight_def)

text \<open>An event of the outbox whose id is that of a pending event is that event.\<close>

lemma same_id_same_event:
  "distinct (map ev_EventID es) \<Longrightarrow> e \<in> set es \<Longrightarrow> e' \<in> set es \<Longrightarrow> ev_EventID e = ev_EventID e' \<Longrightarrow> e = e'"
  by (metis distinct_map inj_onD)

text \<open>A drain leaves alone every event that was not pending.\<close>

lemma drain_keeps_nonpending:
  assumes "rl_Store r = mem_ops" and d: "distinct (map ev_EventID (ms_outbox s))"
    and i: "i < length (ms_outbox s)" "ev_Status (ms_outbox s ! i) \<noteq> OutboxPending"
    and run: "drainOnce r now (s, b) = (res, (s', b'))"
  shows "map ev_EventID (ms_outbox s') = map ev_EventID (ms_outbox s) \<and> ms_outbox s' ! i = ms_outbox s ! i"
proof -
  obtain evs o1 where c: "claim_upto (rl_BatchSize r) 0 (ms_outbox s) = (evs, o1)" by fastforce
  obtain ids b1 where p: "publish_loop r evs b = (ids, b1)" by fastforce
  note spec = claim_upto_spec [OF c]
  have ids: "map ev_EventID o1 = map ev_EventID (ms_outbox s)" by (rule claim_ids [OF c])
  have o': "ms_outbox s' = map (mark now (set ids)) o1"
    using mem_drain [OF assms(1) c p, of now] run fold_mark_first [of o1 now ids] d ids by simp
  have "set ids \<subseteq> ev_EventID ` set (pending (ms_outbox s))"
  proof -
    have "set ids \<subseteq> ev_EventID ` set evs" using publish_loop_prefix [OF p] by (metis image_mono set_map set_take_subset)
    also have "\<dots> \<subseteq> ev_EventID ` set (pending (ms_outbox s))"
      using spec by (auto dest!: in_set_takeD)
    finally show ?thesis .
  qed
  moreover have "ev_EventID (ms_outbox s ! i) \<notin> ev_EventID ` set (pending (ms_outbox s))"
  proof
    assume "ev_EventID (ms_outbox s ! i) \<in> ev_EventID ` set (pending (ms_outbox s))"
    then obtain e where e: "e \<in> set (pending (ms_outbox s))" "ev_EventID (ms_outbox s ! i) = ev_EventID e" by blast
    then have "ms_outbox s ! i = e" using same_id_same_event [OF d] i(1) by (auto simp: pending_def)
    with e(1) i(2) show False by (simp add: pending_def)
  qed
  ultimately have "ev_EventID (ms_outbox s ! i) \<notin> set ids" by blast
  moreover have "o1 ! i = ms_outbox s ! i" using spec i by blast
  moreover have "map ev_EventID (map (mark now (set ids)) o1) = map ev_EventID o1" by (simp add: mark_def)
  ultimately show ?thesis using o' i(1) spec ids by (simp add: mark_def)
qed

lemma relay_loop_keeps_nonpending:
  assumes "rl_Store r = mem_ops" and "distinct (map ev_EventID (ms_outbox s))"
    and "i < length (ms_outbox s)" "ev_Status (ms_outbox s ! i) \<noteq> OutboxPending"
    and "relay_loop r cs (s, b) = (s', b')"
  shows "ms_outbox s' ! i = ms_outbox s ! i"
  using assms(2-5)
proof (induction cs arbitrary: s b)
  case (Cons c cs)
  show ?case
  proof (cases c)
    case (Tick now)
    obtain res s1 b1 where d: "drainOnce r now (s, b) = (res, (s1, b1))" by (metis surj_pair)
    note k = drain_keeps_nonpending [OF assms(1) Cons.prems(1-3) d]
    have "length (ms_outbox s1) = length (ms_outbox s)" using k by (metis length_map)
    then show ?thesis using Cons.IH [of s1 b1] Cons.prems d k Tick by simp
  qed (use Cons.prems in simp_all)
qed simp

section \<open>A bus that accepts everything\<close>

lemma publish_all:
  assumes "rl_Publisher r = inmem_publisher" and "pub_FailOn p = 0"
  shows "\<exists>p'. publish_loop r es p = (map ev_EventID es, p') \<and> pub_FailOn p' = 0 \<and>
    pub_Events p' = pub_Events p @ es \<and> pub_Subjects p' = pub_Subjects p @ map (\<lambda>e. rl_SubjectFn r (ev_EventType e)) es"
  using assms(2)
proof (induction es arbitrary: p)
  case (Cons e es)
  let ?p = "p\<lparr>pub_calls := pub_calls p + 1, pub_Events := pub_Events p @ [e],
    pub_Subjects := pub_Subjects p @ [rl_SubjectFn r (ev_EventType e)]\<rparr>"
  have one: "Publish (rl_Publisher r) (rl_SubjectFn r (ev_EventType e)) e p = (Inr (), ?p)"
    using Cons.prems by (simp add: assms(1) inmem_publisher_def inmem_Publish_def Let_def)
  from Cons.IH [of ?p] Cons.prems obtain p' where "publish_loop r es ?p = (map ev_EventID es, p')" "pub_FailOn p' = 0"
    "pub_Events p' = pub_Events ?p @ es" "pub_Subjects p' = pub_Subjects ?p @ map (\<lambda>e. rl_SubjectFn r (ev_EventType e)) es"
    by auto
  with one show ?case by simp
qed simp

lemma pending_mark:
  assumes "\<And>e. e \<in> set (pending es) \<Longrightarrow> ev_EventID e \<notin> ids"
  shows "pending (map (mark at ids) es) = pending es"
  using assms
proof (induction es)
  case (Cons e es)
  then show ?case by (cases "ev_Status e = OutboxPending") (auto simp: mark_def)
qed simp

lemma drain_publishes:
  assumes "rl_Store r = mem_ops" and "rl_Publisher r = inmem_publisher" and "pub_FailOn p = 0"
    and d: "distinct (map ev_EventID (ms_outbox s))"
  shows "\<exists>s' p'. drainOnce r now (s, p) = (Inr (), (s', p')) \<and> pub_FailOn p' = 0 \<and>
    map ev_EventID (ms_outbox s') = map ev_EventID (ms_outbox s) \<and>
    pub_Events p' = pub_Events p @ map inflight (take (claim_size (rl_BatchSize r)) (pending (ms_outbox s))) \<and>
    pending (ms_outbox s') = drop (claim_size (rl_BatchSize r)) (pending (ms_outbox s)) \<and>
    (\<forall>e \<in> set (take (claim_size (rl_BatchSize r)) (pending (ms_outbox s))).
       \<exists>e' \<in> set (ms_outbox s'). ev_EventID e' = ev_EventID e \<and> ev_Status e' = OutboxPublished)"
proof -
  let ?k = "claim_size (rl_BatchSize r)"
  let ?pend = "pending (ms_outbox s)"
  obtain evs o1 where c: "claim_upto (rl_BatchSize r) 0 (ms_outbox s) = (evs, o1)" by fastforce
  note spec = claim_upto_spec [OF c]
  have evs: "evs = map inflight (take ?k ?pend)" "pending o1 = drop ?k ?pend" using spec by simp_all
  obtain p' where p: "publish_loop r evs p = (map ev_EventID evs, p')" "pub_FailOn p' = 0" "pub_Events p' = pub_Events p @ evs"
    using publish_all [OF assms(2,3)] by blast
  have ids: "map ev_EventID o1 = map ev_EventID (ms_outbox s)" by (rule claim_ids [OF c])
  let ?ids = "set (map ev_EventID evs)"
  let ?s' = "s\<lparr>ms_outbox := map (mark now ?ids) o1\<rparr>"
  have run: "drainOnce r now (s, p) = (Inr (), (?s', p'))"
    using mem_drain [OF assms(1) c p(1), of now] fold_mark_first [of o1 now "map ev_EventID evs"] d ids by simp
  have "set (map ev_EventID (take ?k ?pend)) \<inter> set (map ev_EventID (drop ?k ?pend)) = {}"
    using pending_ids_distinct [OF d] by (metis append_take_drop_id distinct_append map_append)
  then have "ev_EventID e \<notin> ?ids" if "e \<in> set (pending o1)" for e
    using that evs by auto
  then have pend: "pending (ms_outbox ?s') = drop ?k ?pend" using pending_mark [of o1 ?ids now] evs(2) by simp
  have pub: "\<exists>e' \<in> set (ms_outbox ?s'). ev_EventID e' = ev_EventID e \<and> ev_Status e' = OutboxPublished"
    if "e \<in> set (take ?k ?pend)" for e
  proof -
    have "ev_EventID e \<in> set (map ev_EventID o1)"
      using that ids by (auto simp: pending_def dest!: in_set_takeD)
    then obtain x where x: "x \<in> set o1" "ev_EventID x = ev_EventID e" by auto
    have "ev_EventID x \<in> ?ids" using that x evs(1) by auto
    then have "mark now ?ids x \<in> set (ms_outbox ?s')" "ev_EventID (mark now ?ids x) = ev_EventID e"
      "ev_Status (mark now ?ids x) = OutboxPublished" using x by (simp_all add: mark_def)
    then show ?thesis by blast
  qed
  have "map ev_EventID (map (mark now ?ids) o1) = map ev_EventID o1" by (simp add: mark_def)
  then have "map ev_EventID (ms_outbox ?s') = map ev_EventID (ms_outbox s)" using ids by simp
  with run p evs(1) pend pub show ?thesis by blast
qed

lemma ticks_publish:
  assumes "rl_Store r = mem_ops" and "rl_Publisher r = inmem_publisher" and "pub_FailOn p = 0"
    and "distinct (map ev_EventID (ms_outbox s))" and "relay_loop r (map Tick ts) (s, p) = (s', p')"
  shows "pub_Events p' = pub_Events p @ map inflight (take (length ts * claim_size (rl_BatchSize r)) (pending (ms_outbox s))) \<and>
    pending (ms_outbox s') = drop (length ts * claim_size (rl_BatchSize r)) (pending (ms_outbox s))"
  using assms(3-5)
proof (induction ts arbitrary: s p)
  case (Cons t ts)
  obtain s1 p1 where d: "drainOnce r t (s, p) = (Inr (), (s1, p1))" "pub_FailOn p1 = 0"
    "map ev_EventID (ms_outbox s1) = map ev_EventID (ms_outbox s)"
    "pub_Events p1 = pub_Events p @ map inflight (take (claim_size (rl_BatchSize r)) (pending (ms_outbox s)))"
    "pending (ms_outbox s1) = drop (claim_size (rl_BatchSize r)) (pending (ms_outbox s))"
    using drain_publishes [OF assms(1,2) Cons.prems(1,2), of t] by blast
  have "relay_loop r (map Tick ts) (s1, p1) = (s', p')" using Cons.prems(3) d(1) by simp
  from Cons.IH [OF d(2) _ this] d(3) Cons.prems(2) d(4,5) show ?case
    by (simp add: take_add add.commute map_append [symmetric] del: map_append)
qed simp

section \<open>Properties of the relay\<close>

text \<open>C28: when the bus accepts every event, the relay delivers the outbox: after enough ticks every event that was pending
  has been published exactly once, in the order of the outbox, and none is pending.\<close>

theorem relay_delivers_in_order:
  assumes "rl_Store r = mem_ops" and "rl_Publisher r = inmem_publisher" and "pub_FailOn p = 0"
    and "distinct (map ev_EventID (ms_outbox s))" and "relay_loop r (map Tick ts) (s, p) = (s', p')"
    and "length (pending (ms_outbox s)) \<le> length ts * nat (max 1 (rl_BatchSize r))"
  shows "pub_Events p' = pub_Events p @ map inflight (pending (ms_outbox s)) \<and> pending (ms_outbox s') = []"
  using ticks_publish [OF assms(1-5)] assms(6) by (simp add: claim_size_def)

definition demo_relay :: "(mem_store, InMemoryPublisher) Relay" where
  "demo_relay = NewRelay mem_ops inmem_publisher 1 0"

theorem relay_delivers_in_order_witness:
  "map ev_EventID (pub_Events (snd (relay_loop demo_relay [Tick 1, Tick 2] (sample_outbox, NewInMemoryPublisher)))) = [''b'', ''c'']"
proof -
  obtain s' p' where r: "relay_loop demo_relay (map Tick [1, 2]) (sample_outbox, NewInMemoryPublisher) = (s', p')" by (metis surj_pair)
  have "pub_Events p' = pub_Events NewInMemoryPublisher @ map inflight (pending (ms_outbox sample_outbox)) \<and> pending (ms_outbox s') = []"
    by (rule relay_delivers_in_order [OF _ _ _ _ r])
      (simp_all add: demo_relay_def NewRelay_def NewInMemoryPublisher_def sample_outbox_def sample_event_def)
  with r show ?thesis by (simp add: sample_outbox_def sample_event_def inflight_def NewInMemoryPublisher_def)
qed

lemma claim_split:
  assumes c: "claim_upto n 0 es = (evs, es')" and d: "distinct (map ev_EventID es)"
  shows "es' = map (\<lambda>e. if e \<in> set (take (claim_size n) (pending es)) then inflight e else e) es"
proof -
  let ?T = "set (take (claim_size n) (pending es))" and ?D = "set (drop (claim_size n) (pending es))"
  note spec = claim_upto_spec [OF c]
  have ids: "map ev_EventID es' = map ev_EventID es" by (rule claim_ids [OF c])
  have pend: "pending es' = drop (claim_size n) (pending es)" using spec by simp
  have cover: "e \<in> ?T \<or> e \<in> ?D" if "e \<in> set es" "ev_Status e = OutboxPending" for e
  proof -
    have "e \<in> set (pending es)" using that by (simp add: pending_def)
    then show ?thesis by (metis Un_iff append_take_drop_id set_append)
  qed
  have disj: "?T \<inter> ?D = {}"
    using pending_ids_distinct [OF d] by (metis append_take_drop_id distinct_append distinct_map)
  have "es' ! i = (if es ! i \<in> ?T then inflight (es ! i) else es ! i)" if i: "i < length es" for i
  proof -
    have mem: "es ! i \<in> set es" "es' ! i \<in> set es'" using i spec by simp_all
    consider (claimed) "ev_Status (es ! i) = OutboxPending" "es' ! i = inflight (es ! i)"
      | (waiting) "ev_Status (es ! i) = OutboxPending" "es' ! i = es ! i"
      | (other) "ev_Status (es ! i) \<noteq> OutboxPending" "es' ! i = es ! i"
      using spec i by blast
    then show ?thesis
    proof cases
      case claimed
      have "es ! i \<notin> ?D"
      proof
        assume "es ! i \<in> ?D"
        then have "es ! i \<in> set (pending es')" using pend by simp
        then have "es ! i \<in> set es'" by (simp add: pending_def)
        then have "es ! i = inflight (es ! i)"
          using same_id_same_event [of es' "es ! i" "es' ! i"] mem(2) claimed(2) d ids by simp
        then show False using claimed(1) by (metis OutboxStatus.distinct(1) inflight_status)
      qed
      then show ?thesis using cover [OF mem(1) claimed(1)] claimed(2) by simp
    next
      case waiting
      then have "es ! i \<in> ?D" using mem(2) pend [symmetric] by (simp add: pending_def)
      then show ?thesis using disj waiting(2) by auto
    next
      case other
      then have "es ! i \<notin> ?T" by (auto simp: pending_def dest: in_set_takeD)
      then show ?thesis using other(2) by simp
    qed
  qed
  then show ?thesis using spec by (simp add: list_eq_iff_nth_eq)
qed

lemma drain_outbox:
  assumes "rl_Store r = mem_ops" and d: "distinct (map ev_EventID (ms_outbox s))"
    and "pend = pending (ms_outbox s)" and "k = claim_size (rl_BatchSize r)"
    and p: "publish_loop r (map inflight (take k pend)) b = (ids, b')"
  shows "length ids \<le> k \<and> drainOnce r now (s, b) = (Inr (), (s\<lparr>ms_outbox := map (\<lambda>e. if e \<in> set (take (length ids) pend)
        then e\<lparr>ev_Status := OutboxPublished, ev_PublishedAt := Some now\<rparr>
        else if e \<in> set (take k pend) then inflight e else e) (ms_outbox s)\<rparr>, b'))"
proof -
  obtain evs o1 where c: "claim_upto (rl_BatchSize r) 0 (ms_outbox s) = (evs, o1)" by fastforce
  have evs: "evs = map inflight (take k pend)" using claim_upto_spec [OF c] assms(3,4) by simp
  note pre = publish_loop_prefix [OF p]
  let ?m = "length ids"
  have m: "?m \<le> k" using pre by simp
  then have ids: "ids = map ev_EventID (take ?m pend)"
    using pre by (simp add: take_map comp_def min_def)
  have sub: "set (take ?m pend) \<subseteq> set (take k pend)" by (rule set_take_subset_set_take [OF m])
  have sub': "set (take ?m pend) \<subseteq> set (ms_outbox s)" using assms(3) by (auto simp: pending_def dest: in_set_takeD)
  have "ev_EventID e \<in> set ids \<longleftrightarrow> e \<in> set (take ?m pend)" if "e \<in> set (ms_outbox s)" for e
  proof
    assume "ev_EventID e \<in> set ids"
    then obtain x where x: "x \<in> set (take ?m pend)" "ev_EventID x = ev_EventID e" by (subst (asm) ids) auto
    then have "x = e" using sub' that same_id_same_event [OF d] by blast
    with x show "e \<in> set (take ?m pend)" by simp
  next
    assume "e \<in> set (take ?m pend)"
    then show "ev_EventID e \<in> set ids" by (subst ids) simp
  qed
  then have "map (mark now (set ids)) o1 = map (\<lambda>e. if e \<in> set (take ?m pend)
      then e\<lparr>ev_Status := OutboxPublished, ev_PublishedAt := Some now\<rparr>
      else if e \<in> set (take k pend) then inflight e else e) (ms_outbox s)"
    using sub by (auto simp: claim_split [OF c d] assms(3,4) [symmetric] mark_def inflight_def)
  moreover have "fold (mark_first now) ids o1 = map (mark now (set ids)) o1"
    using fold_mark_first [of o1 now ids] d claim_ids [OF c] by simp
  moreover have "publish_loop r evs b = (ids, b')" using p evs by simp
  ultimately show ?thesis using mem_drain [OF assms(1) c, of b ids b' now] m by simp
qed

text \<open>A drain publishes a prefix of its claim: if the bus accepts \<open>m\<close> events of the claimed batch before its first
  refusal, the first \<open>m\<close> pending events become \<open>PUBLISHED\<close>, the rest of the batch is left \<open>INFLIGHT\<close>, every other
  event and the rest of the store are as before, and no error is reported.\<close>

theorem drain_marks_prefix:
  assumes "rl_Store r = mem_ops" and "distinct (map ev_EventID (ms_outbox s))"
    and "batch = take (nat (max 1 (rl_BatchSize r))) (pending (ms_outbox s))"
    and "publish_loop r (map inflight batch) b = (ids, b')"
  shows "ids = map ev_EventID (take (length ids) batch) \<and>
    drainOnce r now (s, b) = (Inr (), (s\<lparr>ms_outbox := map (\<lambda>e. if e \<in> set (take (length ids) batch)
        then e\<lparr>ev_Status := OutboxPublished, ev_PublishedAt := Some now\<rparr>
        else if e \<in> set batch then inflight e else e) (ms_outbox s)\<rparr>, b'))"
proof -
  note d = drain_outbox [OF assms(1,2) refl refl, folded claim_size_def assms(3), of b ids b' now]
  from assms(3,4) have p: "publish_loop r (map inflight (take (claim_size (rl_BatchSize r)) (pending (ms_outbox s)))) b = (ids, b')"
    by (simp add: claim_size_def)
  from publish_loop_prefix [OF assms(4)] have "ids = map ev_EventID (take (length ids) batch)"
    by (simp add: take_map comp_def)
  with d p assms(3) show ?thesis by (simp add: claim_size_def min_def)
qed

theorem drain_marks_prefix_witness:
  "map ev_Status (ms_outbox (fst (snd (drainOnce (demo_relay\<lparr>rl_BatchSize := 2\<rparr>) 7 (sample_outbox, NewInMemoryPublisher\<lparr>pub_FailOn := 2\<rparr>)))))
    = [OutboxPublished, OutboxPublished, OutboxInflight]"
proof -
  let ?r = "demo_relay\<lparr>rl_BatchSize := 2\<rparr>" and ?b = "NewInMemoryPublisher\<lparr>pub_FailOn := 2\<rparr>"
  have "rl_Store ?r = mem_ops" "distinct (map ev_EventID (ms_outbox sample_outbox))"
    by (simp_all add: demo_relay_def NewRelay_def sample_outbox_def sample_event_def)
  moreover obtain b' where "publish_loop ?r (map inflight (take (nat (max 1 (rl_BatchSize ?r))) (pending (ms_outbox sample_outbox)))) ?b = ([''b''], b')"
    by (simp add: demo_relay_def NewRelay_def sample_outbox_def sample_event_def pending_def inflight_def inmem_publisher_def
        inmem_Publish_def NewInMemoryPublisher_def Let_def numeral_2_eq_2)
  ultimately show ?thesis
    using drain_marks_prefix [of ?r sample_outbox _ ?b "[''b'']" b' 7]
    by (simp add: sample_outbox_def sample_event_def pending_def inflight_def numeral_2_eq_2)
qed

section \<open>No event is published twice\<close>

lemma publish_records:
  assumes "rl_Publisher r = inmem_publisher" and "publish_loop r es p = (ids, p')"
  shows "pub_Events p' = pub_Events p @ take (length ids) es"
  using assms(2)
proof (induction es arbitrary: p ids)
  case (Cons e es)
  then show ?case
    by (auto simp: assms(1) inmem_publisher_def inmem_Publish_def Let_def split: if_splits prod.splits)
qed simp

lemma pending_map:
  assumes "\<And>e. ev_Status (f e) = OutboxPending \<longleftrightarrow> ev_Status e = OutboxPending \<and> e \<notin> T" and "\<And>e. e \<notin> T \<Longrightarrow> f e = e"
  shows "pending (map f es) = filter (\<lambda>e. ev_Status e = OutboxPending \<and> e \<notin> T) es"
  by (induction es) (auto simp: pending_def assms)

lemma pending_after_drain:
  assumes d: "distinct (map ev_EventID es)" and "m \<le> k"
  shows "pending (map (\<lambda>e. if e \<in> set (take m (pending es)) then e\<lparr>ev_Status := OutboxPublished, ev_PublishedAt := Some now\<rparr>
      else if e \<in> set (take k (pending es)) then inflight e else e) es) = drop k (pending es)" (is "pending (map ?f es) = _")
proof -
  let ?T = "set (take k (pending es))"
  have T: "set (take m (pending es)) \<subseteq> ?T" by (rule set_take_subset_set_take [OF assms(2)])
  have f: "ev_Status (?f e) = OutboxPending \<longleftrightarrow> ev_Status e = OutboxPending \<and> e \<notin> ?T" for e using T by (auto simp: inflight_def)
  have id: "?f e = e" if "e \<notin> ?T" for e using T that by auto
  have "pending (map ?f es) = filter (\<lambda>e. ev_Status e = OutboxPending \<and> e \<notin> ?T) es"
    by (rule pending_map [OF f id])
  also have "\<dots> = filter (\<lambda>e. e \<notin> ?T) (pending es)" by (simp add: pending_def conj_commute)
  also have "\<dots> = filter (\<lambda>e. e \<notin> ?T) (take k (pending es)) @ filter (\<lambda>e. e \<notin> ?T) (drop k (pending es))"
    by (metis append_take_drop_id filter_append)
  also have "\<dots> = drop k (pending es)"
  proof -
    have "distinct (pending es)" using pending_ids_distinct [OF d] by (simp add: distinct_map)
    then have "?T \<inter> set (drop k (pending es)) = {}" by (metis append_take_drop_id distinct_append)
    then show ?thesis by (auto simp: filter_id_conv)
  qed
  finally show ?thesis .
qed

lemma relay_subseq:
  assumes "rl_Store r = mem_ops" and "rl_Publisher r = inmem_publisher"
    and "distinct (map ev_EventID (ms_outbox s))" and "relay_loop r cs (s, p) = (s', p')"
  shows "\<exists>new. pub_Events p' = pub_Events p @ new \<and> subseq new (map inflight (pending (ms_outbox s)))"
  using assms(3,4)
proof (induction cs arbitrary: s p)
  case (Cons c cs)
  show ?case
  proof (cases c)
    case (Tick now)
    let ?k = "claim_size (rl_BatchSize r)" and ?P = "pending (ms_outbox s)"
    obtain ids p1 where l: "publish_loop r (map inflight (take ?k ?P)) p = (ids, p1)" by fastforce
    define s1 where "s1 = s\<lparr>ms_outbox := map (\<lambda>e. if e \<in> set (take (length ids) ?P)
        then e\<lparr>ev_Status := OutboxPublished, ev_PublishedAt := Some now\<rparr>
        else if e \<in> set (take ?k ?P) then inflight e else e) (ms_outbox s)\<rparr>"
    have dr: "length ids \<le> ?k" "drainOnce r now (s, p) = (Inr (), (s1, p1))"
      using drain_outbox [OF assms(1) Cons.prems(1) refl refl l, of now] by (simp_all add: s1_def)
    have ids1: "map ev_EventID (ms_outbox s1) = map ev_EventID (ms_outbox s)" by (simp add: s1_def inflight_def)
    have pend1: "pending (ms_outbox s1) = drop ?k ?P"
      unfolding s1_def using pending_after_drain [OF Cons.prems(1) dr(1), of now] by simp
    have run: "relay_loop r cs (s1, p1) = (s', p')" using Cons.prems(2) Tick dr(2) by simp
    have d1: "distinct (map ev_EventID (ms_outbox s1))" using ids1 Cons.prems(1) by simp
    obtain new where n: "pub_Events p' = pub_Events p1 @ new" "subseq new (map inflight (drop ?k ?P))"
      using Cons.IH [OF d1 run] pend1 by auto
    let ?new = "take (length ids) (map inflight (take ?k ?P))"
    have "subseq (?new @ new) (map inflight (take ?k ?P) @ map inflight (drop ?k ?P))"
      by (rule list_emb_append_mono [OF prefix_imp_subseq [OF take_is_prefix] n(2)])
    then have "subseq (?new @ new) (map inflight ?P)" by (metis append_take_drop_id map_append)
    moreover have "pub_Events p' = pub_Events p @ ?new @ new" using n(1) publish_records [OF assms(2) l] by simp
    ultimately show ?thesis by blast
  qed (use Cons.prems in auto)
qed simp



section \<open>Publisher URLs\<close>

lemma url_topic:
  assumes "CHR ''?'' \<notin> set hosts" and "CHR ''&'' \<notin> set topic"
  shows "newKafkaPublisherFromURL (''kafka://'' @ hosts @ ''?topic='' @ topic) =
    NewKafkaPublisher (map trim_space (split_on (CHR '','') hosts)) topic"
proof -
  have rest: "trim_prefix (''kafka://'' @ hosts @ ''?topic='' @ topic) ''kafka://'' = hosts @ ''?topic='' @ topic" by (rule trim_prefix_append)
  have h: "takeWhile (\<lambda>c. c \<noteq> CHR ''?'') (hosts @ ''?topic='' @ topic) = hosts" using assms(1) by (subst takeWhile_append2) auto
  have q: "drop (length hosts + 1) (hosts @ ''?topic='' @ topic) = ''topic='' @ topic" by simp
  have s: "split_on (CHR ''&'') (''topic='' @ topic) = [''topic='' @ topic]" using assms(2) by (intro split_on_plain) simp
  show ?thesis unfolding newKafkaPublisherFromURL_def rest Let_def h q s by (simp add: trim_prefix_def)
qed

text \<open>A Kafka URL means what it spells: brokers joined by commas and a topic, written as \<open>kafka://b1,b2?topic=t\<close>, select a
  Kafka publisher with exactly these brokers and this topic (\<open>transactions\<close> when the topic is empty); without the scheme, a broker
  list that contains a port does too.\<close>

theorem kafka_url_roundtrip:
  assumes "bs \<noteq> []" and "\<forall>b \<in> set bs. set b \<inter> {CHR '','', CHR ''?''} = {} \<and> trim_space b = b" and "CHR ''&'' \<notin> set topic"
  shows "NewPublisher (''kafka://'' @ strings_Join '','' bs @ ''?topic='' @ topic) =
      Inr (KafkaBus bs (if topic = '''' then ''transactions'' else topic)) \<and>
    (isPlainBrokerList (strings_Join '','' bs @ ''?topic='' @ topic) \<longrightarrow>
      NewPublisher (strings_Join '','' bs @ ''?topic='' @ topic) =
      Inr (KafkaBus bs (if topic = '''' then ''transactions'' else topic)))"
proof -
  let ?hosts = "strings_Join '','' bs"
  have "CHR ''?'' \<notin> set ?hosts" using set_strings_Join [of "CHR '',''" bs] assms(2) by auto
  from url_topic [OF this assms(3)]
  have "newKafkaPublisherFromURL (''kafka://'' @ ?hosts @ ''?topic='' @ topic) = NewKafkaPublisher bs topic"
    using assms(1,2) by (simp add: split_join map_idI)
  then have k: "newKafkaPublisherFromURL (''kafka://'' @ ?hosts @ ''?topic='' @ topic) =
      Inr (KafkaBus bs (if topic = '''' then ''transactions'' else topic))"
    using assms(1) by (simp add: NewKafkaPublisher_def)
  have plain: "NewPublisher u = newKafkaPublisherFromURL (''kafka://'' @ u)" if "isPlainBrokerList u" for u
  proof -
    have c: "\<not> str_contains u ''://''" "str_contains u '':''" using that by (simp_all add: isPlainBrokerList_def split: if_splits)
    have no: "\<not> has_prefix u (q @ ''://'')" for q using c(1) by (auto simp: has_prefix_iff str_contains_iff)
    have "u \<noteq> ''''" using c(2) by auto
    with no [of "''memory''"] no [of "''kafka''"] that show ?thesis by (simp add: NewPublisher_def)
  qed
  have "NewPublisher (''kafka://'' @ u) = newKafkaPublisherFromURL (''kafka://'' @ u)" for u by (simp add: NewPublisher_def)
  with k plain show ?thesis by metis
qed

theorem kafka_url_roundtrip_witness:
  "NewPublisher ''kafka://k1:9092,k2:9092?topic=tx'' = Inr (KafkaBus [''k1:9092'', ''k2:9092''] ''tx'')"
  using kafka_url_roundtrip [of "[''k1:9092'', ''k2:9092'']" "''tx''"] by (simp add: trim_space_def is_space_def of_char_def)

section \<open>What a consumer reads\<close>

lemma member_of_sort: "distinct (map fst kvs) \<Longrightarrow> map_of (sort_key fst kvs) k = map_of kvs k" for kvs :: "(string \<times> 'a) list"
proof -
  assume d: "distinct (map fst kvs)"
  then have "distinct (map fst (sort_key fst kvs))" by (simp add: distinct_map)
  then have "map_of (sort_key fst kvs) k = Some v \<longleftrightarrow> map_of kvs k = Some v" for v using d by simp
  then show ?thesis by (metis not_Some_eq)
qed

lemma Encode_fits: "flat (ev_Payload e) \<Longrightarrow> json_unmarshal (Encode e) = Some (JObj (sort_key fst
     [(''event_id'', JStr (ev_EventID e)), (''tx_id'', JStr (ev_TxID e)), (''event_type'', JStr (ev_EventType e)),
      (''step'', JStr (ev_Step e)), (''attempt'', JInt (ev_Attempt e)), (''dedup_key'', JStr (ev_DedupKey e)),
      (''payload'', payload_json (ev_Payload e)), (''created_at'', time_json (ev_CreatedAt e))]))"
  unfolding Encode_def JMap_def by (rule json_unmarshal_print) (simp add: maxNestingDepth_def payload_json_fits)



end
