(* ===== verification/System.thy ===== *)
theory System
  imports Confirm_Poller Api Outbox_Relay
begin

text \<open>
  The server as a whole on one in-memory store: requests to the REST API, the turns of the workers' runs, the goroutines of the
  pool, the rounds of confirmation pollers and the two transactions of a relay's drain, in any order and for any number of workers,
  pollers and relays, while partners, clocks and leases change as they like. A turn of \<open>Run\<close> loads what it works on afresh and is
  one step here, so two runs of one transaction, as after a lost lease, may alternate turn by turn.
\<close>

section \<open>Steps of the system\<close>

text \<open>The state of the API with the control plane of the server: the dispatcher, the partners and the leases.\<close>

type_synonym ('q, 'p, 'l) system =
  "(mem_store, 'q, (mem_store, 'p, 'l) Dispatcher \<times> 'p net \<times> 'l) api_state"

definition set_world ::
  "(mem_store, 'p, 'l) Dispatcher \<Rightarrow> (mem_store, 'p, 'l) world \<Rightarrow> ('q, 'p, 'l) system \<Rightarrow> ('q, 'p, 'l) system" where
  "set_world d w S = S\<lparr>as_db := w_db w, as_control := (d, w_net w, w_leases w)\<rparr>"

inductive sys_step ::
  "(byte list \<Rightarrow> go_error) \<Rightarrow> string \<times> bool \<Rightarrow>
   (mem_store, 'q, (mem_store, 'p, 'l) Dispatcher \<times> 'p net \<times> 'l) Service \<Rightarrow> runtime \<Rightarrow> (mem_store, 'p, 'l) Executor \<Rightarrow> nat \<Rightarrow>
   ('q, 'p, 'l) system \<Rightarrow> ('q, 'p, 'l) system \<Rightarrow> bool"
  for json_err sec svc rt ex pf
where
  request: "Mux json_err sec svc r S = Proceeds (rs, S') \<Longrightarrow> sys_step json_err sec svc rt ex pf S S'"
| turn: "as_control S = (d, n, l) \<Longrightarrow>
     run_turn rt ex pf txID owner \<lparr>w_db = as_db S, w_net = n, w_leases = l\<rparr> = (t, w) \<Longrightarrow>
     sys_step json_err sec svc rt ex pf S (set_world d w S)"
| pool: "as_control S = (d, n, l) \<Longrightarrow> pool_exec e d = Some d' \<Longrightarrow>
     sys_step json_err sec svc rt ex pf S (S\<lparr>as_control := (d', n, l)\<rparr>)"
| poll: "as_control S = (d, n, l) \<Longrightarrow> cp_Store cp = mem_ops \<Longrightarrow>
     confirm_loop 1 rt cp txID deadline \<lparr>w_db = as_db S, w_net = n, w_leases = l\<rparr> = (t, w) \<Longrightarrow>
     sys_step json_err sec svc rt ex pf S (set_world d w S)"
| claim: "RunInTx mem_ops (op_ClaimOutboxPending mem_ops limit) (as_db S) = (r, db) \<Longrightarrow>
     sys_step json_err sec svc rt ex pf S (S\<lparr>as_db := db\<rparr>)"
| mark: "RunInTx mem_ops (op_MarkOutboxPublished mem_ops ids at) (as_db S) = (r, db) \<Longrightarrow>
     sys_step json_err sec svc rt ex pf S (S\<lparr>as_db := db\<rparr>)"
| environment: "as_db S' = as_db S \<Longrightarrow> sys_step json_err sec svc rt ex pf S S'"

text \<open>The server on the in-memory store: the API, the control plane and the workers share it.\<close>

definition memory_server ::
  "(mem_store, 'q, (mem_store, 'p, 'l) Dispatcher \<times> 'p net \<times> 'l) Service \<Rightarrow> runtime \<Rightarrow> (mem_store, 'p, 'l) Executor \<Rightarrow> bool" where
  "memory_server svc rt ex \<longleftrightarrow>
     svc_Store svc = mem_ops \<and> svc_Control svc = Some (worker_control rt ex) \<and> ex_Store ex = mem_ops"

section \<open>The invariant\<close>

text \<open>
  Every transaction has a saga and agrees with it in status and version, and its step rows are its own; there are no sagas, steps or
  events without a transaction; every saga has come from \<open>CREATED\<close> by legal transitions; and every transaction has been announced.
\<close>

definition consistent :: "mem_store \<Rightarrow> bool" where
  "consistent T \<longleftrightarrow>
     (\<forall>i. ms_txs T i \<noteq> None \<longrightarrow> synced i T) \<and>
     (\<forall>i. ms_txs T i = None \<longrightarrow> ms_sagas T i = None \<and> ms_steps T i = []) \<and>
     (\<forall>i sg. ms_sagas T i = Some sg \<longrightarrow> moves_to StateCreated (sg_State sg) \<and> 1 \<le> sg_Version sg) \<and>
     (\<forall>e \<in> set (ms_outbox T). ms_txs T (ev_TxID e) \<noteq> None) \<and>
     (\<forall>i. ms_txs T i \<noteq> None \<longrightarrow> (\<exists>e \<in> set (ms_outbox T). ev_TxID e = i \<and> ev_EventType e = ''transaction.created''))"

text \<open>What an event says, apart from its delivery.\<close>

definition event_core :: "OutboxEvent \<Rightarrow> OutboxEvent" where
  "event_core e = e\<lparr>ev_Status := OutboxPending, ev_PublishedAt := None\<rparr>"

text \<open>The history of a store: transactions stay, with their terms, sagas move legally and forward, and the outbox only grows.\<close>

definition evolves :: "mem_store \<Rightarrow> mem_store \<Rightarrow> bool" where
  "evolves T T' \<longleftrightarrow>
     (\<forall>i tx. ms_txs T i = Some tx \<longrightarrow> (\<exists>tx'. ms_txs T' i = Some tx' \<and> tx_terms tx' = tx_terms tx)) \<and>
     (\<forall>i sg. ms_sagas T i = Some sg \<longrightarrow>
        (\<exists>sg'. ms_sagas T' i = Some sg' \<and> moves_to (sg_State sg) (sg_State sg') \<and> sg_Version sg \<le> sg_Version sg')) \<and>
     prefix (map event_core (ms_outbox T)) (map event_core (ms_outbox T'))"

section \<open>Histories compose\<close>

lemma evolves_refl: "evolves T T"
  by (auto simp: evolves_def)

lemma evolves_trans: "evolves A B \<Longrightarrow> evolves B C \<Longrightarrow> evolves A C"
proof -
  assume ab: "evolves A B" and bc: "evolves B C"
  have "\<exists>tx'. ms_txs C i = Some tx' \<and> tx_terms tx' = tx_terms tx" if "ms_txs A i = Some tx" for i tx
    using ab bc that unfolding evolves_def by metis
  moreover have "\<exists>sg'. ms_sagas C i = Some sg' \<and> moves_to (sg_State sg) (sg_State sg') \<and> sg_Version sg \<le> sg_Version sg'"
    if a: "ms_sagas A i = Some sg" for i sg
  proof -
    obtain sb where b: "ms_sagas B i = Some sb" "moves_to (sg_State sg) (sg_State sb)" "sg_Version sg \<le> sg_Version sb"
      using ab a unfolding evolves_def by blast
    obtain sc where c: "ms_sagas C i = Some sc" "moves_to (sg_State sb) (sg_State sc)" "sg_Version sb \<le> sg_Version sc"
      using bc b(1) unfolding evolves_def by blast
    from b c show ?thesis by (metis order_trans rtranclp_trans)
  qed
  moreover have "prefix (map event_core (ms_outbox A)) (map event_core (ms_outbox C))"
    using ab bc unfolding evolves_def by (blast intro: prefix_order.trans)
  ultimately show ?thesis unfolding evolves_def by blast
qed

text \<open>A step of the system on the store: it keeps the invariant and makes history.\<close>

definition good_move :: "mem_store \<Rightarrow> mem_store \<Rightarrow> bool" where
  "good_move T T' \<longleftrightarrow> (consistent T \<longrightarrow> consistent T' \<and> evolves T T')"

lemma good_move_refl [simp]: "good_move T T"
  by (simp add: good_move_def evolves_refl)

section \<open>Each step is a good move\<close>

text \<open>Whatever works on one transaction: runs, compensations, pollers.\<close>

lemma safe_step_good:
  assumes "ms_txs T i \<noteq> None" and "safe_step i T T'"
  shows "good_move T T'"
  unfolding good_move_def
proof
  assume c: "consistent T"
  obtain sg sg' where sg: "ms_sagas T i = Some sg" "ms_sagas T' i = Some sg'" "moves_to (sg_State sg) (sg_State sg')"
    "sg_Version sg \<le> sg_Version sg'" and terms: "map_option tx_terms (ms_txs T' i) = map_option tx_terms (ms_txs T i)"
    using assms(2) by (auto simp: safe_step_def saga_path_def)
  have fr: "ms_txs T' j = ms_txs T j" "ms_sagas T' j = ms_sagas T j" "ms_steps T' j = ms_steps T j" if "j \<noteq> i" for j
    using assms(2) that by (simp_all add: safe_step_def tx_frame_def)
  obtain evs where evs: "ms_outbox T' = ms_outbox T @ evs" "\<forall>e \<in> set evs. ev_TxID e = i"
    using assms(2) by (auto simp: safe_step_def tx_frame_def)
  have sy: "synced i T'" using assms(2) by (simp add: safe_step_def)
  have some: "ms_txs T' i \<noteq> None" using terms assms(1) by (cases "ms_txs T' i") auto
  have "synced j T'" if "ms_txs T' j \<noteq> None" for j
    using c sy fr [of j] that by (cases "j = i") (auto simp: consistent_def synced_def)
  moreover have "ms_sagas T' j = None \<and> ms_steps T' j = []" if "ms_txs T' j = None" for j
    using c fr [of j] that some by (cases "j = i") (auto simp: consistent_def)
  moreover have "moves_to StateCreated (sg_State g) \<and> 1 \<le> sg_Version g" if g: "ms_sagas T' j = Some g" for j g
  proof (cases "j = i")
    case True
    have "moves_to StateCreated (sg_State sg)" "1 \<le> sg_Version sg" using c sg(1) by (auto simp: consistent_def)
    then show ?thesis using sg g True by (metis option.inject order_trans rtranclp_trans)
  qed (use c fr [of j] g in \<open>auto simp: consistent_def\<close>)
  moreover have "ms_txs T' (ev_TxID e) \<noteq> None" if "e \<in> set (ms_outbox T')" for e
    using c evs fr(1) [of "ev_TxID e"] some that by (cases "ev_TxID e = i") (auto simp: consistent_def)
  moreover have "\<exists>e \<in> set (ms_outbox T'). ev_TxID e = j \<and> ev_EventType e = ''transaction.created''" if "ms_txs T' j \<noteq> None" for j
  proof -
    have "ms_txs T j \<noteq> None" using that fr(1) [of j] assms(1) by (cases "j = i") auto
    then show ?thesis using c evs(1) unfolding consistent_def by auto
  qed
  ultimately have "consistent T'" unfolding consistent_def by blast
  moreover have "\<exists>tx'. ms_txs T' j = Some tx' \<and> tx_terms tx' = tx_terms tx" if "ms_txs T j = Some tx" for j tx
    using that terms fr(1) [of j] by (cases "j = i") auto
  moreover have "\<exists>g'. ms_sagas T' j = Some g' \<and> moves_to (sg_State g) (sg_State g') \<and> sg_Version g \<le> sg_Version g'"
    if "ms_sagas T j = Some g" for j g
    using that sg fr(2) [of j] by (cases "j = i") auto
  ultimately show "consistent T' \<and> evolves T T'" unfolding evolves_def by (auto simp: evs(1))
qed

lemma consistent_synced: "consistent T \<Longrightarrow> ms_txs T i \<noteq> None \<Longrightarrow> synced i T"
  by (simp add: consistent_def)

text \<open>Relays only change the delivery of events.\<close>

definition event_key :: "OutboxEvent \<Rightarrow> string \<times> string" where
  "event_key e = (ev_TxID e, ev_EventType e)"

lemma event_key_in: "(i, t) \<in> set (map event_key es) \<longleftrightarrow> (\<exists>e \<in> set es. ev_TxID e = i \<and> ev_EventType e = t)"
  by (auto simp: event_key_def)

lemma consistent_keys:
  "consistent T \<longleftrightarrow>
     (\<forall>i. ms_txs T i \<noteq> None \<longrightarrow> synced i T) \<and>
     (\<forall>i. ms_txs T i = None \<longrightarrow> ms_sagas T i = None \<and> ms_steps T i = []) \<and>
     (\<forall>i sg. ms_sagas T i = Some sg \<longrightarrow> moves_to StateCreated (sg_State sg) \<and> 1 \<le> sg_Version sg) \<and>
     (\<forall>k \<in> set (map event_key (ms_outbox T)). ms_txs T (fst k) \<noteq> None) \<and>
     (\<forall>i. ms_txs T i \<noteq> None \<longrightarrow> (i, ''transaction.created'') \<in> set (map event_key (ms_outbox T)))"
  unfolding consistent_def event_key_in by (simp add: event_key_def)

lemma delivery_good:
  assumes "ms_txs T' = ms_txs T" "ms_sagas T' = ms_sagas T" "ms_steps T' = ms_steps T"
    and o: "map event_core (ms_outbox T') = map event_core (ms_outbox T)"
  shows "good_move T T'"
proof -
  have "event_key (event_core e) = event_key e" for e by (simp add: event_key_def event_core_def)
  then have "map event_key xs = map event_key (map event_core xs)" for xs by simp
  then have "map event_key (ms_outbox T') = map event_key (ms_outbox T)" using o by metis
  moreover have "synced i T' = synced i T" for i using assms(1-3) by (simp add: synced_def)
  ultimately have "consistent T' = consistent T" unfolding consistent_keys by (simp add: assms(1-3))
  moreover have "evolves T T'" using assms by (auto simp: evolves_def)
  ultimately show ?thesis by (simp add: good_move_def)
qed

lemma core_claim: "claim_upto limit n es = (c, r) \<Longrightarrow> map event_core r = map event_core es"
  by (induction limit n es arbitrary: c r rule: claim_upto.induct)
    (auto simp: event_core_def Let_def split: if_splits prod.splits)

lemma core_mark: "map event_core (fold (mark_first at) ids es) = map event_core es"
proof (induction ids arbitrary: es)
  case (Cons i ids)
  have "map event_core (mark_first at i es) = map event_core es" by (induction es) (auto simp: event_core_def)
  with Cons show ?case by simp
qed simp

lemma claim_good: "RunInTx mem_ops (op_ClaimOutboxPending mem_ops limit) T = (r, T') \<Longrightarrow> good_move T T'"
  by (rule delivery_good) (auto simp: mem_ClaimOutboxPending_def split: prod.splits dest: core_claim)

lemma mark_good: "RunInTx mem_ops (op_MarkOutboxPublished mem_ops ids at) T = (r, T') \<Longrightarrow> good_move T T'"
  by (rule delivery_good) (auto simp: mem_MarkOutboxPublished_def core_mark)

text \<open>Creation.\<close>

lemma create_good:
  assumes "svc_Store svc = mem_ops" and "handleCreate svc order body txID now ev ids (T, q) = (rs, (T', q'))"
  shows "good_move T T'"
  using assms
proof (cases rule: handleCreate_cases)
  case (created req)
  let ?tx = "with_tx_id (ids 0) (new_tx req txID now)" and ?sg = "with_sg_id (ids (1 + length (new_steps txID))) (new_saga txID)"
  let ?rows = "map (\<lambda>(i, r). with_row_id (ids (1 + i)) r) (enumerate 0 (new_steps txID))"
  have id: "tx_TxID (new_tx req txID now) = txID" by (simp add: new_tx_def)
  have T: "ms_txs T txID = None" using created(4) by (auto simp: mem_CreateTx_def id split: if_splits)
  let ?e = "with_ev_id (ids (2 + length (new_steps txID))) (created_event req txID now ev)"
  have e: "ev_TxID ?e = txID" "ev_EventType ?e = ''transaction.created''" by (simp_all add: created_event_def tx_event_def with_ev_id_def)
  have T': "ms_txs T' = (ms_txs T)(txID \<mapsto> ?tx)" "ms_sagas T' = (ms_sagas T)(txID \<mapsto> ?sg)" "ms_steps T' = (ms_steps T)(txID := ?rows)"
      "ms_outbox T' = ms_outbox T @ [?e]"
    using created(4) T by (auto simp: mem_CreateTx_def id)
  have rows: "row_TxID r = txID" if "r \<in> set ?rows" for r using new_rows(1) that .
  have sy: "synced txID T'" unfolding synced_def
    using rows by (auto simp: T' with_tx_id_def with_sg_id_def new_tx_def new_saga_def)
  show ?thesis unfolding good_move_def
  proof
    assume c: "consistent T"
    have "synced i T'" if i: "ms_txs T' i \<noteq> None" for i
    proof (cases "i = txID")
      case False
      then have "synced i T" using c i by (simp add: T' consistent_def)
      then show ?thesis using False by (simp add: synced_def T')
    qed (use sy in simp)
    moreover have "ms_sagas T' i = None \<and> ms_steps T' i = []" if "ms_txs T' i = None" for i
      using that c by (auto simp: T' consistent_def split: if_splits)
    moreover have "moves_to StateCreated (sg_State g) \<and> 1 \<le> sg_Version g" if "ms_sagas T' i = Some g" for i g
      using that c by (auto simp: T' consistent_def with_sg_id_def new_saga_def split: if_splits)
    moreover have "ms_txs T' (ev_TxID x) \<noteq> None" if "x \<in> set (ms_outbox T')" for x
      using that c e by (auto simp: T' consistent_def)
    moreover have "\<exists>x \<in> set (ms_outbox T'). ev_TxID x = i \<and> ev_EventType x = ''transaction.created''" if "ms_txs T' i \<noteq> None" for i
      using that c e by (cases "i = txID") (auto simp: T' consistent_def)
    ultimately have "consistent T'" unfolding consistent_def by blast
    moreover have "ms_sagas T txID = None" using c T by (simp add: consistent_def)
    then have "evolves T T'" unfolding evolves_def using T by (auto simp: T')
    ultimately show "consistent T' \<and> evolves T T'" by blast
  qed
qed simp

text \<open>Turns of runs, rounds of pollers, compensations: on a transaction that there is they are safe steps, without one they change
  nothing.\<close>

lemma turn_good:
  assumes "ex_Store ex = mem_ops" and "run_turn rt ex pf txID owner w = (t, w')"
  shows "good_move (w_db w) (w_db w')"
proof (cases "ms_txs (w_db w) txID")
  case None
  then have "w' = w" using assms by (simp add: run_turn_def mem_LoadTx_def Let_def)
  then show ?thesis by simp
next
  case (Some tx)
  show ?thesis unfolding good_move_def
  proof
    assume c: "consistent (w_db w)"
    have tx: "ms_txs (w_db w) txID \<noteq> None" using Some by simp
    have "safe_step txID (w_db w) (w_db w')"
      using mem.run_turn_safe [OF assms(1) consistent_synced [OF c tx], of rt pf owner] assms(2) by simp
    from safe_step_good [OF tx this] c show "consistent (w_db w') \<and> evolves (w_db w) (w_db w')" by (simp add: good_move_def)
  qed
qed

lemma poll_good:
  assumes "cp_Store cp = mem_ops" and "confirm_loop n rt cp txID dl w = (t, w')"
  shows "good_move (w_db w) (w_db w')"
  unfolding good_move_def
proof
  assume c: "consistent (w_db w)"
  show "consistent (w_db w') \<and> evolves (w_db w) (w_db w')"
  proof (cases "ms_txs (w_db w) txID = None")
    case True
    then have "ms_sagas (w_db w) txID = None" using c by (simp add: consistent_def)
    then have "w' = w" using assms by (cases n) (auto simp: mem_LoadSagaState_def)
    then show ?thesis using c by (simp add: evolves_refl)
  next
    case False
    have "safe_step txID (w_db w) (w_db w')"
      using mem.confirm_loop_safe [OF assms(1) consistent_synced [OF c False], of n rt dl] assms(2) by simp
    from safe_step_good [OF False this] c show ?thesis by (simp add: good_move_def)
  qed
qed

lemma compensate_good:
  assumes "ex_Store (ctl_Executor ctl) = mem_ops" and "Control_Compensate rt ctl txID w = (r, w')"
  shows "good_move (w_db w) (w_db w')"
  unfolding good_move_def
proof
  assume c: "consistent (w_db w)"
  show "consistent (w_db w') \<and> evolves (w_db w) (w_db w')"
  proof (cases "w_db w' = w_db w")
    case True
    then show ?thesis using c by (simp add: evolves_refl)
  next
    case False
    obtain sg where sg: "ms_sagas (w_db w) txID = Some sg"
      using False assms by (cases "ms_sagas (w_db w) txID") (auto simp: Control_Compensate_def mem_LoadSagaState_def)
    then have tx: "ms_txs (w_db w) txID \<noteq> None" using c by (auto simp: consistent_def)
    obtain tx' sg' where "stored txID tx' sg' (w_db w)" using mem.synced_stored [OF consistent_synced [OF c tx]] by blast
    then have st: "stored txID tx' sg (w_db w)" using sg by (simp add: stored_def)
    have nt: "\<not> Terminal (sg_State sg)" and run: "\<exists>failed. compensateCascade rt (ctl_Executor ctl) txID failed w = (r, w')"
      using False assms sg by (auto simp: Control_Compensate_def CompensateCascade_def mem_LoadSagaState_def split: if_splits option.splits)
    have "safe_step txID (w_db w) (w_db w')"
      using mem.compensateCascade_safe [OF assms(1) st nt] run by (metis snd_conv)
    from safe_step_good [OF tx this] c show ?thesis by (simp add: good_move_def)
  qed
qed

text \<open>A request: only the three \<open>POST\<close> routes reach the store, and a retry writes nothing to it.\<close>

lemma retry_db:
  assumes "svc_Control svc = Some (worker_control rt ex)" and "handleRetry svc i step (db, c) = Proceeds (rs, (db', c'))"
  shows "db' = db"
  using assms by (auto simp: handleRetry_def worker_control_def split: if_splits sum.splits progress.splits prod.splits option.splits)

lemma compensate_db:
  assumes "svc_Control svc = Some (worker_control rt ex)" and "ex_Store ex = mem_ops"
    and "handleCompensate svc i (db, c) = Proceeds (rs, (db', c'))"
  shows "good_move db db'"
proof -
  obtain d n l where c: "c = (d, n, l)" by (metis surj_pair)
  obtain r w where run: "Control_Compensate rt \<lparr>ctl_Dispatcher = d, ctl_Executor = ex\<rparr> i \<lparr>w_db = db, w_net = n, w_leases = l\<rparr> = (r, w)"
    by (metis surj_pair)
  have "db' = w_db w"
    using assms(1,3) run by (auto simp: handleCompensate_def worker_control_def c split: option.splits)
  then show ?thesis using compensate_good [OF _ run] assms(2) by simp
qed

lemma request_good:
  assumes "memory_server svc rt ex" and "Mux json_err sec svc r S = Proceeds (rs, S')"
  shows "good_move (as_db S) (as_db S')"
proof -
  note ms = assms(1) [unfolded memory_server_def]
  show ?thesis
  proof (cases "Mux_route (rq_verb r) (rq_path r)")
    case CreateRoute
    obtain rs1 s q where h: "handleCreate svc (rq_order r) (Decode_create (rq_body r)) (rq_fresh r) (rq_now r) (rq_event_id r) (rq_ids r)
        (as_db S, as_quotes S) = (rs1, (s, q))" by (metis surj_pair)
    have "as_db S' = s \<or> as_db S' = as_db S"
      using assms(2) CreateRoute h by (auto simp: Mux_def serve_route_def split: auth_decision.splits)
    then show ?thesis using create_good [OF _ h] ms by auto
  next
    case (RetryRoute i)
    obtain d where "as_db S' = as_db S \<or> (\<exists>c'. handleRetry svc i (Decode_step (rq_body r)) (as_db S, as_control S) = Proceeds (d, (as_db S', c')))"
      using assms(2) RetryRoute by (fastforce simp: Mux_def serve_route_def with_control_def split: auth_decision.splits progress.splits prod.splits)
    then have "as_db S' = as_db S" using retry_db ms by metis
    then show ?thesis by simp
  next
    case (CompensateRoute i)
    obtain d where "as_db S' = as_db S \<or> (\<exists>c'. handleCompensate svc i (as_db S, as_control S) = Proceeds (d, (as_db S', c')))"
      using assms(2) CompensateRoute by (fastforce simp: Mux_def serve_route_def with_control_def split: auth_decision.splits progress.splits prod.splits)
    then show ?thesis using compensate_db ms by (metis good_move_refl)
  qed (use assms(2) in \<open>auto simp: Mux_def serve_route_def split: auth_decision.splits\<close>)
qed

section \<open>Reachable states\<close>

lemma sys_step_good:
  assumes "memory_server svc rt ex" and "sys_step json_err sec svc rt ex pf S S'"
  shows "good_move (as_db S) (as_db S')"
  using assms(2)
proof cases
  case (request r rs)
  then show ?thesis using request_good [OF assms(1)] by simp
next
  case (turn d n l txID owner t w)
  then show ?thesis using turn_good [OF _ turn(3)] assms(1) by (simp add: memory_server_def set_world_def)
next
  case (poll d n l cp txID deadline t w)
  then show ?thesis using poll_good [OF poll(3,4)] by (simp add: set_world_def)
qed (simp_all add: claim_good mark_good del: RunInTx_mem)

lemma sys_run_good:
  assumes "memory_server svc rt ex" and "(sys_step json_err sec svc rt ex pf)\<^sup>*\<^sup>* S S'" and "consistent (as_db S)"
  shows "consistent (as_db S') \<and> evolves (as_db S) (as_db S')"
  using assms(2,3)
proof (induction rule: rtranclp_induct)
  case base
  then show ?case by (simp add: evolves_refl)
next
  case (step S1 S2)
  then show ?case using sys_step_good [OF assms(1) step(2)] unfolding good_move_def by (blast intro: evolves_trans)
qed

lemma consistent_empty: "consistent NewMemStore"
  by (simp add: consistent_def NewMemStore_def)

section \<open>Properties of the system\<close>


definition demo_server :: "(mem_store, unit, (mem_store, Stub, unit) Dispatcher \<times> Stub net \<times> unit) Service" where
  "demo_server = \<lparr>svc_Store = mem_ops, svc_Locker = NoopLocker, svc_Control = Some (worker_control demo_rt demo_executor)\<rparr>"

definition demo_system :: "(unit, Stub, unit) system" where
  "demo_system = \<lparr>as_db = NewMemStore, as_quotes = (), as_control = (demo_pool, w_net demo_world, ())\<rparr>"

lemma demo_memory_server: "memory_server demo_server demo_rt demo_executor"
  by (simp add: memory_server_def demo_server_def demo_executor_def)

lemma demo_system_empty: "as_db demo_system = NewMemStore"
  by (simp add: demo_system_def)

lemma demo_system_creates:
  obtains S where "sys_step json_err (''k'', False) demo_server demo_rt demo_executor 1 demo_system S" "ms_txs (as_db S) ''tx-9'' \<noteq> None"
    "ms_sagas (as_db S) ''tx-9'' \<noteq> None"
proof -
  let ?c = "\<lparr>cl_Sub = ''web'', cl_Iat = 0, cl_Exp = 9\<rparr>"
  obtain db where db: "mem_CreateTx (\<lambda>_. ''u'') (new_tx demo_request ''tx-9'' 5) (new_steps ''tx-9'') (new_saga ''tx-9'')
      [created_event demo_request ''tx-9'' 5 ''ev''] NewMemStore = (Inr (), db)" "ms_txs db ''tx-9'' \<noteq> None" "ms_sagas db ''tx-9'' \<noteq> None"
    by (simp add: mem_CreateTx_def NewMemStore_def new_tx_def)
  have h: "handleCreate demo_server field_order (Some demo_request) ''tx-9'' 5 ''ev'' (\<lambda>_. ''u'') (NewMemStore, ()) =
      (writeJSON 201 (CreateTxResponse ''tx-9''), (db, ()))"
    using db(1) by (simp add: demo_server_def handleCreate_valid [OF _ demo_valid, where ?q1.0 = "()"] NoopLocker_def)
  have path: "''/v1/transactions'' \<notin> skipPaths" by (simp add: skipPaths_def)
  have "Middleware json_err ''k'' False 0 ''/v1/transactions'' (''Bearer '' @ sign ?c ''k'') = Serve"
    using middleware_token [OF path, of ?c json_err "''k''" 0] by (simp add: claims_int64_def)
  moreover have "Mux_route ''POST'' ''/v1/transactions'' = CreateRoute" by (simp add: Mux_route_def Let_def)
  ultimately have "Mux json_err (''k'', False) demo_server signed_request demo_system =
      Proceeds (writeJSON 201 (CreateTxResponse ''tx-9''), demo_system\<lparr>as_db := db, as_quotes := ()\<rparr>)"
    using h by (simp add: Mux_def serve_route_def signed_request_def demo_system_def Decode_create_json del: json_print.simps)
  from that [OF sys_step.request [OF this]] db(2,3) show thesis by simp
qed


text \<open>The states that the program declares.\<close>

definition declared_states :: "State list" where
  "declared_states = [StateCreated, StatePolicyChecked, StatePaymentCaptured, StateKytScreened, StateSigned, StateBroadcasted,
     StateConfirmed, StateLedgered, StateCompleted, StateFailedCompensated, StateFailed]"

lemma moves_declared: "moves s t \<Longrightarrow> t \<in> set declared_states"
  by (cases s) (auto simp: moves.simps state_tables declared_states_def)

lemma moves_to_declared: "moves_to StateCreated st \<Longrightarrow> st \<in> set declared_states"
  by (erule rtranclp.cases) (simp_all add: moves_declared, simp add: declared_states_def)

lemma handleGet_stored:
  assumes "svc_Store svc = mem_ops" and "ms_txs T i = Some tx" and "ms_sagas T i = Some sg"
  shows "\<exists>t. handleGet svc i T = writeJSON 200 (TxBody t) \<and> rp_TxStatus t = state_string (tx_Status tx) \<and>
    rp_State t = state_string (sg_State sg) \<and> rp_Version t = tx_Version tx \<and> rp_TxID t = tx_TxID tx \<and> rp_UserID t = tx_UserID tx \<and>
    rp_QuoteID t = tx_QuoteID tx \<and> rp_Amount t = tx_Amount tx \<and> rp_Asset t = tx_Asset tx \<and> rp_Rail t = tx_Rail tx \<and>
    rp_DestAddress t = tx_DestAddress tx"
  using assms by (simp add: handleGet_def get_response_def mem_LoadTx_def mem_LoadSagaState_def mem_ListSteps_def writeJSON_def)



lemma same_terms:
  assumes "tx_terms tx' = tx_terms tx"
  shows "tx_TxID tx' = tx_TxID tx" "tx_UserID tx' = tx_UserID tx" "tx_QuoteID tx' = tx_QuoteID tx" "tx_Amount tx' = tx_Amount tx"
    "tx_Asset tx' = tx_Asset tx" "tx_Rail tx' = tx_Rail tx" "tx_DestAddress tx' = tx_DestAddress tx"
  using arg_cong [OF assms, of tx_TxID] arg_cong [OF assms, of tx_UserID] arg_cong [OF assms, of tx_QuoteID] arg_cong [OF assms, of tx_Amount]
    arg_cong [OF assms, of tx_Asset] arg_cong [OF assms, of tx_Rail] arg_cong [OF assms, of tx_DestAddress]
  by (simp_all add: tx_terms_def)


definition failed_system :: "(unit, Stub, unit) system" where
  "failed_system = demo_system\<lparr>as_db := NewMemStore\<lparr>ms_txs := [''tx-1'' \<mapsto> demo_tx\<lparr>tx_Status := StateFailed\<rparr>],
     ms_sagas := [''tx-1'' \<mapsto> demo_saga\<lparr>sg_State := StateFailed\<rparr>], ms_outbox := [sample_event ''a'' OutboxPending]\<rparr>\<rparr>"

lemma failed_system_consistent: "consistent (as_db failed_system)"
proof -
  have "moves_to StateCreated StateFailed" by (simp add: r_into_rtranclp)
  then show ?thesis
    by (auto simp: consistent_def failed_system_def NewMemStore_def synced_def demo_tx_def demo_saga_def sample_event_def)
qed


end
