(* ===== verification/System_Progress.thy ===== *)
theory System_Progress
  imports System
begin

text \<open>
  No transaction gets stuck: whatever the system has done, every stored transaction can still be brought to a terminal state by the
  turns of a worker. The invariant is that every saga is \<open>ready\<close> for \<open>Run\<close>; every step of the system keeps it.
\<close>

section \<open>Every saga stays ready\<close>

definition able :: "mem_store \<Rightarrow> bool" where
  "able T \<longleftrightarrow> (\<forall>i. ms_txs T i \<noteq> None \<longrightarrow> ready i T)"

lemma ready_same:
  assumes "ms_txs T' i = ms_txs T i" and "ms_sagas T' i = ms_sagas T i" and "ms_steps T' i = ms_steps T i"
  shows "ready i T' = ready i T"
  using assms by (simp add: ready_def stored_def synced_def unsucceeded_def row_at_def)

lemma ready_terminal: "synced i T \<Longrightarrow> ms_sagas T i = Some sg \<Longrightarrow> Terminal (sg_State sg) \<Longrightarrow> ready i T"
  unfolding ready_def stored_def synced_def by fastforce

lemma able_one:
  assumes "able T" and "tx_frame i T T'" and "ready i T'"
  shows "able T'"
  unfolding able_def
proof (intro allI impI)
  fix j
  assume j: "ms_txs T' j \<noteq> None"
  show "ready j T'"
  proof (cases "j = i")
    case False
    then have same: "ms_txs T' j = ms_txs T j" "ms_sagas T' j = ms_sagas T j" "ms_steps T' j = ms_steps T j"
      using assms(2) by (simp_all add: tx_frame_def)
    then show ?thesis using assms(1) j ready_same [OF same] by (simp add: able_def)
  qed (use assms(3) in simp)
qed

lemma able_same:
  assumes "able T" and "ms_txs T' = ms_txs T" and "ms_sagas T' = ms_sagas T" and "ms_steps T' = ms_steps T"
  shows "able T'"
  using assms(1) ready_same [of T' _ T] by (simp add: able_def assms(2-4))

section \<open>Turns\<close>

lemma turn_ready:
  assumes "ex_Store ex = mem_ops" and "runs_steps rt pf ex" and "ready i (w_db w)" and "run_turn rt ex pf i owner w = (t, w')"
  shows "safe_step i (w_db w) (w_db w')" and "ready i (w_db w')"
    and "t = Continue \<Longrightarrow> steps_left i (w_db w') < steps_left i (w_db w)"
    and "t \<noteq> Continue \<Longrightarrow> \<exists>sg. ms_sagas (w_db w') i = Some sg \<and> Terminal (sg_State sg)"
proof -
  note ok = mem.run_turn_progress [OF assms(1,2) _ assms(4)] 
  have turn: "turn_ok i (Suc (steps_left i (w_db w))) t (w_db w')" "t = Continue \<longrightarrow> steps_left i (w_db w') < steps_left i (w_db w)"
    using ok assms(3) by simp_all
  have "synced i (w_db w)" using assms(3) by (auto simp: ready_def stored_def)
  then show safe: "safe_step i (w_db w) (w_db w')" using mem.run_turn_safe [OF assms(1), of i w rt pf owner] assms(4) by simp
  show "t = Continue \<Longrightarrow> steps_left i (w_db w') < steps_left i (w_db w)" using turn(2) by simp
  show final: "\<exists>sg. ms_sagas (w_db w') i = Some sg \<and> Terminal (sg_State sg)" if "t \<noteq> Continue"
    using turn(1) that by (auto simp: turn_ok_def ended_def split: turn.splits outcome.splits)
  show "ready i (w_db w')"
  proof (cases "t = Continue")
    case True
    then show ?thesis using turn(1) by (simp add: turn_ok_def)
  next
    case False
    then show ?thesis using final ready_terminal safe unfolding safe_step_def by blast
  qed
qed

lemma turn_able:
  assumes "ex_Store ex = mem_ops" and "runs_steps rt pf ex" and "able (w_db w)" and "run_turn rt ex pf i owner w = (t, w')"
  shows "able (w_db w')"
proof (cases "ms_txs (w_db w) i")
  case None
  then have "w' = w" using assms(1,4) by (simp add: run_turn_def mem_LoadTx_def Let_def)
  then show ?thesis using assms(3) by simp
next
  case (Some tx)
  then have "ready i (w_db w)" using assms(3) by (simp add: able_def)
  from turn_ready [OF assms(1,2) this assms(4)] show ?thesis using able_one [OF assms(3)] unfolding safe_step_def by blast
qed

section \<open>Pollers\<close>

lemma confirm_loop_leaves:
  assumes "cp_Store cp = mem_ops" and "stored i tx sg (w_db w)" and "confirm_loop n rt cp i dl w = (r, w')"
  shows "ms_steps (w_db w') = ms_steps (w_db w) \<and>
    (\<exists>sg'. ms_sagas (w_db w') i = Some sg' \<and> (sg' = sg \<or> sg_State sg' = StateConfirmed \<and> sg_CurrentStep sg' = StepLedger))"
  using assms(2,3)
proof (induction n arbitrary: w)
  case 0
  then show ?case by (auto simp: stored_def)
next
  case (Suc n)
  have load: "op_LoadSagaState mem_ops i (w_db w) = Inr sg" using Suc.prems(1) by (simp add: mem_LoadSagaState_def stored_def)
  let ?h = "payload_string (sg_Payload sg) ''tx_hash''"
  obtain s w1 where w1: "on_net (rpc (PollStatus (cp_Client cp) ?h)) w = (s, w1)" by (metis surj_pair)
  then have db1: "w_db w1 = w_db w" by (metis on_net_db(1) snd_conv)
  obtain now w2 where w2: "w_now rt w1 = (now, w2)" by (metis surj_pair)
  then have db2: "w_db w2 = w_db w" using w_now_db(1) [of rt w1] db1 by simp
  obtain c w3 where w3: "w_wait rt w2 = (c, w3)" by (metis surj_pair)
  then have db3: "w_db w3 = w_db w" using db2 by (simp add: w_wait_fst)
  obtain clk ids w4 where w4: "w_stamp rt w1 = ((clk, ids), w4)" by (metis surj_pair)
  then have db4: "w_db w4 = w_db w" using w_stamp_db(1) [of rt w1] db1 by simp
  let ?p = "persist_confirmed mem_ops i tx sg clk ids"
  have "persistConfirmedInline rt mem_ops i sg w1 = on_db (RunInTx mem_ops ?p) w4"
    using Suc.prems(1) w4 db1 by (simp add: persistConfirmedInline_def mem_LoadTx_def stored_def)
  then have pc: "w_db (snd (persistConfirmedInline rt mem_ops i sg w1)) = snd (?p (w_db w))" using db4 by simp
  have fin: "ms_steps (snd (?p (w_db w))) = ms_steps (w_db w) \<and>
      (\<exists>sg'. ms_sagas (snd (?p (w_db w))) i = Some sg' \<and> (sg' = sg \<or> sg_State sg' = StateConfirmed \<and> sg_CurrentStep sg' = StepLedger))"
    using mem.persist_confirmed_moved [OF Suc.prems(1), of clk ids] Suc.prems(1)
    by (cases "?p (w_db w)") (auto simp: moved_def stored_def)
  have ih: "ms_steps (w_db w') = ms_steps (w_db w) \<and>
      (\<exists>sg'. ms_sagas (w_db w') i = Some sg' \<and> (sg' = sg \<or> sg_State sg' = StateConfirmed \<and> sg_CurrentStep sg' = StepLedger))"
    if "confirm_loop n rt cp i dl w3 = (r, w')"
    using Suc.IH [OF _ that] Suc.prems(1) db3 by simp
  have "ms_sagas (w_db w) i = Some sg" using Suc.prems(1) by (simp add: stored_def)
  moreover have "w_db w' = w_db w \<or> w_db w' = snd (?p (w_db w)) \<or> confirm_loop n rt cp i dl w3 = (r, w')"
    using Suc.prems(2) load w1 w2 w3 pc db1 db2 db3
    by (auto simp: assms(1) Let_def persistConfirmed_inline split: if_splits sum.splits prod.splits option.splits)
  ultimately show ?case using fin ih by auto
qed

lemma poll_able:
  assumes "cp_Store cp = mem_ops" and "consistent (w_db w)" and "able (w_db w)" and "confirm_loop n rt cp i dl w = (t, w')"
  shows "able (w_db w')"
proof (cases "ms_txs (w_db w) i = None")
  case True
  then have "ms_sagas (w_db w) i = None" using assms(2) by (simp add: consistent_def)
  then have "w' = w" using assms(1,4) by (cases n) (auto simp: mem_LoadSagaState_def)
  then show ?thesis using assms(3) by simp
next
  case False
  then have rd: "ready i (w_db w)" using assms(3) by (simp add: able_def)
  then obtain tx sg where st: "stored i tx sg (w_db w)" and
    sg: "Terminal (sg_State sg) \<or> sg_CurrentStep sg \<in> set StepOrder \<and> (\<forall>s \<in> set (steps_from (sg_CurrentStep sg)). unsucceeded i s 1 (w_db w))"
    unfolding ready_def by blast
  have sy: "synced i (w_db w)" using st by (simp add: stored_def)
  have safe: "safe_step i (w_db w) (w_db w')" using mem.confirm_loop_safe [OF assms(1) sy, of n rt dl] assms(4) by simp
  from confirm_loop_leaves [OF assms(1) st assms(4)] obtain sg' where steps: "ms_steps (w_db w') = ms_steps (w_db w)"
    and sg': "ms_sagas (w_db w') i = Some sg'" "sg' = sg \<or> sg_State sg' = StateConfirmed \<and> sg_CurrentStep sg' = StepLedger" by blast
  obtain tx' where st': "stored i tx' sg' (w_db w')" using safe sg'(1) by (auto simp: safe_step_def stored_def synced_def)
  have "ready i (w_db w')"
  proof (cases "Terminal (sg_State sg')")
    case True
    then show ?thesis using st' by (auto simp: ready_def)
  next
    case False
    have "moves_to (sg_State sg) (sg_State sg')" using safe st sg'(1) by (auto simp: safe_step_def saga_path_def stored_def)
    then have nt: "\<not> Terminal (sg_State sg)" using False moves_to_terminal by metis
    then have un: "sg_CurrentStep sg \<in> set StepOrder" "\<forall>s \<in> set (steps_from (sg_CurrentStep sg)). unsucceeded i s 1 (w_db w')"
      using sg unsucceeded_same_steps [OF steps] by auto
    then have "unsucceeded i StepLedger 1 (w_db w')" by (auto simp: StepOrder_def steps_from_def)
    then have "sg_CurrentStep sg' \<in> set StepOrder \<and> (\<forall>s \<in> set (steps_from (sg_CurrentStep sg')). unsucceeded i s 1 (w_db w'))"
      using un sg'(2) by (auto simp: StepOrder_def steps_from_def)
    then show ?thesis using st' unfolding ready_def by blast
  qed
  then show ?thesis using able_one [OF assms(3)] safe unfolding safe_step_def by blast
qed

section \<open>Requests\<close>

lemma compensate_able:
  assumes "ex_Store (ctl_Executor ctl) = mem_ops" and "map Name (ex_Steps (ctl_Executor ctl)) = StepOrder"
    and "consistent (w_db w)" and "able (w_db w)" and "Control_Compensate rt ctl i w = (r, w')"
  shows "able (w_db w')"
proof (cases "w_db w' = w_db w")
  case True
  then show ?thesis using assms(4) by simp
next
  case False
  obtain sg where sg: "ms_sagas (w_db w) i = Some sg"
    using False assms(1,5) by (cases "ms_sagas (w_db w) i") (auto simp: Control_Compensate_def mem_LoadSagaState_def)
  then have tx: "ms_txs (w_db w) i \<noteq> None" using assms(3) by (auto simp: consistent_def)
  obtain tx' where st: "stored i tx' sg (w_db w)" using consistent_synced [OF assms(3) tx] sg by (auto simp: stored_def synced_def)
  have nt: "\<not> Terminal (sg_State sg)"
    using False assms(1,5) sg by (auto simp: Control_Compensate_def mem_LoadSagaState_def split: if_splits)
  have "ready i (w_db w)" using assms(4) tx by (simp add: able_def)
  then have cur: "sg_CurrentStep sg \<in> set (map Name (ex_Steps (ctl_Executor ctl)))"
    using nt sg assms(2) by (auto simp: ready_def stored_def)
  obtain step where step: "StepByName (ctl_Executor ctl) (sg_CurrentStep sg) = Some step" "Name step = sg_CurrentStep sg"
    using StepByName_found [OF cur] by blast
  obtain k where k: "index_of_step (sg_CurrentStep sg) (ex_Steps (ctl_Executor ctl)) = Some k"
    using index_of_step_found [of "sg_CurrentStep sg" "ex_Steps (ctl_Executor ctl)"] cur by auto
  have "\<not> IsFailure (sg_State sg)" using nt by (auto simp: IsFailure_def Terminal_def)
  then have run: "compensateCascade rt (ctl_Executor ctl) i (sg_CurrentStep sg) w = (r, w')"
    using assms(1,5) sg nt step by (simp add: Control_Compensate_def CompensateCascade_def mem_LoadSagaState_def)
  have safe: "safe_step i (w_db w) (w_db w')"
    using mem.compensateCascade_safe [OF assms(1) st nt, of rt "sg_CurrentStep sg"] run by simp
  obtain sg' where "ms_sagas (w_db w') i = Some sg'" "Terminal (sg_State sg')"
    using mem.compensateCascade_terminal [OF assms(1) st k run] by (auto split: if_splits)
  then have "ready i (w_db w')" using ready_terminal safe unfolding safe_step_def by blast
  then show ?thesis using able_one [OF assms(4)] safe unfolding safe_step_def by blast
qed

lemma create_able:
  assumes "svc_Store svc = mem_ops" and "able T" and "handleCreate svc order body i now ev ids (T, q) = (rs, (T', q'))"
  shows "able T'"
  using assms(1,3)
proof (cases rule: handleCreate_cases)
  case (created req)
  have "ms_txs T' j = ms_txs T j \<and> ms_sagas T' j = ms_sagas T j \<and> ms_steps T' j = ms_steps T j" if "j \<noteq> i" for j
    using created(4) that by (auto simp: mem_CreateTx_def new_tx_def split: if_splits)
  then have "ready j T' = ready j T \<and> ms_txs T' j = ms_txs T j" if "j \<noteq> i" for j using that ready_same by blast
  then show ?thesis using assms(2) created_ready [OF created(4)] unfolding able_def by metis
qed (use assms(2) in simp)

lemma request_able:
  assumes "memory_server svc rt ex" and "map Name (ex_Steps ex) = StepOrder" and "consistent (as_db S)" and "able (as_db S)"
    and "Mux json_err sec svc r S = Proceeds (rs, S')"
  shows "able (as_db S')"
proof -
  note ms = assms(1) [unfolded memory_server_def]
  show ?thesis
  proof (cases "Mux_route (rq_verb r) (rq_path r)")
    case CreateRoute
    obtain rs1 s q where h: "handleCreate svc (rq_order r) (Decode_create (rq_body r)) (rq_fresh r) (rq_now r) (rq_event_id r) (rq_ids r)
        (as_db S, as_quotes S) = (rs1, (s, q))" by (metis surj_pair)
    have "as_db S' = s \<or> as_db S' = as_db S"
      using assms(5) CreateRoute h by (auto simp: Mux_def serve_route_def split: auth_decision.splits)
    then show ?thesis using create_able [OF _ assms(4) h] assms(4) ms by metis
  next
    case (RetryRoute i)
    obtain d where "as_db S' = as_db S \<or> (\<exists>c'. handleRetry svc i (Decode_step (rq_body r)) (as_db S, as_control S) = Proceeds (d, (as_db S', c')))"
      using assms(5) RetryRoute by (fastforce simp: Mux_def serve_route_def with_control_def split: auth_decision.splits progress.splits prod.splits)
    then have "as_db S' = as_db S" using retry_db ms by metis
    then show ?thesis using assms(4) by simp
  next
    case (CompensateRoute i)
    obtain d where "as_db S' = as_db S \<or> (\<exists>c'. handleCompensate svc i (as_db S, as_control S) = Proceeds (d, (as_db S', c')))"
      using assms(5) CompensateRoute by (fastforce simp: Mux_def serve_route_def with_control_def split: auth_decision.splits progress.splits prod.splits)
    moreover have "able (as_db S')" if h: "handleCompensate svc i (as_db S, as_control S) = Proceeds (d, (as_db S', c'))" for c'
    proof -
      obtain p n l where c: "as_control S = (p, n, l)" by (metis surj_pair)
      let ?ctl = "\<lparr>ctl_Dispatcher = p, ctl_Executor = ex\<rparr>" and ?w = "\<lparr>w_db = as_db S, w_net = n, w_leases = l\<rparr>"
      obtain e w where run: "Control_Compensate rt ?ctl i ?w = (e, w)" by (metis surj_pair)
      have "as_db S' = w_db w" using h ms run by (auto simp: handleCompensate_def worker_control_def c split: option.splits)
      then show ?thesis using compensate_able [OF _ _ _ _ run] ms assms(2-4) by simp
    qed
    ultimately show ?thesis using assms(4) by metis
  qed (use assms(4,5) in \<open>auto simp: Mux_def serve_route_def split: auth_decision.splits\<close>)
qed

section \<open>The system\<close>

lemma sys_step_able:
  assumes "memory_server svc rt ex" and "runs_steps rt pf ex" and "sys_step json_err sec svc rt ex pf S S'"
    and "consistent (as_db S)" and "able (as_db S)"
  shows "able (as_db S')"
  using assms(3)
proof cases
  case (request r rs)
  then show ?thesis using request_able [OF assms(1) _ assms(4,5)] assms(2) by (simp add: runs_steps_def)
next
  case (turn d n l i owner t w)
  then show ?thesis using turn_able [OF _ assms(2) _ turn(3)] assms(1,5) by (simp add: memory_server_def set_world_def)
next
  case (poll d n l cp i dl t w)
  then show ?thesis using poll_able [OF poll(3) _ _ poll(4)] assms(4,5) by (simp add: set_world_def)
next
  case (claim limit r db)
  then show ?thesis using able_same [OF assms(5), of db] by (auto simp: mem_ClaimOutboxPending_def split: prod.splits)
next
  case (mark ids at r db)
  then show ?thesis using able_same [OF assms(5), of db] by (auto simp: mem_MarkOutboxPublished_def)
qed (use assms(5) in simp_all)

lemma sys_run_able:
  assumes "memory_server svc rt ex" and "runs_steps rt pf ex" and "(sys_step json_err sec svc rt ex pf)\<^sup>*\<^sup>* S S'"
    and "consistent (as_db S)" and "able (as_db S)"
  shows "able (as_db S')"
  using assms(3-5)
proof (induction rule: rtranclp_induct)
  case (step S1 S2)
  then show ?case using sys_step_able [OF assms(1,2)] sys_run_good [OF assms(1)] by blast
qed simp

text \<open>Turn after turn.\<close>

lemma turns_finish:
  assumes "memory_server svc rt ex" and "runs_steps rt pf ex" and "ready i (as_db S)"
  shows "\<exists>S' sg. (sys_step json_err sec svc rt ex pf)\<^sup>*\<^sup>* S S' \<and> ms_sagas (as_db S') i = Some sg \<and> Terminal (sg_State sg)"
  using assms(3)
proof (induction "steps_left i (as_db S)" arbitrary: S rule: less_induct)
  case less
  obtain d n l where c: "as_control S = (d, n, l)" by (metis surj_pair)
  let ?w = "\<lparr>w_db = as_db S, w_net = n, w_leases = l\<rparr>"
  obtain t w where t: "run_turn rt ex pf i ''worker'' ?w = (t, w)" by (metis surj_pair)
  have ops: "ex_Store ex = mem_ops" using assms(1) by (simp add: memory_server_def)
  have rd: "ready i (w_db ?w)" using less.prems by simp
  note tr = turn_ready [OF ops assms(2) rd t]
  have step: "sys_step json_err sec svc rt ex pf S (set_world d w S)" by (rule sys_step.turn [OF c t])
  have db: "as_db (set_world d w S) = w_db w" by (simp add: set_world_def)
  show ?case
  proof (cases "t = Continue")
    case True
    with less.hyps [of "set_world d w S"] tr(2,3) db obtain S' sg where
      "(sys_step json_err sec svc rt ex pf)\<^sup>*\<^sup>* (set_world d w S) S'" "ms_sagas (as_db S') i = Some sg" "Terminal (sg_State sg)" by auto
    then show ?thesis using step by (blast intro: converse_rtranclp_into_rtranclp)
  next
    case False
    then obtain sg where "ms_sagas (as_db (set_world d w S)) i = Some sg" "Terminal (sg_State sg)" using tr(4) db by auto
    then show ?thesis using step by blast
  qed
qed



end
