(* ===== verification/Grpc_Clients.thy ===== *)
theory Grpc_Clients
  imports Config_Load Happy_Path
begin

text \<open>
  The gRPC clients of the partner services, \<open>internal/grpcclient/grpcclient.go\<close>. The generated clients of \<open>internal/pb\<close>, the gRPC
  library and the files and certificates of the host are parameters; the messages have the fields of the generated structs.
  The deadline that a call puts on its context shows as the status \<open>DeadlineExceeded\<close> of the call.
\<close>

section \<open>Generated clients\<close>

datatype code =
    CodeOK | CodeCanceled | CodeUnknown | CodeInvalidArgument | CodeDeadlineExceeded | CodeNotFound | CodeAlreadyExists
  | CodePermissionDenied | CodeResourceExhausted | CodeFailedPrecondition | CodeAborted | CodeOutOfRange | CodeUnimplemented
  | CodeInternal | CodeUnavailable | CodeDataLoss | CodeUnauthenticated

text \<open>The error of a call: a status, or an error without one.\<close>

datatype rpc_error = RpcStatus code string | RpcPlain go_error

type_synonym ('p, 'a) rpc_call = "'p \<Rightarrow> (rpc_error + 'a) \<times> 'p"

record pb_PolicyRequest =
  pb_pl_TxId :: string
  pb_pl_UserId :: string
  pb_pl_QuoteId :: string
  pb_pl_Amount :: string
  pb_pl_Asset :: string
  pb_pl_Rail :: string
  pb_pl_DestAddress :: string

record pb_Decision =
  pb_Decision :: string
  pb_Reason :: string

record pb_PaymentAuthorizeRequest =
  pb_pa_TxId :: string
  pb_pa_UserId :: string
  pb_pa_QuoteId :: string
  pb_pa_Amount :: string
  pb_pa_Asset :: string
  pb_pa_Rail :: string

record pb_PaymentCaptureRequest =
  pb_pc_TxId :: string
  pb_pc_AuthId :: string
  pb_pc_Amount :: string
  pb_pc_Asset :: string

record pb_PaymentVoidRequest =
  pb_pv_TxId :: string
  pb_pv_AuthId :: string

record pb_PaymentRefundRequest =
  pb_pr_TxId :: string
  pb_pr_CaptureId :: string
  pb_pr_Amount :: string
  pb_pr_Asset :: string

record pb_KytRequest =
  pb_ky_TxId :: string
  pb_ky_UserId :: string
  pb_ky_DestAddress :: string
  pb_ky_Amount :: string
  pb_ky_Asset :: string

record pb_MpcSignRequest =
  pb_ms_TxId :: string
  pb_ms_UnsignedTxHex :: string

record pb_BroadcastRequest =
  pb_br_TxId :: string
  pb_br_SignedTxHex :: string

record pb_BroadcastResponse =
  pb_bs_TxHash :: string
  pb_bs_InMempool :: bool
  pb_bs_Confirmed :: bool

record pb_LedgerPostRequest =
  pb_lp_TxId :: string
  pb_lp_UserId :: string
  pb_lp_Amount :: string
  pb_lp_Asset :: string
  pb_lp_Rail :: string

text \<open>Responses with one string field are that string, as in \<open>Partner\<close>.\<close>

record 'p PolicyRiskEngineClient =
  pb_Evaluate :: "pb_PolicyRequest \<Rightarrow> ('p, pb_Decision) rpc_call"

record 'p PaymentOrchestrationClient =
  pb_Authorize :: "pb_PaymentAuthorizeRequest \<Rightarrow> ('p, string) rpc_call"
  pb_Capture :: "pb_PaymentCaptureRequest \<Rightarrow> ('p, string) rpc_call"
  pb_VoidAuthorization :: "pb_PaymentVoidRequest \<Rightarrow> ('p, unit) rpc_call"
  pb_Refund :: "pb_PaymentRefundRequest \<Rightarrow> ('p, unit) rpc_call"

record 'p AmlKytScreeningClient =
  pb_Screen :: "pb_KytRequest \<Rightarrow> ('p, pb_Decision) rpc_call"

record 'p MpcSigningServiceClient =
  pb_Sign :: "pb_MpcSignRequest \<Rightarrow> ('p, string) rpc_call"

record 'p BlockchainGatewayClient =
  pb_Broadcast :: "pb_BroadcastRequest \<Rightarrow> ('p, pb_BroadcastResponse) rpc_call"
  pb_Status :: "string \<Rightarrow> ('p, pb_BroadcastResponse) rpc_call"

record 'p LedgerAccountingClient =
  pb_PostDoubleEntry :: "pb_LedgerPostRequest \<Rightarrow> ('p, string) rpc_call"

section \<open>Errors\<close>

primrec code_string :: "code \<Rightarrow> string" where
  "code_string CodeOK = ''OK''"
| "code_string CodeCanceled = ''Canceled''"
| "code_string CodeUnknown = ''Unknown''"
| "code_string CodeInvalidArgument = ''InvalidArgument''"
| "code_string CodeDeadlineExceeded = ''DeadlineExceeded''"
| "code_string CodeNotFound = ''NotFound''"
| "code_string CodeAlreadyExists = ''AlreadyExists''"
| "code_string CodePermissionDenied = ''PermissionDenied''"
| "code_string CodeResourceExhausted = ''ResourceExhausted''"
| "code_string CodeFailedPrecondition = ''FailedPrecondition''"
| "code_string CodeAborted = ''Aborted''"
| "code_string CodeOutOfRange = ''OutOfRange''"
| "code_string CodeUnimplemented = ''Unimplemented''"
| "code_string CodeInternal = ''Internal''"
| "code_string CodeUnavailable = ''Unavailable''"
| "code_string CodeDataLoss = ''DataLoss''"
| "code_string CodeUnauthenticated = ''Unauthenticated''"

text \<open>The error of a status as a Go error; it wraps none of the program's sentinels.\<close>

definition status_error :: "code \<Rightarrow> string \<Rightarrow> go_error" where
  "status_error c m = ErrorString (''rpc error: code = '' @ code_string c @ '' desc = '' @ m)"

text \<open>\<open>mapErr\<close> of an error that is not nil.\<close>

fun mapErr :: "rpc_error \<Rightarrow> go_error" where
  "mapErr (RpcPlain err) = err"
| "mapErr (RpcStatus c m) =
     (if c = CodePermissionDenied \<or> c = CodeFailedPrecondition then errorf_wrap_head (Sentinel ErrDenied) m
      else if c = CodeUnavailable \<or> c = CodeDeadlineExceeded then errorf_wrap_head (Sentinel ErrTransient) m
      else status_error c m)"

text \<open>The end of every method: the mapped error, or the translated response.\<close>

definition rpc_result :: "('a \<Rightarrow> 'b) \<Rightarrow> (rpc_error + 'a) \<times> 'p \<Rightarrow> (go_error + 'b) \<times> 'p" where
  "rpc_result f r = (case r of (Inl err, p) \<Rightarrow> (Inl (mapErr err), p) | (Inr resp, p) \<Rightarrow> (Inr (f resp), p))"



section \<open>The six clients\<close>

definition policy_decision :: "string \<Rightarrow> PolicyDecision" where
  "policy_decision s = (if s = ''allow'' then PolicyAllow else if s = ''deny'' then PolicyDeny else PolicyOther s)"

definition kyt_decision :: "string \<Rightarrow> KytDecision" where
  "kyt_decision s = (if s = ''clear'' then KytClear else if s = ''review'' then KytReview else if s = ''reject'' then KytReject else KytOther s)"

definition grpc_Evaluate :: "'p PolicyRiskEngineClient \<Rightarrow> PolicyRequest \<Rightarrow> ('p, PolicyResponse) go" where
  "grpc_Evaluate cc req p =
     rpc_result (\<lambda>resp. \<lparr>pls_Decision = policy_decision (pb_Decision resp), pls_Reason = pb_Reason resp\<rparr>)
       (pb_Evaluate cc \<lparr>pb_pl_TxId = plr_TxID req, pb_pl_UserId = plr_UserID req, pb_pl_QuoteId = plr_QuoteID req,
          pb_pl_Amount = plr_Amount req, pb_pl_Asset = plr_Asset req, pb_pl_Rail = plr_Rail req,
          pb_pl_DestAddress = plr_DestAddress req\<rparr> p)"

definition grpc_Authorize :: "'p PaymentOrchestrationClient \<Rightarrow> PaymentAuthorizeRequest \<Rightarrow> ('p, string) go" where
  "grpc_Authorize cc req p =
     rpc_result (\<lambda>auth_id. auth_id)
       (pb_Authorize cc \<lparr>pb_pa_TxId = par_TxID req, pb_pa_UserId = par_UserID req, pb_pa_QuoteId = par_QuoteID req,
          pb_pa_Amount = par_Amount req, pb_pa_Asset = par_Asset req, pb_pa_Rail = par_Rail req\<rparr> p)"

definition grpc_Capture :: "'p PaymentOrchestrationClient \<Rightarrow> PaymentCaptureRequest \<Rightarrow> ('p, string) go" where
  "grpc_Capture cc req p =
     rpc_result (\<lambda>capture_id. capture_id)
       (pb_Capture cc \<lparr>pb_pc_TxId = pcr_TxID req, pb_pc_AuthId = pcr_AuthID req, pb_pc_Amount = pcr_Amount req,
          pb_pc_Asset = pcr_Asset req\<rparr> p)"

definition grpc_VoidAuthorization :: "'p PaymentOrchestrationClient \<Rightarrow> PaymentVoidRequest \<Rightarrow> ('p, unit) go" where
  "grpc_VoidAuthorization cc req p =
     rpc_result (\<lambda>_. ()) (pb_VoidAuthorization cc \<lparr>pb_pv_TxId = pvr_TxID req, pb_pv_AuthId = pvr_AuthID req\<rparr> p)"

definition grpc_Refund :: "'p PaymentOrchestrationClient \<Rightarrow> PaymentRefundRequest \<Rightarrow> ('p, unit) go" where
  "grpc_Refund cc req p =
     rpc_result (\<lambda>_. ())
       (pb_Refund cc \<lparr>pb_pr_TxId = prr_TxID req, pb_pr_CaptureId = prr_CaptureID req, pb_pr_Amount = prr_Amount req,
          pb_pr_Asset = prr_Asset req\<rparr> p)"

definition grpc_Screen :: "'p AmlKytScreeningClient \<Rightarrow> KytRequest \<Rightarrow> ('p, KytResponse) go" where
  "grpc_Screen cc req p =
     rpc_result (\<lambda>resp. \<lparr>kys_Decision = kyt_decision (pb_Decision resp), kys_Reason = pb_Reason resp\<rparr>)
       (pb_Screen cc \<lparr>pb_ky_TxId = kyr_TxID req, pb_ky_UserId = kyr_UserID req, pb_ky_DestAddress = kyr_DestAddress req,
          pb_ky_Amount = kyr_Amount req, pb_ky_Asset = kyr_Asset req\<rparr> p)"

definition grpc_Sign :: "'p MpcSigningServiceClient \<Rightarrow> MpcSignRequest \<Rightarrow> ('p, string) go" where
  "grpc_Sign cc req p =
     rpc_result (\<lambda>signed_tx_hex. signed_tx_hex)
       (pb_Sign cc \<lparr>pb_ms_TxId = msr_TxID req, pb_ms_UnsignedTxHex = msr_UnsignedTxHex req\<rparr> p)"

definition broadcast_response :: "pb_BroadcastResponse \<Rightarrow> BroadcastResponse" where
  "broadcast_response resp =
     \<lparr>bcs_TxHash = pb_bs_TxHash resp, bcs_InMempool = pb_bs_InMempool resp, bcs_Confirmed = pb_bs_Confirmed resp\<rparr>"

definition grpc_Broadcast :: "'p BlockchainGatewayClient \<Rightarrow> BroadcastRequest \<Rightarrow> ('p, BroadcastResponse) go" where
  "grpc_Broadcast cc req p =
     rpc_result broadcast_response (pb_Broadcast cc \<lparr>pb_br_TxId = bcr_TxID req, pb_br_SignedTxHex = bcr_SignedTxHex req\<rparr> p)"

definition grpc_Status :: "'p BlockchainGatewayClient \<Rightarrow> string \<Rightarrow> ('p, BroadcastResponse) go" where
  "grpc_Status cc txHash p = rpc_result broadcast_response (pb_Status cc txHash p)"

definition grpc_PostDoubleEntry :: "'p LedgerAccountingClient \<Rightarrow> LedgerPostRequest \<Rightarrow> ('p, string) go" where
  "grpc_PostDoubleEntry cc req p =
     rpc_result (\<lambda>journal_id. journal_id)
       (pb_PostDoubleEntry cc \<lparr>pb_lp_TxId = lpr_TxID req, pb_lp_UserId = lpr_UserID req, pb_lp_Amount = lpr_Amount req,
          pb_lp_Asset = lpr_Asset req, pb_lp_Rail = lpr_Rail req\<rparr> p)"

text \<open>The structs \<open>PolicyClient\<close> and so on, as implementations of the interfaces of \<open>partner\<close>.\<close>

definition PolicyClient :: "'p PolicyRiskEngineClient \<Rightarrow> 'p Policy" where
  "PolicyClient cc = \<lparr>Evaluate = grpc_Evaluate cc\<rparr>"

definition PaymentClient :: "'p PaymentOrchestrationClient \<Rightarrow> 'p Payment" where
  "PaymentClient cc = \<lparr>Authorize = grpc_Authorize cc, Capture = grpc_Capture cc,
     VoidAuthorization = grpc_VoidAuthorization cc, Refund = grpc_Refund cc\<rparr>"

definition KytClient :: "'p AmlKytScreeningClient \<Rightarrow> 'p Kyt" where
  "KytClient cc = \<lparr>Screen = grpc_Screen cc\<rparr>"

definition MpcClient :: "'p MpcSigningServiceClient \<Rightarrow> 'p Mpc" where
  "MpcClient cc = \<lparr>Sign = grpc_Sign cc\<rparr>"

definition BlockchainClient :: "'p BlockchainGatewayClient \<Rightarrow> 'p Blockchain" where
  "BlockchainClient cc = \<lparr>Broadcast = grpc_Broadcast cc, Status = grpc_Status cc\<rparr>"

definition LedgerClient :: "'p LedgerAccountingClient \<Rightarrow> 'p Ledger" where
  "LedgerClient cc = \<lparr>PostDoubleEntry = grpc_PostDoubleEntry cc\<rparr>"

section \<open>Transport credentials\<close>

text \<open>The host: loading a key pair, reading a file, and parsing a bundle of certificates; then dialling.\<close>

record 'k host =
  LoadX509KeyPair :: "string \<Rightarrow> string \<Rightarrow> go_error + 'k"
  ReadFile :: "string \<Rightarrow> go_error + string"
  AppendCertsFromPEM :: "string \<Rightarrow> bool"

datatype 'k credentials = Insecure | TLS 'k string

definition loadTLSConfig :: "'k host \<Rightarrow> environment \<Rightarrow> go_error + ('k \<times> string) option" where
  "loadTLSConfig h env =
     (let cert = os_Getenv env ''TLS_CERT_FILE''; key = os_Getenv env ''TLS_KEY_FILE''; ca = os_Getenv env ''TLS_CA_FILE'' in
      if cert = '''' \<and> key = '''' \<and> ca = '''' then
        (if os_Getenv env ''DEV_MODE'' = ''1'' then Inr None
         else Inl (ErrorString ''grpcclient: TLS_CERT_FILE/TLS_KEY_FILE/TLS_CA_FILE required when DEV_MODE!=1''))
      else if cert = '''' \<or> key = '''' \<or> ca = '''' then
        Inl (ErrorString ''grpcclient: TLS_CERT_FILE, TLS_KEY_FILE and TLS_CA_FILE must all be set together'')
      else case LoadX509KeyPair h cert key of
             Inl err \<Rightarrow> Inl (errorf_wrap_tail ''grpcclient: load keypair: '' err)
           | Inr pair \<Rightarrow>
          (case ReadFile h ca of
             Inl err \<Rightarrow> Inl (errorf_wrap_tail ''grpcclient: read CA: '' err)
           | Inr caPEM \<Rightarrow>
               if \<not> AppendCertsFromPEM h caPEM then Inl (ErrorString (''grpcclient: failed to parse CA bundle '' @ ca))
               else Inr (Some (pair, caPEM))))"

definition transportCredentials :: "'k host \<Rightarrow> environment \<Rightarrow> go_error + 'k credentials" where
  "transportCredentials h env =
     (case loadTLSConfig h env of
        Inl err \<Rightarrow> Inl err
      | Inr None \<Rightarrow> Inr Insecure
      | Inr (Some (pair, pool)) \<Rightarrow> Inr (TLS pair pool))"

section \<open>Dialling\<close>

text \<open>\<open>grpc.NewClient\<close> and the constructors of the generated clients.\<close>

record ('k, 'c, 'p) grpc_library =
  NewClient :: "string \<Rightarrow> 'k credentials \<Rightarrow> go_error + 'c"
  NewPolicyRiskEngineClient :: "'c \<Rightarrow> 'p PolicyRiskEngineClient"
  NewPaymentOrchestrationClient :: "'c \<Rightarrow> 'p PaymentOrchestrationClient"
  NewAmlKytScreeningClient :: "'c \<Rightarrow> 'p AmlKytScreeningClient"
  NewMpcSigningServiceClient :: "'c \<Rightarrow> 'p MpcSigningServiceClient"
  NewBlockchainGatewayClient :: "'c \<Rightarrow> 'p BlockchainGatewayClient"
  NewLedgerAccountingClient :: "'c \<Rightarrow> 'p LedgerAccountingClient"

text \<open>The body that the six constructors share, with the partner's name in the messages.\<close>

definition dial ::
  "string \<Rightarrow> ('c \<Rightarrow> 'client) \<Rightarrow> 'k host \<Rightarrow> ('k, 'c, 'p) grpc_library \<Rightarrow> environment \<Rightarrow> string \<Rightarrow> go_error + ('client \<times> 'c)"
where
  "dial name wrap h g env target =
     (case transportCredentials h env of
        Inl err \<Rightarrow> Inl (errorf_wrap_tail (name @ '' tls: '') err)
      | Inr creds \<Rightarrow>
          (case NewClient g target creds of
             Inl err \<Rightarrow> Inl (errorf_wrap_tail (name @ '' dial '' @ target @ '': '') err)
           | Inr cc \<Rightarrow> Inr (wrap cc, cc)))"

definition NewPolicy :: "'k host \<Rightarrow> ('k, 'c, 'p) grpc_library \<Rightarrow> environment \<Rightarrow> string \<Rightarrow> go_error + ('p Policy \<times> 'c)" where
  "NewPolicy h g = dial ''policy'' (\<lambda>cc. PolicyClient (NewPolicyRiskEngineClient g cc)) h g"

definition NewPayment :: "'k host \<Rightarrow> ('k, 'c, 'p) grpc_library \<Rightarrow> environment \<Rightarrow> string \<Rightarrow> go_error + ('p Payment \<times> 'c)" where
  "NewPayment h g = dial ''payment'' (\<lambda>cc. PaymentClient (NewPaymentOrchestrationClient g cc)) h g"

definition NewKyt :: "'k host \<Rightarrow> ('k, 'c, 'p) grpc_library \<Rightarrow> environment \<Rightarrow> string \<Rightarrow> go_error + ('p Kyt \<times> 'c)" where
  "NewKyt h g = dial ''kyt'' (\<lambda>cc. KytClient (NewAmlKytScreeningClient g cc)) h g"

definition NewMpc :: "'k host \<Rightarrow> ('k, 'c, 'p) grpc_library \<Rightarrow> environment \<Rightarrow> string \<Rightarrow> go_error + ('p Mpc \<times> 'c)" where
  "NewMpc h g = dial ''mpc'' (\<lambda>cc. MpcClient (NewMpcSigningServiceClient g cc)) h g"

definition NewBlockchain :: "'k host \<Rightarrow> ('k, 'c, 'p) grpc_library \<Rightarrow> environment \<Rightarrow> string \<Rightarrow> go_error + ('p Blockchain \<times> 'c)" where
  "NewBlockchain h g = dial ''blockchain'' (\<lambda>cc. BlockchainClient (NewBlockchainGatewayClient g cc)) h g"

definition NewLedger :: "'k host \<Rightarrow> ('k, 'c, 'p) grpc_library \<Rightarrow> environment \<Rightarrow> string \<Rightarrow> go_error + ('p Ledger \<times> 'c)" where
  "NewLedger h g = dial ''ledger'' (\<lambda>cc. LedgerClient (NewLedgerAccountingClient g cc)) h g"

section \<open>Which failures are retried\<close>

lemma mapErr_transient [simp]:
  "errors_is (mapErr (RpcStatus c m)) ErrTransient \<longleftrightarrow> c = CodeUnavailable \<or> c = CodeDeadlineExceeded"
  by (cases c) (simp_all add: status_error_def)

lemma mapErr_denied [simp]:
  "errors_is (mapErr (RpcStatus c m)) ErrDenied \<longleftrightarrow> c = CodePermissionDenied \<or> c = CodeFailedPrecondition"
  by (cases c) (simp_all add: status_error_def)

lemma mapErr_not_nonretriable [simp]: "\<not> errors_is (mapErr (RpcStatus c m)) ErrNonRetriable"
  by (cases c) (simp_all add: status_error_def)

lemma partner_failure_retried:
  "IsNonRetriable (Some (partner_failure (mapErr (RpcStatus c m)))) \<longleftrightarrow> c \<notin> {CodeUnavailable, CodeDeadlineExceeded}"
  by (cases c) (simp_all add: partner_failure_def IsNonRetriable_def NonRetriable_def status_error_def)

declare mapErr.simps(2) [simp del]

text \<open>The executor tries a step again when its error is neither terminal nor marked as not retriable.\<close>

definition retries :: "'p step_impl \<Rightarrow> 'p SagaContext \<Rightarrow> 'p net \<Rightarrow> bool" where
  "retries step sc n = (case Execute step sc n of
     ((res, Some er), n') \<Rightarrow> \<not> res_Terminal res \<and> \<not> IsNonRetriable (Some er) | ((res, None), n') \<Rightarrow> False)"

definition fails_with :: "code \<Rightarrow> string \<Rightarrow> ('x \<Rightarrow> ('p, 'a) rpc_call) \<Rightarrow> bool" where
  "fails_with c m call \<longleftrightarrow> (\<forall>x p. \<exists>p'. call x p = (Inl (RpcStatus c m), p'))"

lemmas grpc_defs =
  PolicyClient_def PaymentClient_def KytClient_def MpcClient_def BlockchainClient_def LedgerClient_def
  grpc_Evaluate_def [abs_def] grpc_Authorize_def [abs_def] grpc_Screen_def [abs_def] grpc_Sign_def [abs_def] grpc_Broadcast_def [abs_def] grpc_PostDoubleEntry_def [abs_def]

lemmas step_execute_defs =
  NewPolicyStep_def PolicyStep_Execute_def NewPaymentStep_def PaymentStep_Execute_def NewKytStep_def KytStep_Execute_def
  NewMpcSignStep_def MpcSignStep_Execute_def NewBroadcastStep_def BroadcastStep_Execute_def NewLedgerStep_def LedgerStep_Execute_def

lemma failed_rpc:
  assumes "fails_with c m call"
  shows "rpc (\<lambda>p. rpc_result f (call x p)) n =
    (Inl (mapErr (RpcStatus c m)), n\<lparr>net_peers := snd (call x (net_peers n))\<rparr>)"
proof -
  obtain p' where "call x (net_peers n) = (Inl (RpcStatus c m), p')" using assms unfolding fails_with_def by blast
  then show ?thesis by (simp add: rpc_def rpc_result_def)
qed


definition unavailable :: "'x \<Rightarrow> (unit, 'a) rpc_call" where
  "unavailable x p = (Inl (RpcStatus CodeUnavailable ''down''), p)"

lemma unavailable_fails: "fails_with CodeUnavailable ''down'' unavailable"
  by (simp add: fails_with_def unavailable_def)


section \<open>Partners that cooperate over gRPC\<close>

definition answers :: "('p \<Rightarrow> bool) \<Rightarrow> ('a \<Rightarrow> bool) \<Rightarrow> ('x \<Rightarrow> ('p, 'a) rpc_call) \<Rightarrow> bool" where
  "answers Q ok call \<longleftrightarrow> (\<forall>x p. Q p \<longrightarrow> (\<exists>r p'. call x p = (Inr r, p') \<and> ok r \<and> Q p'))"

lemma answers_result:
  assumes "answers Q ok call" and "Q p"
  shows "\<exists>r p'. rpc_result f (call x p) = (Inr (f r), p') \<and> ok r \<and> Q p'"
proof -
  obtain r p' where "call x p = (Inr r, p')" "ok r" "Q p'" using assms unfolding answers_def by blast
  then show ?thesis by (auto simp: rpc_result_def)
qed

section \<open>Transport security\<close>

lemma transportCredentials_insecure:
  "transportCredentials h env = Inr Insecure \<longleftrightarrow> os_Getenv env ''DEV_MODE'' = ''1'' \<and>
     os_Getenv env ''TLS_CERT_FILE'' = '''' \<and> os_Getenv env ''TLS_KEY_FILE'' = '''' \<and> os_Getenv env ''TLS_CA_FILE'' = ''''"
  by (auto simp: transportCredentials_def loadTLSConfig_def Let_def split: sum.splits option.splits prod.splits if_splits)

lemma transportCredentials_tls:
  "transportCredentials h env = Inr (TLS pair pool) \<Longrightarrow>
     LoadX509KeyPair h (os_Getenv env ''TLS_CERT_FILE'') (os_Getenv env ''TLS_KEY_FILE'') = Inr pair \<and>
     ReadFile h (os_Getenv env ''TLS_CA_FILE'') = Inr pool \<and> AppendCertsFromPEM h pool"
  by (auto simp: transportCredentials_def loadTLSConfig_def Let_def split: sum.splits option.splits prod.splits if_splits)

lemma dial_cases:
  assumes "dial name wrap h g env target = Inr (client, cc)"
  obtains "os_Getenv env ''DEV_MODE'' = ''1''" "NewClient g target Insecure = Inr cc" "client = wrap cc"
  | pair pool where "LoadX509KeyPair h (os_Getenv env ''TLS_CERT_FILE'') (os_Getenv env ''TLS_KEY_FILE'') = Inr pair"
      "ReadFile h (os_Getenv env ''TLS_CA_FILE'') = Inr pool" "AppendCertsFromPEM h pool"
      "NewClient g target (TLS pair pool) = Inr cc" "client = wrap cc"
proof -
  obtain creds where c: "transportCredentials h env = Inr creds" "NewClient g target creds = Inr cc" "client = wrap cc"
    using assms by (auto simp: dial_def split: sum.splits)
  show thesis
  proof (cases creds)
    case Insecure
    then show ?thesis using c transportCredentials_insecure [of h env] that(1) by simp
  next
    case (TLS pair pool)
    then show ?thesis using c transportCredentials_tls [of h env pair pool] that(2) by simp
  qed
qed

text \<open>Outside the development mode every partner is dialled over TLS with the configured key pair and CA bundle; there is no
  silent fall-back to an insecure connection.\<close>

theorem partners_over_tls:
  assumes "os_Getenv env ''DEV_MODE'' \<noteq> ''1''"
    and "cc \<in> {cc. \<exists>c. NewPolicy h g env target = Inr (c, cc)} \<union> {cc. \<exists>c. NewPayment h g env target = Inr (c, cc)} \<union>
      {cc. \<exists>c. NewKyt h g env target = Inr (c, cc)} \<union> {cc. \<exists>c. NewMpc h g env target = Inr (c, cc)} \<union>
      {cc. \<exists>c. NewBlockchain h g env target = Inr (c, cc)} \<union> {cc. \<exists>c. NewLedger h g env target = Inr (c, cc)}"
  shows "\<exists>pair pool. NewClient g target (TLS pair pool) = Inr cc \<and>
    LoadX509KeyPair h (os_Getenv env ''TLS_CERT_FILE'') (os_Getenv env ''TLS_KEY_FILE'') = Inr pair \<and>
    ReadFile h (os_Getenv env ''TLS_CA_FILE'') = Inr pool \<and> AppendCertsFromPEM h pool"
proof -
  from assms(2) show ?thesis
    unfolding NewPolicy_def NewPayment_def NewKyt_def NewMpc_def NewBlockchain_def NewLedger_def
    by (auto elim!: dial_cases simp: assms(1))
qed

definition demo_host :: "unit host" where
  "demo_host = \<lparr>LoadX509KeyPair = (\<lambda>_ _. Inr ()), ReadFile = (\<lambda>f. Inr f), AppendCertsFromPEM = (\<lambda>pem. pem \<noteq> '''')\<rparr>"

text \<open>A library whose connections are the targets, with servers that accept everything.\<close>

definition accepts :: "'a \<Rightarrow> 'x \<Rightarrow> ('p, 'a) rpc_call" where
  "accepts r x p = (Inr r, p)"

definition demo_library :: "(unit, string, 'p) grpc_library" where
  "demo_library = \<lparr>
     NewClient = (\<lambda>target creds. Inr target),
     NewPolicyRiskEngineClient = (\<lambda>_. \<lparr>pb_Evaluate = accepts \<lparr>pb_Decision = ''allow'', pb_Reason = ''ok''\<rparr>\<rparr>),
     NewPaymentOrchestrationClient = (\<lambda>_. \<lparr>pb_Authorize = accepts ''auth'', pb_Capture = accepts ''cap'',
       pb_VoidAuthorization = accepts (), pb_Refund = accepts ()\<rparr>),
     NewAmlKytScreeningClient = (\<lambda>_. \<lparr>pb_Screen = accepts \<lparr>pb_Decision = ''clear'', pb_Reason = ''ok''\<rparr>\<rparr>),
     NewMpcSigningServiceClient = (\<lambda>_. \<lparr>pb_Sign = accepts ''0x01''\<rparr>),
     NewBlockchainGatewayClient = (\<lambda>_. \<lparr>
       pb_Broadcast = accepts \<lparr>pb_bs_TxHash = ''0x02'', pb_bs_InMempool = True, pb_bs_Confirmed = True\<rparr>,
       pb_Status = accepts \<lparr>pb_bs_TxHash = ''0x02'', pb_bs_InMempool = True, pb_bs_Confirmed = True\<rparr>\<rparr>),
     NewLedgerAccountingClient = (\<lambda>_. \<lparr>pb_PostDoubleEntry = accepts ''journal''\<rparr>)\<rparr>"

definition tls_env :: environment where
  "tls_env = [''TLS_CERT_FILE'' \<mapsto> ''tls.crt'', ''TLS_KEY_FILE'' \<mapsto> ''tls.key'', ''TLS_CA_FILE'' \<mapsto> ''ca.crt'']"

lemma demo_dial: "dial name wrap demo_host demo_library tls_env target = Inr (wrap target, target)"
  by (simp add: dial_def transportCredentials_def loadTLSConfig_def tls_env_def os_Getenv_def demo_host_def demo_library_def Let_def)

theorem partners_over_tls_witness:
  "\<exists>pool. NewClient (demo_library :: (unit, string, unit) grpc_library) ''policy:9090'' (TLS () pool) = Inr ''policy:9090'' \<and> pool = ''ca.crt''"
proof -
  let ?g = "demo_library :: (unit, string, unit) grpc_library"
  have "\<exists>c. NewPolicy demo_host ?g tls_env ''policy:9090'' = Inr (c, ''policy:9090'')"
    unfolding NewPolicy_def demo_dial by blast
  moreover have "os_Getenv tls_env ''DEV_MODE'' \<noteq> ''1''" by (simp add: tls_env_def os_Getenv_def)
  ultimately show ?thesis
    using partners_over_tls [of tls_env "''policy:9090''" demo_host ?g "''policy:9090''"]
    by (auto simp: demo_host_def tls_env_def os_Getenv_def)
qed

end
