(* ===== verification/Redis_Lease.thy ===== *)
theory Redis_Lease
  imports Lease
begin

text \<open>
  The Redis lease, \<open>internal/lease/redis.go\<close>. The client library and the server are not part of the repository: the commands
  are the record \<open>RedisClient\<close> on a state \<open>'r\<close>, a parameter, and \<open>redis_laws\<close> states what the documentation of the commands says
  of the values that the server stores. Any command may fail on the network, and a failed command may have reached the server.
\<close>

section \<open>Commands of the client\<close>

record 'r RedisClient =
  rd_SetNX :: "string \<Rightarrow> string \<Rightarrow> int \<Rightarrow> ('r, bool) go"
  rd_Get :: "string \<Rightarrow> ('r, string) go"
  rd_Expire :: "string \<Rightarrow> int \<Rightarrow> ('r, unit) go"
  rd_Del :: "string \<Rightarrow> ('r, unit) go"
  rd_Close :: "('r, unit) go"

record 'r RedisLease =
  rl_Client :: "'r RedisClient option"
  rl_TTL :: int

text \<open>\<open>redis.NewClient\<close> is the argument \<open>dial\<close>.\<close>

definition NewRedisLease :: "(string \<Rightarrow> 'r RedisClient) \<Rightarrow> string \<Rightarrow> int \<Rightarrow> go_error + 'r RedisLease" where
  "NewRedisLease dial addr ttl =
     (let t = (if ttl \<le> 0 then 30 * second else ttl) in Inr \<lparr>rl_Client = Some (dial addr), rl_TTL = t\<rparr>)"

definition redis_Close :: "'r RedisLease \<Rightarrow> ('r, unit) go" where
  "redis_Close l = (case rl_Client l of None \<Rightarrow> okE () | Some c \<Rightarrow> rd_Close c)"

section \<open>Acquire, renew, release\<close>

definition lease_ttl :: "'r RedisLease \<Rightarrow> int \<Rightarrow> int" where
  "lease_ttl l ttl = (if ttl \<le> 0 then rl_TTL l else ttl)"

definition redis_Acquire :: "'r RedisLease \<Rightarrow> string \<Rightarrow> string \<Rightarrow> int \<Rightarrow> ('r, bool) go" where
  "redis_Acquire l txID owner ttl r =
     (case rl_Client l of
        None \<Rightarrow> (Inl (ErrorString ''lease: redis client not configured''), r)
      | Some c \<Rightarrow>
          (let key = lease_key txID in
           case rd_SetNX c key owner (lease_ttl l ttl) r of
             (Inl err, r') \<Rightarrow> (Inl (errorf_wrap_tail (''lease SetNX '' @ key @ '': '') err), r')
           | (Inr got, r') \<Rightarrow> (if \<not> got then (Inr False, r') else (Inr True, r'))))"

text \<open>One tick of the renewer: \<open>False\<close> when it returns, \<open>True\<close> when it waits for the next tick.\<close>

definition redis_renew :: "'r RedisClient \<Rightarrow> string \<Rightarrow> string \<Rightarrow> int \<Rightarrow> 'r \<Rightarrow> bool \<times> 'r" where
  "redis_renew c key owner ttl r =
     (case rd_Get c key r of
        (Inl lerr, r1) \<Rightarrow> (False, r1)
      | (Inr lease, r1) \<Rightarrow> if lease \<noteq> owner then (False, r1) else (True, snd (rd_Expire c key ttl r1)))"

text \<open>The closure that \<open>Acquire\<close> returns, in the two commands that it sends; a failed \<open>GET\<close> leaves the empty string.\<close>

definition release_get :: "'r RedisClient \<Rightarrow> string \<Rightarrow> 'r \<Rightarrow> string \<times> 'r" where
  "release_get c key r = (case rd_Get c key r of (Inl err, r1) \<Rightarrow> ('''', r1) | (Inr lease, r1) \<Rightarrow> (lease, r1))"

definition release_del :: "'r RedisClient \<Rightarrow> string \<Rightarrow> string \<Rightarrow> string \<Rightarrow> 'r \<Rightarrow> 'r" where
  "release_del c key owner lease r = (if lease = owner then snd (rd_Del c key r) else r)"

definition redis_Release :: "'r RedisLease \<Rightarrow> string \<Rightarrow> string \<Rightarrow> 'r \<Rightarrow> 'r" where
  "redis_Release l txID owner r =
     (case rl_Client l of
        None \<Rightarrow> r
      | Some c \<Rightarrow> (case release_get c (lease_key txID) r of (lease, r1) \<Rightarrow> release_del c (lease_key txID) owner lease r1))"

definition redis_lease :: "'r RedisLease \<Rightarrow> 'r LeaseManager" where
  "redis_lease l = \<lparr>Acquire = redis_Acquire l, Release = redis_Release l\<rparr>"

section \<open>What the commands do\<close>

text \<open>\<open>view\<close> is the content of the server. \<open>SETNX\<close> sets a key without a value, \<open>GET\<close> returns the value, \<open>EXPIRE\<close> with a positive
  time keeps it, \<open>DEL\<close> removes it.\<close>

definition redis_laws :: "'r RedisClient \<Rightarrow> ('r \<Rightarrow> string \<rightharpoonup> string) \<Rightarrow> bool" where
  "redis_laws c view \<longleftrightarrow>
     (\<forall>k v ttl r. case rd_SetNX c k v ttl r of
          (Inr got, r') \<Rightarrow> if got then view r k = None \<and> view r' = (view r)(k \<mapsto> v) else view r k \<noteq> None \<and> view r' = view r
        | (Inl err, r') \<Rightarrow> view r' = view r \<or> view r k = None \<and> view r' = (view r)(k \<mapsto> v)) \<and>
     (\<forall>k r. case rd_Get c k r of (Inr v, r') \<Rightarrow> view r k = Some v \<and> view r' = view r | (Inl err, r') \<Rightarrow> view r' = view r) \<and>
     (\<forall>k ttl r. 0 < ttl \<longrightarrow> view (snd (rd_Expire c k ttl r)) = view r) \<and>
     (\<forall>k r. case rd_Del c k r of
          (Inr _, r') \<Rightarrow> view r' = (view r)(k := None)
        | (Inl err, r') \<Rightarrow> view r' = view r \<or> view r' = (view r)(k := None))"

text \<open>The network is up: only a missing key makes \<open>GET\<close> fail.\<close>

definition redis_up :: "'r RedisClient \<Rightarrow> ('r \<Rightarrow> string \<rightharpoonup> string) \<Rightarrow> bool" where
  "redis_up c view \<longleftrightarrow>
     (\<forall>k v ttl r. \<not> isl (fst (rd_SetNX c k v ttl r))) \<and> (\<forall>k r. view r k \<noteq> None \<longrightarrow> \<not> isl (fst (rd_Get c k r))) \<and>
     (\<forall>k r. \<not> isl (fst (rd_Del c k r)))"

lemma redis_lawsD:
  assumes "redis_laws c view"
  shows "rd_SetNX c k v ttl r = (Inr True, r') \<Longrightarrow> view r k = None \<and> view r' = (view r)(k \<mapsto> v)"
    and "rd_SetNX c k v ttl r = (Inr False, r') \<Longrightarrow> view r k \<noteq> None \<and> view r' = view r"
    and "rd_SetNX c k v ttl r = (Inl err, r') \<Longrightarrow> view r' = view r \<or> view r k = None \<and> view r' = (view r)(k \<mapsto> v)"
    and "rd_Get c k r = (Inr x, r') \<Longrightarrow> view r k = Some x \<and> view r' = view r"
    and "rd_Get c k r = (Inl err, r') \<Longrightarrow> view r' = view r"
    and "0 < ttl \<Longrightarrow> view (snd (rd_Expire c k ttl r)) = view r"
    and "rd_Del c k r = (Inr u, r') \<Longrightarrow> view r' = (view r)(k := None)"
    and "rd_Del c k r = (Inl err, r') \<Longrightarrow> view r' = view r \<or> view r' = (view r)(k := None)"
  using assms [unfolded redis_laws_def] by (fastforce split: prod.splits sum.splits)+



lemma NewRedisLease_fields:
  assumes "NewRedisLease dial addr t = Inr l"
  shows "rl_Client l = Some (dial addr)" and "0 < rl_TTL l" and "0 < lease_ttl l ttl"
  using assms by (auto simp: NewRedisLease_def Let_def lease_ttl_def)

lemma redis_Acquire_effect:
  assumes "redis_laws c view" and "rl_Client l = Some c"
  shows "redis_Acquire l tx ow ttl r = (Inr True, r') \<Longrightarrow> view r (lease_key tx) = None \<and> view r' = (view r)(lease_key tx \<mapsto> ow)"
    and "redis_Acquire l tx ow ttl r = (Inr False, r') \<Longrightarrow> view r (lease_key tx) \<noteq> None \<and> view r' = view r"
    and "redis_Acquire l tx ow ttl r = (Inl err, r') \<Longrightarrow>
      view r' = view r \<or> view r (lease_key tx) = None \<and> view r' = (view r)(lease_key tx \<mapsto> ow)"
  using redis_lawsD(1,2) [OF assms(1), of "lease_key tx" ow "lease_ttl l ttl" r r']
    redis_lawsD(3) [OF assms(1), of "lease_key tx" ow "lease_ttl l ttl" r _ r']
  by (auto simp: redis_Acquire_def assms(2) Let_def split: prod.splits sum.splits if_splits)

lemma redis_renew_view:
  assumes "redis_laws c view" and "0 < ttl"
  shows "view (snd (redis_renew c k ow ttl r)) = view r"
proof (cases "rd_Get c k r")
  case (Pair x r1)
  then show ?thesis
    using redis_lawsD(4,5) [OF assms(1), of k r _ r1] redis_lawsD(6) [OF assms, of k r1]
    by (cases x) (auto simp: redis_renew_def)
qed

text \<open>A release that did not find its own owner removes nothing.\<close>

lemma redis_Release_view:
  assumes "redis_laws c view" and "rl_Client l = Some c"
  shows "view (redis_Release l tx ow r) = view r \<or>
    view (redis_Release l tx ow r) = (view r)(lease_key tx := None) \<and> (view r (lease_key tx) = Some ow \<or> ow = '''')"
proof (cases "rd_Get c (lease_key tx) r")
  case (Pair x r1)
  have g: "view r1 = view r" "x = Inr v \<Longrightarrow> view r (lease_key tx) = Some v" for v
    using redis_lawsD(4,5) [OF assms(1) , of "lease_key tx" r _ r1] Pair by (cases x; auto)+
  have d: "view (snd (rd_Del c (lease_key tx) r1)) = view r1 \<or> view (snd (rd_Del c (lease_key tx) r1)) = (view r1)(lease_key tx := None)"
    using redis_lawsD(7,8) [OF assms(1), of "lease_key tx" r1] by (cases "rd_Del c (lease_key tx) r1"; cases "fst (rd_Del c (lease_key tx) r1)") auto
  show ?thesis
    using Pair g d by (cases x) (auto simp: redis_Release_def release_get_def release_del_def assms(2))
qed

section \<open>Leases among replicas\<close>

text \<open>What replicas that share the server do to it, in any order: calls of \<open>Acquire\<close>, ticks of renewers, releases; and keys whose
  time is over vanish.\<close>

datatype redis_event =
    AcquireEvent string string int
  | RenewEvent string string int
  | ReleaseEvent string string
  | ExpireEvent "string set"

inductive redis_step :: "'r RedisLease \<Rightarrow> ('r \<Rightarrow> string \<rightharpoonup> string) \<Rightarrow> redis_event \<Rightarrow> 'r \<Rightarrow> 'r \<Rightarrow> bool" for l view where
  acquire: "redis_step l view (AcquireEvent tx ow ttl) r (snd (redis_Acquire l tx ow ttl r))"
| renew: "rl_Client l = Some c \<Longrightarrow>
    redis_step l view (RenewEvent tx ow ttl) r (snd (redis_renew c (lease_key tx) ow (lease_ttl l ttl) r))"
| release: "redis_step l view (ReleaseEvent tx ow) r (redis_Release l tx ow r)"
| expire: "view r' = view r |` (- ks) \<Longrightarrow> redis_step l view (ExpireEvent ks) r r'"

inductive redis_runs :: "'r RedisLease \<Rightarrow> ('r \<Rightarrow> string \<rightharpoonup> string) \<Rightarrow> redis_event list \<Rightarrow> 'r \<Rightarrow> 'r \<Rightarrow> bool" for l view where
  runs_none: "redis_runs l view [] r r"
| runs_more: "redis_step l view e r r' \<Longrightarrow> redis_runs l view es r' r'' \<Longrightarrow> redis_runs l view (e # es) r r''"

text \<open>The events that may end the lease of an owner: its own release, a release without an owner, and expiry.\<close>

fun frees :: "string \<Rightarrow> string \<Rightarrow> redis_event \<Rightarrow> bool" where
  "frees tx ow (ReleaseEvent tx' ow') \<longleftrightarrow> tx' = tx \<and> (ow' = ow \<or> ow' = '''')"
| "frees tx ow (ExpireEvent ks) \<longleftrightarrow> lease_key tx \<in> ks"
| "frees tx ow _ \<longleftrightarrow> False"

lemma redis_step_held:
  assumes laws: "redis_laws c view" and l: "rl_Client l = Some c" "0 < rl_TTL l"
    and "redis_step l view e r r'" and held: "view r (lease_key tx) = Some ow" and "\<not> frees tx ow e"
  shows "view r' (lease_key tx) = Some ow"
  using assms(4,6)
proof cases
  case (acquire tx' ow' ttl)
  obtain x r2 where x: "redis_Acquire l tx' ow' ttl r = (x, r2)" by fastforce
  note effect = redis_Acquire_effect [OF laws l(1), of tx' ow' ttl r]
  have "view r2 = view r \<or> view r (lease_key tx') = None \<and> view r2 = (view r)(lease_key tx' \<mapsto> ow')"
    using effect(1,2) [of r2] effect(3) [of _ r2] x by (cases x) auto
  then show ?thesis using held x acquire(2) by auto
next
  case (renew c' tx' ow' ttl)
  then show ?thesis using redis_renew_view [OF laws, of "lease_ttl l ttl"] l held by (auto simp: lease_ttl_def split: if_splits)
next
  case (release tx' ow')
  then show ?thesis using redis_Release_view [OF laws l(1), of tx' ow' r] held assms(6) by (auto simp: fun_upd_apply)
next
  case (expire ks)
  then show ?thesis using held assms(6) by simp
qed

lemma redis_runs_held:
  assumes "redis_laws c view" and "rl_Client l = Some c" "0 < rl_TTL l"
  shows "redis_runs l view es r r' \<Longrightarrow> view r (lease_key tx) = Some ow \<Longrightarrow> \<forall>e \<in> set es. \<not> frees tx ow e \<Longrightarrow>
    view r' (lease_key tx) = Some ow"
  by (induction rule: redis_runs.induct) (auto intro: redis_step_held [OF assms])


text \<open>With the network up, the Redis lease meets the contract of a lease manager.\<close>

theorem redis_meets_contract:
  assumes "NewRedisLease dial addr t = Inr l" and laws: "redis_laws (dial addr) view" and up: "redis_up (dial addr) view"
  shows "lease_contract (redis_lease l) (\<lambda>r tx. view r (lease_key tx))"
proof
  note l = NewRedisLease_fields [OF assms(1)]
  note effect = redis_Acquire_effect [OF laws l(1)]
  note sel = redis_lease_def LeaseManager.simps
  fix tx ow :: string and ttl :: int and r r' and err :: go_error
  show "Acquire (redis_lease l) tx ow ttl r = (Inr True, r') \<Longrightarrow> view r (lease_key tx) = None \<and>
      (\<lambda>x. view r' (lease_key x)) = (\<lambda>x. view r (lease_key x))(tx \<mapsto> ow)"
    unfolding sel by (drule effect(1)) (auto simp: fun_eq_iff)
  show "Acquire (redis_lease l) tx ow ttl r = (Inr False, r') \<Longrightarrow> view r (lease_key tx) \<noteq> None \<and>
      (\<lambda>x. view r' (lease_key x)) = (\<lambda>x. view r (lease_key x))"
    unfolding sel by (drule effect(2)) auto
  have "\<not> isl (fst (redis_Acquire l tx ow ttl r))"
    using up by (auto simp: redis_Acquire_def l(1) redis_up_def Let_def split: prod.splits sum.splits) (metis fst_conv sum.disc(1))
  then show "Acquire (redis_lease l) tx ow ttl r = (Inl err, r') \<Longrightarrow> (\<lambda>x. view r' (lease_key x)) = (\<lambda>x. view r (lease_key x))"
    unfolding sel by simp
  have "view (redis_Release l tx ow r) = (if view r (lease_key tx) = Some ow then (view r)(lease_key tx := None) else view r)"
  proof (cases "view r (lease_key tx) = Some ow")
    case True
    then obtain r1 where g: "rd_Get (dial addr) (lease_key tx) r = (Inr ow, r1)" "view r1 = view r"
      using up redis_lawsD(4) [OF laws, of "lease_key tx" r]
      by (metis (no_types) isl_def obj_sumE option.discI option.inject prod.collapse redis_up_def)
    obtain u r2 where d: "rd_Del (dial addr) (lease_key tx) r1 = (Inr u, r2)"
      using up by (metis isl_def obj_sumE prod.collapse redis_up_def)
    show ?thesis using True g d redis_lawsD(7) [OF laws d]
      by (simp add: redis_Release_def release_get_def release_del_def l(1))
  next
    case False
    have "view (redis_Release l tx ow r) = view r"
    proof (cases "view r (lease_key tx)")
      case None
      then have "(view r)(lease_key tx := None) = view r" by (simp add: fun_upd_idem_iff)
      then show ?thesis using redis_Release_view [OF laws l(1), of tx ow r] by auto
    next
      case (Some v)
      then obtain r1 where "rd_Get (dial addr) (lease_key tx) r = (Inr v, r1)" "view r1 = view r"
        using up redis_lawsD(4) [OF laws, of "lease_key tx" r]
        by (metis (no_types) isl_def obj_sumE option.discI option.inject prod.collapse redis_up_def)
      then show ?thesis using False Some by (simp add: redis_Release_def release_get_def release_del_def l(1))
    qed
    then show ?thesis using False by simp
  qed
  then show "(\<lambda>x. view (Release (redis_lease l) tx ow r) (lease_key x)) =
      (if view r (lease_key tx) = Some ow then (\<lambda>x. view r (lease_key x))(tx := None) else (\<lambda>x. view r (lease_key x)))"
    unfolding sel by (auto simp: fun_eq_iff)
qed

text \<open>The check of the owner and the deletion are two commands: when the key expires and is taken between them, the old owner deletes the lease
  of the new one, and a third \<open>Acquire\<close> is granted while the second owner works.\<close>

theorem late_release_breaks_flight:
  assumes "NewRedisLease dial addr t = Inr l" and laws: "redis_laws (dial addr) view" and up: "redis_up (dial addr) view"
    and "view r0 (lease_key tx) = Some a" and "release_get (dial addr) (lease_key tx) r0 = (lease, r1)"
    and "redis_step l view (ExpireEvent {lease_key tx}) r1 r2" and "redis_Acquire l tx b ttl r2 = (Inr True, r3)"
  shows "fst (redis_Acquire l tx c ttl' (release_del (dial addr) (lease_key tx) a lease r3)) = Inr True"
proof -
  note l = NewRedisLease_fields [OF assms(1)]
  have "\<not> isl (fst (rd_Get (dial addr) (lease_key tx) r0))" using up assms(4) by (simp add: redis_up_def)
  then have "lease = a"
    using assms(4,5) redis_lawsD(4) [OF laws, of "lease_key tx" r0] by (auto simp: release_get_def split: prod.splits sum.splits)
  moreover have "\<not> isl (fst (rd_Del (dial addr) (lease_key tx) r3))" using up by (simp add: redis_up_def)
  then obtain u r4 where d: "rd_Del (dial addr) (lease_key tx) r3 = (Inr u, r4)" by (metis isl_def obj_sumE prod.collapse)
  ultimately have r4: "release_del (dial addr) (lease_key tx) a lease r3 = r4" "view r4 (lease_key tx) = None"
    using redis_lawsD(7) [OF laws d] by (simp_all add: release_del_def)
  obtain x r5 where x: "rd_SetNX (dial addr) (lease_key tx) c (lease_ttl l ttl') r4 = (x, r5)" by fastforce
  moreover have "\<not> isl x" using up x by (metis fst_conv redis_up_def)
  then obtain got where "x = Inr got" by (cases x) auto
  moreover have got using redis_lawsD(2) [OF laws, of "lease_key tx" c "lease_ttl l ttl'" r4 r5] x r4(2) \<open>x = Inr got\<close> by (cases got) simp_all
  ultimately show ?thesis using r4(1) by (simp add: redis_Acquire_def l(1) Let_def)
qed

text \<open>A server that stores the keys in a map.\<close>

definition map_client :: "(string \<rightharpoonup> string) RedisClient" where
  "map_client = \<lparr>
     rd_SetNX = (\<lambda>k v ttl m. if m k = None then (Inr True, m(k \<mapsto> v)) else (Inr False, m)),
     rd_Get = (\<lambda>k m. case m k of None \<Rightarrow> (Inl (ErrorString ''redis: nil''), m) | Some v \<Rightarrow> (Inr v, m)),
     rd_Expire = (\<lambda>k ttl m. (Inr (), m)),
     rd_Del = (\<lambda>k m. (Inr (), m(k := None))),
     rd_Close = okE ()\<rparr>"

lemma map_client_laws: "redis_laws map_client (\<lambda>m. m)"
  by (auto simp: redis_laws_def map_client_def split: option.splits)

lemma map_client_up: "redis_up map_client (\<lambda>m. m)"
  by (auto simp: redis_up_def map_client_def)

definition demo_redis :: "(string \<rightharpoonup> string) RedisLease" where
  "demo_redis = \<lparr>rl_Client = Some map_client, rl_TTL = 30 * second\<rparr>"

lemma demo_redis: "NewRedisLease (\<lambda>_. map_client) ''redis:6379'' 0 = Inr demo_redis"
  by (simp add: NewRedisLease_def demo_redis_def)


theorem late_release_breaks_flight_witness:
  "let r = [lease_key ''t'' \<mapsto> ''a'']; r3 = snd (redis_Acquire demo_redis ''t'' ''b'' 0 Map.empty) in
     r3 (lease_key ''t'') = Some ''b'' \<and>
     fst (redis_Acquire demo_redis ''t'' ''c'' 0 (release_del map_client (lease_key ''t'') ''a'' (fst (release_get map_client (lease_key ''t'') r)) r3)) = Inr True"
proof -
  let ?r = "[lease_key ''t'' \<mapsto> ''a'']"
  let ?r3 = "[lease_key ''t'' \<mapsto> ''b'']"
  have g: "release_get map_client (lease_key ''t'') ?r = (''a'', ?r)" by (simp add: release_get_def map_client_def)
  have e: "redis_step demo_redis (\<lambda>m. m) (ExpireEvent {lease_key ''t''}) ?r Map.empty"
    by (rule redis_step.expire) (auto simp: restrict_map_def fun_eq_iff)
  have a: "redis_Acquire demo_redis ''t'' ''b'' 0 Map.empty = (Inr True, ?r3)"
    by (simp add: redis_Acquire_def demo_redis_def map_client_def Let_def)
  from late_release_breaks_flight [OF demo_redis map_client_laws map_client_up _ g e a, of "''a''" "''c''" 0] a g show ?thesis
    by (simp add: Let_def)
qed

end
