(* ===== verification/Pg_Store.thy ===== *)
theory Pg_Store
  imports Store_Laws "HOL-Library.Product_Lexorder" "HOL-Library.List_Lexorder" "HOL-Library.Char_ord"
begin

text \<open>
  \<open>PgStore\<close>, \<open>internal/store/pg.go\<close>, over the tables of \<open>0001_init.up.sql\<close>. A table is the list of its rows; a statement checks the
  constraints of the schema (primary keys, unique indexes, foreign keys, the type \<open>UUID\<close>) and fails with a SQLSTATE. As in
  Postgres, a failed statement aborts the transaction: every later statement fails, and \<open>Commit\<close> rolls back and returns
  an error. The model is one session at a time, so nothing is locked and no serialization failure arises; the columns
  \<open>created_at\<close> and \<open>updated_at\<close> that no query reads are left out, and a \<open>jsonb\<close> payload is the map it encodes.
\<close>

section \<open>Tables\<close>

record pg_state =
  pg_transactions :: "Transaction list"
  pg_steps :: "StepRow list"
  pg_sagas :: "SagaState list"
  pg_outbox :: "OutboxEvent list"
  pg_aborted :: bool

type_synonym sqlstate = string

definition pg_empty :: pg_state where
  "pg_empty = \<lparr>pg_transactions = [], pg_steps = [], pg_sagas = [], pg_outbox = [], pg_aborted = False\<rparr>"

text \<open>An error of the driver carries its code; \<open>mapPgErr\<close> translates three of them.\<close>

definition pg_error :: "sqlstate \<Rightarrow> go_error" where
  "pg_error code = ErrorString (''SQLSTATE '' @ code)"

definition mapPgErr :: "sqlstate \<Rightarrow> go_error" where
  "mapPgErr code =
     (if code = ''23505'' then Sentinel ErrDuplicate
      else if code = ''40001'' \<or> code = ''40P01'' then Sentinel ErrConflict
      else pg_error code)"

text \<open>The canonical spelling of a UUID, which is what the program generates.\<close>

definition is_hex :: "char \<Rightarrow> bool" where
  "is_hex c \<longleftrightarrow> (48 \<le> (of_char c :: nat) \<and> (of_char c :: nat) \<le> 57) \<or> (97 \<le> (of_char c :: nat) \<and> (of_char c :: nat) \<le> 102)"

definition is_uuid :: "string \<Rightarrow> bool" where
  "is_uuid s \<longleftrightarrow> length s = 36 \<and>
     list_all (\<lambda>i. if i \<in> {8, 13, 18, 23} then s ! i = CHR ''-'' else is_hex (s ! i)) [0..<36]"

section \<open>Statements\<close>

text \<open>\<open>tx.Exec\<close>: the number of rows affected.\<close>

definition pg_Exec :: "(pg_state \<Rightarrow> sqlstate + (nat \<times> pg_state)) \<Rightarrow> pg_state \<Rightarrow> (sqlstate + nat) \<times> pg_state" where
  "pg_Exec stmt s =
     (if pg_aborted s then (Inl ''25P02'', s)
      else case stmt s of
             Inl code \<Rightarrow> (Inl code, s\<lparr>pg_aborted := True\<rparr>)
           | Inr (n, s') \<Rightarrow> (Inr n, s'))"

definition insert_transaction :: "Transaction \<Rightarrow> pg_state \<Rightarrow> sqlstate + (nat \<times> pg_state)" where
  "insert_transaction t s =
     (if \<exists>x \<in> set (pg_transactions s). tx_ID x = tx_ID t \<or> tx_TxID x = tx_TxID t then Inl ''23505''
      else Inr (1, s\<lparr>pg_transactions := pg_transactions s @ [t]\<rparr>))"

definition references_tx :: "string \<Rightarrow> pg_state \<Rightarrow> bool" where
  "references_tx i s \<longleftrightarrow> (\<exists>t \<in> set (pg_transactions s). tx_ID t = i)"

definition insert_step :: "StepRow \<Rightarrow> pg_state \<Rightarrow> sqlstate + (nat \<times> pg_state)" where
  "insert_step r s =
     (if \<not> is_uuid (row_TxID r) then Inl ''22P02''
      else if \<exists>x \<in> set (pg_steps s). row_ID x = row_ID r \<or>
          row_TxID x = row_TxID r \<and> row_StepName x = row_StepName r \<and>
            (row_Attempt x = row_Attempt r \<or> row_IdempotencyKey x = row_IdempotencyKey r)
      then Inl ''23505''
      else if \<not> references_tx (row_TxID r) s then Inl ''23503''
      else Inr (1, s\<lparr>pg_steps := pg_steps s @ [r]\<rparr>))"

definition insert_saga :: "SagaState \<Rightarrow> pg_state \<Rightarrow> sqlstate + (nat \<times> pg_state)" where
  "insert_saga g s =
     (if \<not> is_uuid (sg_TxID g) then Inl ''22P02''
      else if \<exists>x \<in> set (pg_sagas s). sg_ID x = sg_ID g \<or> sg_TxID x = sg_TxID g then Inl ''23505''
      else if \<not> references_tx (sg_TxID g) s then Inl ''23503''
      else Inr (1, s\<lparr>pg_sagas := pg_sagas s @ [g]\<rparr>))"

definition insert_event :: "OutboxEvent \<Rightarrow> pg_state \<Rightarrow> sqlstate + (nat \<times> pg_state)" where
  "insert_event e s =
     (if \<not> is_uuid (ev_EventID e) \<or> \<not> is_uuid (ev_TxID e) then Inl ''22P02''
      else if \<exists>x \<in> set (pg_outbox s). ev_ID x = ev_ID e \<or> ev_EventID x = ev_EventID e \<or> ev_DedupKey x = ev_DedupKey e
      then Inl ''23505''
      else Inr (1, s\<lparr>pg_outbox := pg_outbox s @ [e\<lparr>ev_PublishedAt := None\<rparr>]\<rparr>))"

text \<open>\<open>UPDATE t SET ... WHERE c\<close>: the rows that meet the condition are changed and counted.\<close>

definition update_where :: "('r \<Rightarrow> bool) \<Rightarrow> ('r \<Rightarrow> 'r) \<Rightarrow> 'r list \<Rightarrow> nat \<times> 'r list" where
  "update_where c f rows = (length (filter c rows), map (\<lambda>r. if c r then f r else r) rows)"

section \<open>Transactions\<close>

definition pg_Commit :: "pg_state \<Rightarrow> (pg_state, unit) go" where
  "pg_Commit pre post =
     (if pg_aborted post then (Inl (ErrorString ''commit unexpectedly resulted in rollback''), pre) else (Inr (), post))"

definition pg_Rollback :: "pg_state \<Rightarrow> pg_state \<Rightarrow> pg_state" where
  "pg_Rollback pre post = pre"

section \<open>Reads\<close>

definition pg_LoadTx :: "string \<Rightarrow> pg_state \<Rightarrow> go_error + Transaction" where
  "pg_LoadTx txID s = (case find (\<lambda>t. tx_TxID t = txID) (pg_transactions s) of
     None \<Rightarrow> Inl (Sentinel ErrNotFound) | Some t \<Rightarrow> Inr t)"

definition scanSaga :: "SagaState option \<Rightarrow> go_error + SagaState" where
  "scanSaga row = (case row of None \<Rightarrow> Inl (Sentinel ErrNotFound) | Some g \<Rightarrow> Inr g)"

definition pg_LoadSagaState :: "string \<Rightarrow> pg_state \<Rightarrow> go_error + SagaState" where
  "pg_LoadSagaState txID s =
     (if pg_aborted s then Inl (pg_error ''25P02'')
      else if \<not> is_uuid txID then Inl (pg_error ''22P02'')
      else scanSaga (find (\<lambda>g. sg_TxID g = txID) (pg_sagas s)))"

definition pg_ListSteps :: "string \<Rightarrow> pg_state \<Rightarrow> go_error + StepRow list" where
  "pg_ListSteps txID s =
     (if \<not> is_uuid txID then Inl (pg_error ''22P02'')
      else Inr (sort_key (\<lambda>r. (row_Attempt r, step_string (row_StepName r))) (filter (\<lambda>r. row_TxID r = txID) (pg_steps s))))"

text \<open>The pending events by \<open>created_at\<close>, at most \<open>limit\<close> of them; a negative limit is an error.\<close>

definition oldest_pending :: "int \<Rightarrow> pg_state \<Rightarrow> OutboxEvent list" where
  "oldest_pending limit s = take (nat limit) (sort_key ev_CreatedAt (filter (\<lambda>e. ev_Status e = OutboxPending) (pg_outbox s)))"

definition pg_ListOutboxPending :: "int \<Rightarrow> pg_state \<Rightarrow> go_error + OutboxEvent list" where
  "pg_ListOutboxPending limit s = (if limit < 0 then Inl (pg_error ''2201W'') else Inr (oldest_pending limit s))"

text \<open>The order of the result is the order of the table.\<close>

definition pg_ListInflightSagaIDs :: "string list \<Rightarrow> pg_state \<Rightarrow> go_error + string list" where
  "pg_ListInflightSagaIDs order s =
     Inr (map sg_TxID (filter (\<lambda>g. state_string (sg_State g) \<notin> {''COMPLETED'', ''FAILED_COMPENSATED'', ''FAILED''}) (pg_sagas s)))"

section \<open>Writes\<close>

text \<open>The idiom \<open>if _, err := m.tx.Exec(...); err != nil { return mapPgErr(err) }\<close>.\<close>

definition exec :: "(pg_state \<Rightarrow> sqlstate + (nat \<times> pg_state)) \<Rightarrow> (pg_state, nat) go" where
  "exec stmt s = (case pg_Exec stmt s of (Inl code, s') \<Rightarrow> (Inl (mapPgErr code), s') | (Inr n, s') \<Rightarrow> (Inr n, s'))"

definition fill_event :: "uuid \<Rightarrow> uuid \<Rightarrow> OutboxEvent \<Rightarrow> OutboxEvent" where
  "fill_event u v e = (let e1 = with_ev_id u e in if ev_EventID e1 = '''' then e1\<lparr>ev_EventID := v\<rparr> else e1)"

fun pg_AppendOutbox :: "(nat \<Rightarrow> uuid) \<Rightarrow> OutboxEvent list \<Rightarrow> (pg_state, unit) go" where
  "pg_AppendOutbox ids [] s = (Inr (), s)"
| "pg_AppendOutbox ids (e # es) s =
     bindE (exec (insert_event (fill_event (ids 0) (ids 1) e))) (\<lambda>_. pg_AppendOutbox (\<lambda>i. ids (i + 2)) es) s"

fun insert_steps :: "(nat \<Rightarrow> uuid) \<Rightarrow> StepRow list \<Rightarrow> (pg_state, unit) go" where
  "insert_steps ids [] s = (Inr (), s)"
| "insert_steps ids (r # rs) s =
     bindE (exec (insert_step (with_row_id (ids 0) r))) (\<lambda>_. insert_steps (\<lambda>i. ids (Suc i)) rs) s"

definition pg_CreateTx ::
  "(nat \<Rightarrow> uuid) \<Rightarrow> Transaction \<Rightarrow> StepRow list \<Rightarrow> SagaState \<Rightarrow> OutboxEvent list \<Rightarrow> (pg_state, unit) go" where
  "pg_CreateTx ids t steps saga events =
     bindE (exec (insert_transaction (with_tx_id (ids 0) t))) (\<lambda>_.
     bindE (insert_steps (\<lambda>i. ids (Suc i)) steps) (\<lambda>_.
     bindE (exec (insert_saga (with_sg_id (ids (1 + length steps)) saga))) (\<lambda>_.
       pg_AppendOutbox (\<lambda>i. ids (2 + length steps + i)) events)))"

definition pg_InsertStep :: "uuid \<Rightarrow> StepRow \<Rightarrow> (pg_state, unit) go" where
  "pg_InsertStep u row = bindE (exec (insert_step (with_row_id u row))) (\<lambda>_. okE ())"

definition update_step :: "StepRow \<Rightarrow> pg_state \<Rightarrow> sqlstate + (nat \<times> pg_state)" where
  "update_step row s =
     (if \<not> is_uuid (row_TxID row) then Inl ''22P02''
      else case update_where (\<lambda>r. row_TxID r = row_TxID row \<and> row_is (row_StepName row) (row_Attempt row) r)
             (\<lambda>r. r\<lparr>row_Status := row_Status row, row_StartedAt := row_StartedAt row, row_FinishedAt := row_FinishedAt row,
                    row_Error := row_Error row\<rparr>) (pg_steps s) of
             (n, rows) \<Rightarrow> Inr (n, s\<lparr>pg_steps := rows\<rparr>))"

definition pg_UpdateStep :: "StepRow \<Rightarrow> (pg_state, unit) go" where
  "pg_UpdateStep row =
     bindE (exec (update_step row)) (\<lambda>n. if n = 0 then errE (Sentinel ErrNotFound) else okE ())"

definition pg_LoadStep :: "string \<Rightarrow> Step \<Rightarrow> int \<Rightarrow> pg_state \<Rightarrow> go_error + StepRow" where
  "pg_LoadStep txID step attempt s =
     (if pg_aborted s then Inl (pg_error ''25P02'')
      else if \<not> is_uuid txID then Inl (pg_error ''22P02'')
      else case find (\<lambda>r. row_TxID r = txID \<and> row_is step attempt r) (pg_steps s) of
             None \<Rightarrow> Inl (Sentinel ErrNotFound) | Some r \<Rightarrow> Inr r)"

definition update_status :: "time \<Rightarrow> string \<Rightarrow> State \<Rightarrow> int \<Rightarrow> pg_state \<Rightarrow> sqlstate + (nat \<times> pg_state)" where
  "update_status now txID status version s =
     (case update_where (\<lambda>t. tx_TxID t = txID \<and> tx_Version t = version)
             (\<lambda>t. t\<lparr>tx_Status := status, tx_Version := tx_Version t + 1, tx_UpdatedAt := now\<rparr>) (pg_transactions s) of
        (n, rows) \<Rightarrow> Inr (n, s\<lparr>pg_transactions := rows\<rparr>))"

definition pg_UpdateTransactionStatus :: "time \<Rightarrow> string \<Rightarrow> State \<Rightarrow> int \<Rightarrow> (pg_state, unit) go" where
  "pg_UpdateTransactionStatus now txID status version =
     bindE (exec (update_status now txID status version)) (\<lambda>n. if n = 0 then errE (Sentinel ErrConflict) else okE ())"

definition update_saga :: "SagaState \<Rightarrow> pg_state \<Rightarrow> sqlstate + (nat \<times> pg_state)" where
  "update_saga saga s =
     (if \<not> is_uuid (sg_TxID saga) then Inl ''22P02''
      else case update_where (\<lambda>g. sg_TxID g = sg_TxID saga \<and> sg_Version g = sg_Version saga - 1)
             (\<lambda>g. g\<lparr>sg_CurrentStep := sg_CurrentStep saga, sg_State := sg_State saga, sg_LeaseOwner := sg_LeaseOwner saga,
                    sg_LeaseExpiresAt := sg_LeaseExpiresAt saga, sg_Payload := sg_Payload saga, sg_Version := sg_Version g + 1\<rparr>)
             (pg_sagas s) of
             (n, rows) \<Rightarrow> Inr (n, s\<lparr>pg_sagas := rows\<rparr>))"

definition pg_SaveSagaState :: "SagaState \<Rightarrow> (pg_state, unit) go" where
  "pg_SaveSagaState saga =
     bindE (exec (update_saga saga)) (\<lambda>n. if n = 0 then errE (Sentinel ErrConflict) else okE ())"

definition set_event :: "(OutboxEvent \<Rightarrow> OutboxEvent) \<Rightarrow> string \<Rightarrow> pg_state \<Rightarrow> sqlstate + (nat \<times> pg_state)" where
  "set_event f eventID s =
     (if \<not> is_uuid eventID then Inl ''22P02''
      else case update_where (\<lambda>e. ev_EventID e = eventID) f (pg_outbox s) of (n, rows) \<Rightarrow> Inr (n, s\<lparr>pg_outbox := rows\<rparr>))"

fun pg_set_events :: "(OutboxEvent \<Rightarrow> OutboxEvent) \<Rightarrow> string list \<Rightarrow> (pg_state, unit) go" where
  "pg_set_events f [] s = (Inr (), s)"
| "pg_set_events f (i # is) s = bindE (exec (set_event f i)) (\<lambda>_. pg_set_events f is) s"

definition pg_MarkOutboxPublished :: "string list \<Rightarrow> time \<Rightarrow> (pg_state, unit) go" where
  "pg_MarkOutboxPublished eventIDs at =
     pg_set_events (\<lambda>e. e\<lparr>ev_Status := OutboxPublished, ev_PublishedAt := Some at\<rparr>) eventIDs"

text \<open>The claimed events are returned as they were read, still pending.\<close>

definition pg_ClaimOutboxPending :: "int \<Rightarrow> (pg_state, OutboxEvent list) go" where
  "pg_ClaimOutboxPending limit s =
     (if pg_aborted s then (Inl (pg_error ''25P02''), s)
      else if limit < 0 then (Inl (pg_error ''2201W''), s\<lparr>pg_aborted := True\<rparr>)
      else (let out = oldest_pending limit s in
            bindE (pg_set_events (\<lambda>e. e\<lparr>ev_Status := OutboxInflight\<rparr>) (map ev_EventID out)) (\<lambda>_. okE out) s))"

definition pg_ops :: "pg_state store_ops" where
  "pg_ops = \<lparr>
     op_LoadTx = pg_LoadTx, op_LoadSagaState = pg_LoadSagaState, op_ListSteps = pg_ListSteps,
     op_ListOutboxPending = pg_ListOutboxPending, op_ListInflightSagaIDs = pg_ListInflightSagaIDs,
     op_CreateTx = pg_CreateTx, op_UpdateStep = pg_UpdateStep, op_InsertStep = pg_InsertStep,
     op_UpdateTransactionStatus = pg_UpdateTransactionStatus, op_SaveSagaState = pg_SaveSagaState, op_LoadStep = pg_LoadStep,
     op_AppendOutbox = pg_AppendOutbox, op_MarkOutboxPublished = pg_MarkOutboxPublished,
     op_ClaimOutboxPending = pg_ClaimOutboxPending, op_Commit = pg_Commit, op_Rollback = pg_Rollback\<rparr>"



section \<open>The tables as \<open>MemStore\<close> sees them\<close>

definition pg_tables :: "pg_state \<Rightarrow> mem_store" where
  "pg_tables s = \<lparr>
     ms_txs = (\<lambda>i. find (\<lambda>t. tx_TxID t = i) (pg_transactions s)),
     ms_steps = (\<lambda>i. filter (\<lambda>r. row_TxID r = i) (pg_steps s)),
     ms_sagas = (\<lambda>i. find (\<lambda>g. sg_TxID g = i) (pg_sagas s)),
     ms_outbox = pg_outbox s\<rparr>"

text \<open>What the unique indexes maintain, in a transaction that has not failed.\<close>

definition pg_wf :: "pg_state \<Rightarrow> bool" where
  "pg_wf s \<longleftrightarrow> \<not> pg_aborted s \<and> distinct (map tx_TxID (pg_transactions s)) \<and> distinct (map sg_TxID (pg_sagas s)) \<and>
     distinct (map (\<lambda>r. (row_TxID r, row_StepName r, row_Attempt r)) (pg_steps s))"

text \<open>An update keeps the surrogate id of a saga, and the id and the idempotency key of a step row.\<close>

definition pg_keep_saga :: "SagaState \<Rightarrow> SagaState \<Rightarrow> SagaState" where
  "pg_keep_saga cur new = new\<lparr>sg_ID := sg_ID cur\<rparr>"

definition pg_keep_row :: "StepRow \<Rightarrow> StepRow \<Rightarrow> StepRow" where
  "pg_keep_row old new = new\<lparr>row_ID := row_ID old, row_IdempotencyKey := row_IdempotencyKey old\<rparr>"

lemma find_map_key:
  "(\<And>r. key (f r) = key r) \<Longrightarrow> find (\<lambda>r. key r = k) (map f rows) = map_option f (find (\<lambda>r. key r = k) rows)"
  by (induction rows) auto

lemma filter_map_key: "(\<And>r. key (f r) = key r) \<Longrightarrow> filter (\<lambda>r. key r = k) (map f rows) = map f (filter (\<lambda>r. key r = k) rows)"
  by (induction rows) auto

text \<open>With unique keys, the rows an update touches are those of the row found by its key.\<close>

lemma update_none:
  assumes "distinct (map key rows)"
  shows "filter (\<lambda>r. key r = k \<and> c r) rows = [] \<longleftrightarrow> (case find (\<lambda>r. key r = k) rows of None \<Rightarrow> True | Some r \<Rightarrow> \<not> c r)"
  using assms
proof (induction rows)
  case (Cons r rows)
  have "filter (\<lambda>r. key r = k \<and> c r) rows = []" if "key r = k" using Cons.prems that by (fastforce simp: filter_empty_conv image_iff)
  with Cons show ?case by (cases "key r = k") simp_all
qed simp

lemma exec_ok: "\<not> pg_aborted s \<Longrightarrow> stmt s = Inr (n, s') \<Longrightarrow> exec stmt s = (Inr n, s')"
  by (simp add: exec_def pg_Exec_def)

lemma exec_error: "\<not> pg_aborted s \<Longrightarrow> stmt s = Inl code \<Longrightarrow> exec stmt s = (Inl (mapPgErr code), s\<lparr>pg_aborted := True\<rparr>)"
  by (simp add: exec_def pg_Exec_def)

text \<open>The row of a saga after an update.\<close>

definition saved_row :: "SagaState \<Rightarrow> SagaState \<Rightarrow> SagaState" where
  "saved_row saga g =
     (if sg_TxID g = sg_TxID saga \<and> sg_Version g = sg_Version saga - 1
      then g\<lparr>sg_CurrentStep := sg_CurrentStep saga, sg_State := sg_State saga, sg_LeaseOwner := sg_LeaseOwner saga,
             sg_LeaseExpiresAt := sg_LeaseExpiresAt saga, sg_Payload := sg_Payload saga, sg_Version := sg_Version g + 1\<rparr>
      else g)"

lemma saved_row_key [simp]: "sg_TxID (saved_row saga g) = sg_TxID g"
  by (simp add: saved_row_def)

lemma saved_row_keep: "sg_TxID g = sg_TxID saga \<Longrightarrow> sg_Version g = sg_Version saga - 1 \<Longrightarrow> saved_row saga g = pg_keep_saga g saga"
  by (cases saga; cases g) (simp add: saved_row_def pg_keep_saga_def)

lemma pg_SaveSagaState_eq:
  assumes "\<not> pg_aborted s" and "is_uuid (sg_TxID saga)"
  shows "pg_SaveSagaState saga s =
    (if filter (\<lambda>g. sg_TxID g = sg_TxID saga \<and> sg_Version g = sg_Version saga - 1) (pg_sagas s) = []
     then Inl (Sentinel ErrConflict) else Inr (), s\<lparr>pg_sagas := map (saved_row saga) (pg_sagas s)\<rparr>)"
proof -
  have "exec (update_saga saga) s =
    (Inr (length (filter (\<lambda>g. sg_TxID g = sg_TxID saga \<and> sg_Version g = sg_Version saga - 1) (pg_sagas s))),
     s\<lparr>pg_sagas := map (saved_row saga) (pg_sagas s)\<rparr>)"
    using assms by (intro exec_ok) (simp_all add: update_saga_def update_where_def saved_row_def [abs_def])
  then show ?thesis by (simp add: pg_SaveSagaState_def bindE_def errE_def okE_def)
qed

lemma tab_save_saved:
  "ms_sagas (tab_save pg_keep_saga saga (pg_tables s)) i = find (\<lambda>g. sg_TxID g = i) (map (saved_row saga) (pg_sagas s))"
proof -
  have key: "find (\<lambda>g. sg_TxID g = i) (map (saved_row saga) (pg_sagas s)) = map_option (saved_row saga) (find (\<lambda>g. sg_TxID g = i) (pg_sagas s))" for i
    by (rule find_map_key [where key = sg_TxID]) simp
  have other: "saved_row saga g = g" if "sg_TxID g \<noteq> sg_TxID saga \<or> sg_Version g \<noteq> sg_Version saga - 1" for g
    using that by (auto simp: saved_row_def)
  have tx: "sg_TxID g = i" if "find (\<lambda>g. sg_TxID g = i) (pg_sagas s) = Some g" for g i using that by (auto simp: find_Some_iff)
  show ?thesis
  proof (cases "find (\<lambda>g. sg_TxID g = i) (pg_sagas s)")
    case None
    then show ?thesis unfolding key by (auto simp: tab_save_def pg_tables_def split: option.splits)
  next
    case (Some g)
    show ?thesis
    proof (cases "i = sg_TxID saga \<and> sg_Version g = sg_Version saga - 1")
      case True
      then have "saved_row saga g = pg_keep_saga g saga" using saved_row_keep tx [OF Some] by simp
      then show ?thesis using True Some unfolding key by (simp add: tab_save_def pg_tables_def)
    next
      case False
      then have "saved_row saga g = g" using other tx [OF Some] by simp
      then show ?thesis using False Some unfolding key by (auto simp: tab_save_def pg_tables_def split: option.splits)
    qed
  qed
qed

lemma pg_save_refines:
  assumes wf: "pg_wf s" and u: "is_uuid (sg_TxID saga)" and run: "pg_SaveSagaState saga s = (r, s')"
  shows "isl r \<longleftrightarrow> isl (fst (mem_SaveSagaState saga (pg_tables s)))" and "pg_tables s' = tab_save pg_keep_saga saga (pg_tables s)"
    and "isl r \<Longrightarrow> r = Inl (Sentinel ErrConflict)" and "pg_wf s'"
proof -
  have ab: "\<not> pg_aborted s" and d: "distinct (map sg_TxID (pg_sagas s))" using wf by (simp_all add: pg_wf_def)
  note eq = pg_SaveSagaState_eq [OF ab u]
  have s': "s' = s\<lparr>pg_sagas := map (saved_row saga) (pg_sagas s)\<rparr>" using run eq by simp
  show "isl r \<longleftrightarrow> isl (fst (mem_SaveSagaState saga (pg_tables s)))"
    using run eq update_none [OF d, of "sg_TxID saga" "\<lambda>g. sg_Version g = sg_Version saga - 1"]
    by (auto simp: mem_SaveSagaState_def pg_tables_def split: option.splits if_splits)
  show "isl r \<Longrightarrow> r = Inl (Sentinel ErrConflict)" using run eq by (auto split: if_splits)
  have "tab_save pg_keep_saga saga (pg_tables s) = (pg_tables s)\<lparr>ms_sagas := ms_sagas (tab_save pg_keep_saga saga (pg_tables s))\<rparr>"
    by (simp add: tab_save_def split: option.splits)
  also have "\<dots> = pg_tables s'" unfolding s' tab_save_saved by (simp add: pg_tables_def)
  finally show "pg_tables s' = tab_save pg_keep_saga saga (pg_tables s)" by simp
  show "pg_wf s'" using wf by (simp add: pg_wf_def s' comp_def)
qed

definition status_row :: "time \<Rightarrow> string \<Rightarrow> State \<Rightarrow> int \<Rightarrow> Transaction \<Rightarrow> Transaction" where
  "status_row now txID st v t =
     (if tx_TxID t = txID \<and> tx_Version t = v
      then t\<lparr>tx_Status := st, tx_Version := tx_Version t + 1, tx_UpdatedAt := now\<rparr> else t)"

lemma status_row_key [simp]: "tx_TxID (status_row now txID st v t) = tx_TxID t"
  by (simp add: status_row_def)

lemma pg_UpdateTransactionStatus_eq:
  assumes "\<not> pg_aborted s"
  shows "pg_UpdateTransactionStatus now txID st v s =
    (if filter (\<lambda>t. tx_TxID t = txID \<and> tx_Version t = v) (pg_transactions s) = []
     then Inl (Sentinel ErrConflict) else Inr (), s\<lparr>pg_transactions := map (status_row now txID st v) (pg_transactions s)\<rparr>)"
proof -
  have "exec (update_status now txID st v) s =
    (Inr (length (filter (\<lambda>t. tx_TxID t = txID \<and> tx_Version t = v) (pg_transactions s))),
     s\<lparr>pg_transactions := map (status_row now txID st v) (pg_transactions s)\<rparr>)"
    using assms by (intro exec_ok) (simp_all add: update_status_def update_where_def status_row_def [abs_def])
  then show ?thesis by (simp add: pg_UpdateTransactionStatus_def bindE_def errE_def okE_def)
qed

lemma status_tables:
  "ms_txs (snd (mem_UpdateTransactionStatus now txID st v (pg_tables s))) i =
   find (\<lambda>t. tx_TxID t = i) (map (status_row now txID st v) (pg_transactions s))"
proof -
  have key: "find (\<lambda>t. tx_TxID t = i) (map (status_row now txID st v) (pg_transactions s)) =
      map_option (status_row now txID st v) (find (\<lambda>t. tx_TxID t = i) (pg_transactions s))" for i
    by (rule find_map_key [where key = tx_TxID]) simp
  have tx: "tx_TxID t = i" if "find (\<lambda>t. tx_TxID t = i) (pg_transactions s) = Some t" for t i using that by (auto simp: find_Some_iff)
  show ?thesis
  proof (cases "find (\<lambda>t. tx_TxID t = i) (pg_transactions s)")
    case None
    then show ?thesis unfolding key by (auto simp: mem_UpdateTransactionStatus_def pg_tables_def split: option.splits)
  next
    case (Some t)
    show ?thesis
    proof (cases "i = txID \<and> tx_Version t = v")
      case True
      then have "status_row now txID st v t = t\<lparr>tx_Status := st, tx_Version := v + 1, tx_UpdatedAt := now\<rparr>"
        using tx [OF Some] by (simp add: status_row_def)
      then show ?thesis using True Some unfolding key by (simp add: mem_UpdateTransactionStatus_def pg_tables_def)
    next
      case False
      then have "status_row now txID st v t = t" using tx [OF Some] by (auto simp: status_row_def)
      then show ?thesis using False Some unfolding key by (auto simp: mem_UpdateTransactionStatus_def pg_tables_def split: option.splits)
    qed
  qed
qed

lemma pg_status_refines:
  assumes wf: "pg_wf s" and run: "pg_UpdateTransactionStatus now txID st v s = (r, s')"
  shows "isl r \<longleftrightarrow> isl (fst (mem_UpdateTransactionStatus now txID st v (pg_tables s)))"
    and "pg_tables s' = snd (mem_UpdateTransactionStatus now txID st v (pg_tables s))" and "pg_wf s'"
proof -
  have ab: "\<not> pg_aborted s" and d: "distinct (map tx_TxID (pg_transactions s))" using wf by (simp_all add: pg_wf_def)
  note eq = pg_UpdateTransactionStatus_eq [OF ab, of now txID st v]
  have s': "s' = s\<lparr>pg_transactions := map (status_row now txID st v) (pg_transactions s)\<rparr>" using run eq by simp
  show "isl r \<longleftrightarrow> isl (fst (mem_UpdateTransactionStatus now txID st v (pg_tables s)))"
    using run eq update_none [OF d, of txID "\<lambda>t. tx_Version t = v"]
    by (auto simp: mem_UpdateTransactionStatus_def pg_tables_def split: option.splits if_splits)
  let ?m = "snd (mem_UpdateTransactionStatus now txID st v (pg_tables s))"
  have "?m = (pg_tables s)\<lparr>ms_txs := ms_txs ?m\<rparr>" by (simp add: mem_UpdateTransactionStatus_def split: option.splits)
  also have "\<dots> = pg_tables s'" unfolding s' status_tables by (simp add: pg_tables_def)
  finally show "pg_tables s' = ?m" by simp
  show "pg_wf s'" using wf by (simp add: pg_wf_def s' comp_def)
qed

definition step_row :: "StepRow \<Rightarrow> StepRow \<Rightarrow> StepRow" where
  "step_row row r =
     (if row_TxID r = row_TxID row \<and> row_is (row_StepName row) (row_Attempt row) r
      then r\<lparr>row_Status := row_Status row, row_StartedAt := row_StartedAt row, row_FinishedAt := row_FinishedAt row,
             row_Error := row_Error row\<rparr> else r)"

lemma step_row_key [simp]:
  "row_TxID (step_row row r) = row_TxID r" "row_StepName (step_row row r) = row_StepName r" "row_Attempt (step_row row r) = row_Attempt r"
  by (simp_all add: step_row_def)

lemma step_row_keep:
  "row_TxID r = row_TxID row \<Longrightarrow> row_is (row_StepName row) (row_Attempt row) r \<Longrightarrow> step_row row r = pg_keep_row r row"
  by (cases row; cases r) (simp add: step_row_def pg_keep_row_def row_is_def)

lemma replace_unique:
  assumes "distinct (map (\<lambda>r. (row_StepName r, row_Attempt r)) rows)" and "\<forall>r \<in> set rows. row_TxID r = row_TxID row"
  shows "map (step_row row) rows = tab_rows pg_keep_row row rows"
  using assms
proof (induction rows)
  case (Cons r rows)
  show ?case
  proof (cases "row_is (row_StepName row) (row_Attempt row) r")
    case True
    have "x = step_row row x" if "x \<in> set rows" for x
    proof -
      have "(row_StepName x, row_Attempt x) \<noteq> (row_StepName r, row_Attempt r)"
        using Cons.prems(1) that by (auto simp: image_iff)
      then show ?thesis using True by (auto simp: step_row_def row_is_def)
    qed
    then have "map (step_row row) rows = rows" by (simp add: map_idI)
    moreover have "row_is (row_StepName (pg_keep_row r row)) (row_Attempt (pg_keep_row r row)) r" using True by (simp add: pg_keep_row_def)
    ultimately show ?thesis using True Cons.prems(2) step_row_keep [of r row] by (simp add: tab_rows_def find_row_def)
  next
    case False
    then have "step_row row r = r" by (simp add: step_row_def)
    moreover have "\<not> row_is (row_StepName (pg_keep_row old row)) (row_Attempt (pg_keep_row old row)) r" for old using False by (simp add: pg_keep_row_def)
    ultimately show ?thesis using False Cons by (simp add: tab_rows_def find_row_def split: option.splits)
  qed
qed (simp add: tab_rows_def find_row_def)

lemma pg_UpdateStep_eq:
  assumes "\<not> pg_aborted s" and "is_uuid (row_TxID row)"
  shows "pg_UpdateStep row s =
    (if filter (\<lambda>r. row_TxID r = row_TxID row \<and> row_is (row_StepName row) (row_Attempt row) r) (pg_steps s) = []
     then Inl (Sentinel ErrNotFound) else Inr (), s\<lparr>pg_steps := map (step_row row) (pg_steps s)\<rparr>)"
proof -
  have "exec (update_step row) s =
    (Inr (length (filter (\<lambda>r. row_TxID r = row_TxID row \<and> row_is (row_StepName row) (row_Attempt row) r) (pg_steps s))),
     s\<lparr>pg_steps := map (step_row row) (pg_steps s)\<rparr>)"
    using assms by (intro exec_ok) (simp_all add: update_step_def update_where_def step_row_def [abs_def])
  then show ?thesis by (simp add: pg_UpdateStep_def bindE_def errE_def okE_def)
qed

lemma steps_of_distinct:
  "distinct (map (\<lambda>r. (row_TxID r, row_StepName r, row_Attempt r)) rows) \<Longrightarrow>
   distinct (map (\<lambda>r. (row_StepName r, row_Attempt r)) (filter (\<lambda>r. row_TxID r = i) rows))"
  by (induction rows) (auto simp: image_iff)

lemma pg_step_refines:
  assumes wf: "pg_wf s" and u: "is_uuid (row_TxID row)" and run: "pg_UpdateStep row s = (r, s')"
  shows "r = fst (mem_UpdateStep row (pg_tables s))" and "pg_tables s' = tab_update pg_keep_row row (pg_tables s)" and "pg_wf s'"
proof -
  have ab: "\<not> pg_aborted s" and d: "distinct (map (\<lambda>r. (row_TxID r, row_StepName r, row_Attempt r)) (pg_steps s))"
    using wf by (simp_all add: pg_wf_def)
  let ?rows = "filter (\<lambda>r. row_TxID r = row_TxID row) (pg_steps s)"
  note eq = pg_UpdateStep_eq [OF ab u]
  have s': "s' = s\<lparr>pg_steps := map (step_row row) (pg_steps s)\<rparr>" using run eq by simp
  have "filter (\<lambda>r. row_TxID r = row_TxID row \<and> row_is (row_StepName row) (row_Attempt row) r) (pg_steps s) = [] \<longleftrightarrow>
      find_row (row_StepName row) (row_Attempt row) ?rows = None"
    by (auto simp: find_row_def find_None_iff filter_empty_conv)
  then show "r = fst (mem_UpdateStep row (pg_tables s))"
    using run eq by (auto simp: mem_UpdateStep_def pg_tables_def split: option.splits if_splits)
  have part: "filter (\<lambda>r. row_TxID r = i) (map (step_row row) (pg_steps s)) = map (step_row row) (filter (\<lambda>r. row_TxID r = i) (pg_steps s))" for i
    by (rule filter_map_key [where key = row_TxID]) simp
  have other: "map (step_row row) (filter (\<lambda>r. row_TxID r = i) (pg_steps s)) = filter (\<lambda>r. row_TxID r = i) (pg_steps s)" if "i \<noteq> row_TxID row" for i
    using that by (intro map_idI) (auto simp: step_row_def)
  have own: "map (step_row row) ?rows = tab_rows pg_keep_row row ?rows"
    by (rule replace_unique [OF steps_of_distinct [OF d]]) simp
  show "pg_tables s' = tab_update pg_keep_row row (pg_tables s)"
    unfolding s' by (simp add: pg_tables_def tab_update_def part other own fun_eq_iff)
  show "pg_wf s'" using wf by (simp add: pg_wf_def s' comp_def)
qed

section \<open>A transaction on Postgres\<close>

text \<open>The writes of a saga transaction, on Postgres and on the tables: a call that \<open>MemStore\<close> refuses is \<open>None\<close>.\<close>

datatype tx_call =
    SaveCall SagaState
  | StatusCall time string State int
  | UpdateCall StepRow
  | InsertCall uuid StepRow
  | AppendCall uuid uuid OutboxEvent

fun pg_call :: "tx_call \<Rightarrow> (pg_state, unit) go" where
  "pg_call (SaveCall saga) = pg_SaveSagaState saga"
| "pg_call (StatusCall now txID st v) = pg_UpdateTransactionStatus now txID st v"
| "pg_call (UpdateCall row) = pg_UpdateStep row"
| "pg_call (InsertCall u row) = pg_InsertStep u row"
| "pg_call (AppendCall u v e) = pg_AppendOutbox (\<lambda>i. if i = 0 then u else v) [e]"

definition accepted :: "(go_error + unit) \<times> mem_store \<Rightarrow> mem_store \<Rightarrow> mem_store option" where
  "accepted res T = (if isl (fst res) then None else Some T)"

fun table_call :: "tx_call \<Rightarrow> mem_store \<Rightarrow> mem_store option" where
  "table_call (SaveCall saga) T = accepted (mem_SaveSagaState saga T) (tab_save pg_keep_saga saga T)"
| "table_call (StatusCall now txID st v) T =
     accepted (mem_UpdateTransactionStatus now txID st v T) (snd (mem_UpdateTransactionStatus now txID st v T))"
| "table_call (UpdateCall row) T = accepted (mem_UpdateStep row T) (tab_update pg_keep_row row T)"
| "table_call (InsertCall u row) T = accepted (mem_InsertStep u row T) (snd (mem_InsertStep u row T))"
| "table_call (AppendCall u v e) T =
     (let e' = (fill_event u v e)\<lparr>ev_PublishedAt := None\<rparr> in accepted (mem_AppendOutbox [e'] T) (snd (mem_AppendOutbox [e'] T)))"

text \<open>What the schema asks of a call beyond the checks of \<open>MemStore\<close>: UUIDs, fresh surrogate ids and idempotency keys, and the foreign
  key of a step row.\<close>

fun schema_ok :: "tx_call \<Rightarrow> pg_state \<Rightarrow> bool" where
  "schema_ok (SaveCall saga) s = is_uuid (sg_TxID saga)"
| "schema_ok (StatusCall now txID st v) s = True"
| "schema_ok (UpdateCall row) s = is_uuid (row_TxID row)"
| "schema_ok (InsertCall u row) s =
     (let r = with_row_id u row in is_uuid (row_TxID r) \<and> references_tx (row_TxID r) s \<and>
      (\<forall>x \<in> set (pg_steps s). row_ID x \<noteq> row_ID r \<and>
         (row_TxID x = row_TxID r \<and> row_StepName x = row_StepName r \<longrightarrow> row_IdempotencyKey x \<noteq> row_IdempotencyKey r)))"
| "schema_ok (AppendCall u v e) s =
     (let e' = fill_event u v e in is_uuid (ev_EventID e') \<and> is_uuid (ev_TxID e') \<and>
      (\<forall>x \<in> set (pg_outbox s). ev_ID x \<noteq> ev_ID e' \<and> ev_EventID x \<noteq> ev_EventID e'))"

lemma with_row_id_fields [simp]:
  "row_TxID (with_row_id u r) = row_TxID r" "row_StepName (with_row_id u r) = row_StepName r" "row_Attempt (with_row_id u r) = row_Attempt r"
  by (simp_all add: with_row_id_def)

lemma find_row_tx:
  "find_row st k (filter (\<lambda>r. row_TxID r = i) rows) = None \<longleftrightarrow> (\<forall>x \<in> set rows. row_TxID x = i \<longrightarrow> \<not> row_is st k x)"
  by (auto simp: find_row_def find_None_iff)

lemma pg_insert_refines:
  assumes wf: "pg_wf s" and ok: "schema_ok (InsertCall u row) s" and run: "pg_InsertStep u row s = (r, s')"
  shows "isl r \<longleftrightarrow> isl (fst (mem_InsertStep u row (pg_tables s)))"
    and "\<not> isl r \<Longrightarrow> pg_tables s' = snd (mem_InsertStep u row (pg_tables s)) \<and> pg_wf s'"
proof -
  let ?r = "with_row_id u row"
  let ?dup = "\<exists>x \<in> set (pg_steps s). row_TxID x = row_TxID row \<and> row_is (row_StepName row) (row_Attempt row) x"
  have ab: "\<not> pg_aborted s" using wf by (simp add: pg_wf_def)
  have stmt: "insert_step ?r s = (if ?dup then Inl ''23505'' else Inr (1, s\<lparr>pg_steps := pg_steps s @ [?r]\<rparr>))"
    using ok by (auto simp: insert_step_def Let_def row_is_def)
  have mem: "isl (fst (mem_InsertStep u row (pg_tables s))) \<longleftrightarrow> ?dup"
    using find_row_tx [of "row_StepName row" "row_Attempt row" "row_TxID row" "pg_steps s"]
    by (auto simp: mem_InsertStep_def pg_tables_def split: option.splits)
  have res: "r = (if ?dup then Inl (mapPgErr ''23505'') else Inr ())" "\<not> ?dup \<Longrightarrow> s' = s\<lparr>pg_steps := pg_steps s @ [?r]\<rparr>"
    using run exec_ok [OF ab, of "insert_step ?r"] exec_error [OF ab, of "insert_step ?r"] stmt
    by (auto simp: pg_InsertStep_def bindE_def okE_def split: if_splits)
  show "isl r \<longleftrightarrow> isl (fst (mem_InsertStep u row (pg_tables s)))" using res(1) mem by simp
  assume "\<not> isl r"
  then have nd: "\<not> ?dup" using res(1) by (auto split: if_splits)
  then have none: "find_row (row_StepName row) (row_Attempt row) (filter (\<lambda>r. row_TxID r = row_TxID row) (pg_steps s)) = None"
    unfolding find_row_tx by blast
  have "pg_tables s' = snd (mem_InsertStep u row (pg_tables s))"
    unfolding res(2) [OF nd] by (simp add: pg_tables_def mem_InsertStep_def none fun_eq_iff)
  moreover have "pg_wf s'" using wf nd unfolding res(2) [OF nd] by (auto simp: pg_wf_def row_is_def)
  ultimately show "pg_tables s' = snd (mem_InsertStep u row (pg_tables s)) \<and> pg_wf s'" ..
qed

lemma pg_append_refines:
  assumes wf: "pg_wf s" and ok: "schema_ok (AppendCall u v e) s" and run: "pg_call (AppendCall u v e) s = (r, s')"
    and e': "e' = (fill_event u v e)\<lparr>ev_PublishedAt := None\<rparr>"
  shows "isl r \<longleftrightarrow> isl (fst (mem_AppendOutbox [e'] (pg_tables s)))"
    and "\<not> isl r \<Longrightarrow> pg_tables s' = snd (mem_AppendOutbox [e'] (pg_tables s)) \<and> pg_wf s'"
proof -
  let ?dup = "\<exists>x \<in> set (pg_outbox s). ev_DedupKey x = ev_DedupKey (fill_event u v e)"
  have ab: "\<not> pg_aborted s" using wf by (simp add: pg_wf_def)
  have stmt: "insert_event (fill_event u v e) s = (if ?dup then Inl ''23505'' else Inr (1, s\<lparr>pg_outbox := pg_outbox s @ [e']\<rparr>))"
    using ok e' by (auto simp: insert_event_def Let_def)
  have mem: "isl (fst (mem_AppendOutbox [e'] (pg_tables s))) \<longleftrightarrow> ?dup" using e' by (auto simp: mem_AppendOutbox_def pg_tables_def)
  have res: "r = (if ?dup then Inl (mapPgErr ''23505'') else Inr ())" "\<not> ?dup \<Longrightarrow> s' = s\<lparr>pg_outbox := pg_outbox s @ [e']\<rparr>"
    using run exec_ok [OF ab, of "insert_event (fill_event u v e)"] exec_error [OF ab, of "insert_event (fill_event u v e)"] stmt
    by (auto simp: bindE_def split: if_splits)
  show "isl r \<longleftrightarrow> isl (fst (mem_AppendOutbox [e'] (pg_tables s)))" using res(1) mem by simp
  assume "\<not> isl r"
  then have nd: "\<not> ?dup" using res(1) by (auto split: if_splits)
  then have "\<not> (\<exists>x \<in> set [e']. \<exists>ex \<in> set (ms_outbox (pg_tables s)). ev_DedupKey ex = ev_DedupKey x)" using e' by (auto simp: pg_tables_def)
  then have "pg_tables s' = snd (mem_AppendOutbox [e'] (pg_tables s))"
    unfolding res(2) [OF nd] mem_AppendOutbox_def by (simp add: pg_tables_def)
  moreover have "pg_wf s'" using wf unfolding res(2) [OF nd] by (simp add: pg_wf_def)
  ultimately show "pg_tables s' = snd (mem_AppendOutbox [e'] (pg_tables s)) \<and> pg_wf s'" ..
qed

lemma pg_call_refines:
  assumes wf: "pg_wf s" and ok: "schema_ok c s" and run: "pg_call c s = (r, s')"
  shows "(isl r \<longrightarrow> table_call c (pg_tables s) = None) \<and>
    (\<not> isl r \<longrightarrow> table_call c (pg_tables s) = Some (pg_tables s') \<and> pg_wf s')"
proof (cases c)
  case (SaveCall saga)
  then show ?thesis using pg_save_refines [OF wf, of saga r s'] ok run by (auto simp: accepted_def)
next
  case (StatusCall now txID st v)
  then show ?thesis using pg_status_refines [OF wf, of now txID st v r s'] run by (auto simp: accepted_def)
next
  case (UpdateCall row)
  then show ?thesis using pg_step_refines [OF wf, of row r s'] ok run by (auto simp: accepted_def)
next
  case (InsertCall u row)
  then show ?thesis using pg_insert_refines [OF wf, of u row r s'] ok run by (auto simp: accepted_def)
next
  case (AppendCall u v e)
  then show ?thesis using pg_append_refines [OF wf, of u v e r s' _] ok run by (auto simp: accepted_def Let_def)
qed

fun pg_calls :: "tx_call list \<Rightarrow> (pg_state, unit) go" where
  "pg_calls [] s = (Inr (), s)"
| "pg_calls (c # cs) s = bindE (pg_call c) (\<lambda>_. pg_calls cs) s"

fun table_calls :: "tx_call list \<Rightarrow> mem_store \<Rightarrow> mem_store option" where
  "table_calls [] T = Some T"
| "table_calls (c # cs) T = (case table_call c T of None \<Rightarrow> None | Some T' \<Rightarrow> table_calls cs T')"

fun calls_ok :: "tx_call list \<Rightarrow> pg_state \<Rightarrow> bool" where
  "calls_ok [] s = True"
| "calls_ok (c # cs) s = (schema_ok c s \<and> calls_ok cs (snd (pg_call c s)))"

lemma pg_calls_refine:
  assumes "pg_wf s" and "calls_ok cs s" and "pg_calls cs s = (r, s')"
  shows "(isl r \<longrightarrow> table_calls cs (pg_tables s) = None) \<and> (\<not> isl r \<longrightarrow> table_calls cs (pg_tables s) = Some (pg_tables s') \<and> pg_wf s')"
  using assms
proof (induction cs arbitrary: s)
  case (Cons c cs)
  obtain r1 s1 where c: "pg_call c s = (r1, s1)" by fastforce
  have ok: "schema_ok c s" "calls_ok cs s1" using Cons.prems(2) c by simp_all
  note one = pg_call_refines [OF Cons.prems(1) ok(1) c]
  show ?case
  proof (cases r1)
    case (Inl e)
    then show ?thesis using one Cons.prems(3) c by (auto simp: bindE_def)
  next
    case (Inr x)
    then have "pg_wf s1" "pg_calls cs s1 = (r, s')" using one Cons.prems(3) c by (auto simp: bindE_def)
    from Cons.IH [OF this(1) ok(2) this(2)] show ?thesis using one Inr by auto
  qed
qed auto

text \<open>C11: a transaction on Postgres refines an atomic update of the tables: when every call of the transaction would succeed on the tables
  in turn, it commits and the tables are those the calls lead to; when one of them would be refused, it returns an error and the database
  is as it was.\<close>

theorem pg_transaction_refines:
  assumes "pg_wf s" and "calls_ok cs s"
  shows "case table_calls cs (pg_tables s) of
      None \<Rightarrow> \<exists>err. RunInTx pg_ops (pg_calls cs) s = (Inl err, s)
    | Some T \<Rightarrow> \<exists>s'. RunInTx pg_ops (pg_calls cs) s = (Inr (), s') \<and> pg_tables s' = T \<and> pg_wf s'"
proof -
  obtain r s' where c: "pg_calls cs s = (r, s')" by fastforce
  note ref = pg_calls_refine [OF assms c]
  show ?thesis
  proof (cases r)
    case (Inl e)
    then show ?thesis using ref c by (simp add: RunInTx_def pg_ops_def pg_Rollback_def)
  next
    case (Inr x)
    then have "\<not> isl r" by (metis sum.disc(2))
    then have r: "table_calls cs (pg_tables s) = Some (pg_tables s')" "pg_wf s'" using ref by blast+
    then have "RunInTx pg_ops (pg_calls cs) s = (Inr (), s')" using c Inr by (simp add: RunInTx_def pg_ops_def pg_Commit_def pg_wf_def)
    with r show ?thesis by simp
  qed
qed

definition sample_uuid :: string where
  "sample_uuid = ''01890000-0000-7000-8000-000000000001''"

definition sample_pg :: pg_state where
  "sample_pg = pg_empty\<lparr>pg_sagas := [zero_saga\<lparr>sg_ID := ''g'', sg_TxID := sample_uuid, sg_State := StateCreated, sg_Version := 1\<rparr>]\<rparr>"

definition sample_save :: SagaState where
  "sample_save = zero_saga\<lparr>sg_TxID := sample_uuid, sg_State := StatePolicyChecked, sg_Version := 2\<rparr>"

lemma sample_uuid_ok: "is_uuid sample_uuid"
  by code_simp

theorem pg_transaction_refines_witness:
  "\<exists>s' err. RunInTx pg_ops (pg_calls [SaveCall sample_save]) sample_pg = (Inr (), s') \<and>
     RunInTx pg_ops (pg_calls [SaveCall sample_save, SaveCall sample_save]) sample_pg = (Inl err, sample_pg)"
proof -
  have wf: "pg_wf sample_pg" by (simp add: pg_wf_def sample_pg_def pg_empty_def)
  have ok: "calls_ok [SaveCall sample_save] sample_pg" "calls_ok [SaveCall sample_save, SaveCall sample_save] sample_pg"
    using sample_uuid_ok by (simp_all add: sample_save_def)
  have "table_calls [SaveCall sample_save] (pg_tables sample_pg) \<noteq> None"
    "table_calls [SaveCall sample_save, SaveCall sample_save] (pg_tables sample_pg) = None"
    by (simp_all add: accepted_def mem_SaveSagaState_def tab_save_def pg_tables_def sample_pg_def sample_save_def pg_keep_saga_def)
  with pg_transaction_refines [OF wf ok(1)] pg_transaction_refines [OF wf ok(2)] show ?thesis by auto
qed



end
