(* ===== verification/Pg_Create.thy ===== *)
theory Pg_Create
  imports Pg_Store Api
begin

text \<open>
  Creation of a transaction on Postgres. The tables \<open>transaction_steps\<close> and \<open>saga_state\<close> of the schema reference
  \<open>transactions(id)\<close>, the surrogate key, while the code inserts the business key there: the two differ, so the foreign key fails.
\<close>

lemma insert_transaction_ids:
  "insert_transaction t s = Inr (n, s') \<Longrightarrow> references_tx i s' \<longleftrightarrow> references_tx i s \<or> tx_ID t = i"
  by (auto simp: insert_transaction_def references_tx_def split: if_splits)

lemma insert_transaction_open: "insert_transaction t s = Inr (n, s') \<Longrightarrow> pg_aborted s' = pg_aborted s"
  by (auto simp: insert_transaction_def split: if_splits)

lemma insert_steps_dangling:
  assumes "\<not> references_tx txID s" and "rows \<noteq> []" and "\<forall>r \<in> set rows. row_TxID r = txID"
  shows "isl (fst (insert_steps ids rows s))"
proof -
  obtain r rs where rows: "rows = r # rs" using assms(2) by (cases rows) auto
  then have "row_TxID r = txID" using assms(3) by simp
  then have "isl (insert_step (with_row_id (ids 0) r) s)" using assms(1) by (simp add: insert_step_def)
  then have "isl (fst (exec (insert_step (with_row_id (ids 0) r)) s))"
    by (cases "insert_step (with_row_id (ids 0) r) s") (auto simp: exec_def pg_Exec_def)
  then show ?thesis unfolding rows by (simp add: bindE_def split: prod.splits sum.splits) (metis fst_conv sum.disc(2))
qed

lemma pg_CreateTx_fails:
  assumes "\<not> references_tx (tx_TxID t) s" and "tx_ID (with_tx_id (ids 0) t) \<noteq> tx_TxID t"
    and "rows \<noteq> []" and "\<forall>r \<in> set rows. row_TxID r = tx_TxID t"
  shows "isl (fst (pg_CreateTx ids t rows saga evs s))"
proof (cases "exec (insert_transaction (with_tx_id (ids 0) t)) s")
  case (Pair r s1)
  show ?thesis
  proof (cases r)
    case (Inl e)
    then show ?thesis using Pair by (simp add: pg_CreateTx_def bindE_def)
  next
    case (Inr n)
    then have "insert_transaction (with_tx_id (ids 0) t) s = Inr (n, s1)"
      using Pair by (auto simp: exec_def pg_Exec_def split: if_splits sum.splits prod.splits)
    then have "\<not> references_tx (tx_TxID t) s1" using insert_transaction_ids assms(1,2) by blast
    then have "isl (fst (insert_steps (\<lambda>i. ids (Suc i)) rows s1))" using assms(3,4) by (rule insert_steps_dangling)
    then obtain e s2 where "insert_steps (\<lambda>i. ids (Suc i)) rows s1 = (Inl e, s2)"
      by (metis isl_def prod.collapse)
    then show ?thesis using Pair Inr by (simp add: pg_CreateTx_def bindE_def)
  qed
qed

text \<open>No transaction can be created on Postgres with the shipped schema: as long as no stored row has the new business id as its surrogate
  id, \<open>POST /v1/transactions\<close> never answers 201, and the database stays as it was.\<close>

theorem pg_create_never_succeeds:
  fixes svc :: "(pg_state, 'q, 'c) Service"
  assumes "svc_Store svc = pg_ops" and "\<not> references_tx txID s" and "ids 0 \<noteq> txID"
    and "handleCreate svc order body txID now ev ids (s, q) = (rs, (s', q'))"
  shows "rs_code rs \<in> {400, 409, 500} \<and> s' = s"
proof (cases "\<exists>req q1. body = Some req \<and> validateCreate order req = None \<and> lk_Acquire (svc_Locker svc) (rq_QuoteID req) q = (Inr True, q1)")
  case False
  then have "body = None \<or> (\<exists>req. body = Some req \<and> (validateCreate order req \<noteq> None \<or>
    (\<forall>q1. lk_Acquire (svc_Locker svc) (rq_QuoteID req) q \<noteq> (Inr True, q1))))" by (cases body) auto
  from handleCreate_refused [OF this, of txID now ev ids s] show ?thesis
    using assms(4) by (auto simp: writeErr_def writeJSON_def)
next
  case True
  then obtain req q1 where v: "body = Some req" "validateCreate order req = None"
    "lk_Acquire (svc_Locker svc) (rq_QuoteID req) q = (Inr True, q1)" by blast
  let ?t = "new_tx req txID now"
  have t: "tx_TxID ?t = txID" "tx_ID (with_tx_id (ids 0) ?t) \<noteq> txID" using assms(3) by (simp_all add: new_tx_def with_tx_id_def)
  have rows: "new_steps txID \<noteq> []" "\<forall>r \<in> set (new_steps txID). row_TxID r = txID" by (auto simp: new_steps_def StepOrder_def)
  have "isl (fst (pg_CreateTx ids ?t (new_steps txID) (new_saga txID) [created_event req txID now ev] s))"
    using pg_CreateTx_fails [of ?t s ids "new_steps txID"] assms(2) t rows by simp
  then obtain err s2 where c: "pg_CreateTx ids ?t (new_steps txID) (new_saga txID) [created_event req txID now ev] s = (Inl err, s2)"
    by (metis isl_def prod.collapse)
  have "RunInTx pg_ops (op_CreateTx pg_ops ids ?t (new_steps txID) (new_saga txID) [created_event req txID now ev]) s = (Inl err, s)"
    by (simp add: RunInTx_def pg_ops_def pg_Rollback_def c)
  then have "handleCreate svc order body txID now ev ids (s, q) =
      (if errors_is err ErrDuplicate then writeErr 409 ''tx already exists'' else writeErr 500 ''create tx failed'',
       (s, lk_release (svc_Locker svc) (rq_QuoteID req) q1))"
    unfolding created_event_def by (simp add: handleCreate_def v assms(1) Let_def)
  then show ?thesis using assms(4) by (auto simp: writeErr_def writeJSON_def)
qed

theorem pg_create_never_succeeds_witness:
  "rs_code (fst (handleCreate (NewService pg_ops None :: (pg_state, unit, unit) Service) field_order (Some demo_request)
      ''01890000-0000-7000-8000-000000000001'' 5 ''01890000-0000-7000-8000-000000000002''
      (\<lambda>_. ''01890000-0000-7000-8000-000000000003'') (pg_empty, ()))) \<noteq> 201"
proof -
  let ?svc = "NewService pg_ops None :: (pg_state, unit, unit) Service"
  let ?h = "handleCreate ?svc field_order (Some demo_request) ''01890000-0000-7000-8000-000000000001'' 5
      ''01890000-0000-7000-8000-000000000002'' (\<lambda>_. ''01890000-0000-7000-8000-000000000003'') (pg_empty, ())"
  obtain rs s' q' where h: "?h = (rs, (s', q'))" by (metis prod.exhaust)
  have "svc_Store ?svc = pg_ops" "\<not> references_tx ''01890000-0000-7000-8000-000000000001'' pg_empty"
    by (simp_all add: NewService_def references_tx_def pg_empty_def)
  from pg_create_never_succeeds [OF this _ h] h show ?thesis by auto
qed



end
