(* ===== verification/Migrations.thy ===== *)
theory Migrations
  imports Config_Load "HOL-Library.List_Lexorder" "HOL-Library.Char_ord"
begin

text \<open>
  Schema migrations, \<open>internal/migrations/migrations.go\<close>, the command \<open>cmd/migrate/main.go\<close> and the opening of a \<open>PgStore\<close>
  (\<open>NewPgStore\<close> of \<open>store/pg.go\<close>). The pool and its \<open>Exec\<close> belong to the database driver and are parameters, as are the contents of the
  embedded files. A Go map is the list of its entries; its order does not matter because the keys are sorted.
\<close>

section \<open>Up and Down\<close>

definition upMigrations :: "string \<Rightarrow> (string \<times> string) list" where
  "upMigrations initUp = [(''0001_init.up.sql'', initUp)]"

definition downMigrations :: "string \<Rightarrow> (string \<times> string) list" where
  "downMigrations initDown = [(''0001_init.down.sql'', initDown)]"

definition upFiles :: "(string \<times> string) list \<Rightarrow> string list" where
  "upFiles ms = sort (map fst ms)"

definition downFiles :: "(string \<times> string) list \<Rightarrow> string list" where
  "downFiles ms = rev (sort (map fst ms))"

fun apply_files :: "(string \<Rightarrow> ('d, unit) go) \<Rightarrow> (string \<times> string) list \<Rightarrow> string list \<Rightarrow> ('d, unit) go" where
  "apply_files exec ms [] = okE ()"
| "apply_files exec ms (f # fs) =
     (case map_of ms f of
        None \<Rightarrow> apply_files exec ms fs
      | Some ddl \<Rightarrow> (\<lambda>d.
          case exec ddl d of
            (Inl err, d') \<Rightarrow> (Inl (errorf_wrap_tail (''apply '' @ f @ '': '') err), d')
          | (Inr _, d') \<Rightarrow> apply_files exec ms fs d'))"

definition Up :: "(string \<Rightarrow> ('d, unit) go) \<Rightarrow> (string \<times> string) list \<Rightarrow> ('d, unit) go" where
  "Up exec ms = apply_files exec ms (upFiles ms)"

definition Down :: "(string \<Rightarrow> ('d, unit) go) \<Rightarrow> (string \<times> string) list \<Rightarrow> ('d, unit) go" where
  "Down exec ms = apply_files exec ms (downFiles ms)"

section \<open>The command\<close>

text \<open>\<open>pool_new\<close> is \<open>pgxpool.New\<close>; a pool is the \<open>Exec\<close> it offers. The texts printed are left out.\<close>

definition migrate_run ::
  "(string \<Rightarrow> go_error + (string \<Rightarrow> ('d, unit) go)) \<Rightarrow> string \<Rightarrow> string \<Rightarrow> environment \<Rightarrow> string \<Rightarrow> ('d, unit) go" where
  "migrate_run pool_new initUp initDown env direction d =
     (let dsn = os_Getenv env ''DB_URL'' in
      if dsn = '''' then (Inl (ErrorString ''DB_URL is required''), d)
      else case pool_new dsn of
             Inl err \<Rightarrow> (Inl (errorf_wrap_tail ''pgxpool.New: '' err), d)
           | Inr exec \<Rightarrow>
               if direction = ''up'' then Up exec (upMigrations initUp) d
               else if direction = ''down'' then Down exec (downMigrations initDown) d
               else (Inl (ErrorString (''unknown direction '' @ fmt_q direction @ '' (want up or down)'')), d))"

section \<open>Opening the store\<close>

text \<open>What the attempts of \<open>NewPgStore\<close> meet: the \<open>i\<close>-th call of \<open>pgxpool.New\<close> and of \<open>migrations.Up\<close>, whether the deadline has
  passed after the attempt, and whether the pause ends before the deadline does.\<close>

record 'q pg_attempts =
  pa_New :: "nat \<Rightarrow> go_error + 'q"
  pa_Up :: "nat \<Rightarrow> go_error option"
  pa_expired :: "nat \<Rightarrow> bool"
  pa_pause :: "nat \<Rightarrow> bool"

text \<open>The pools that are open are kept as a list. \<open>None\<close> is an attempt too many for the fuel.\<close>

definition pgstore_init :: "go_error \<Rightarrow> go_error" where
  "pgstore_init err = errorf_wrap_tail ''pgstore init: '' err"

definition pool_Close :: "'q \<Rightarrow> 'q list \<Rightarrow> 'q list" where
  "pool_Close p pools = remove1 p pools"

fun open_loop :: "nat \<Rightarrow> 'q pg_attempts \<Rightarrow> nat \<Rightarrow> 'q list \<Rightarrow> (go_error + 'q) option \<times> 'q list" where
  "open_loop 0 e i pools = (None, pools)"
| "open_loop (Suc fuel) e i pools =
     (case pa_New e i of
        Inr pool \<Rightarrow>
          (case pa_Up e i of
             None \<Rightarrow> (Some (Inr pool), pool # pools)
           | Some err \<Rightarrow>
               if pa_expired e i then (Some (Inl (pgstore_init err)), pool_Close pool (pool # pools))
               else if pa_pause e i then open_loop fuel e (Suc i) (pool_Close pool (pool # pools))
               else (Some (Inl (pgstore_init err)), pool_Close pool (pool # pools)))
      | Inl err \<Rightarrow>
          if pa_expired e i then (Some (Inl (pgstore_init err)), pools)
          else if pa_pause e i then open_loop fuel e (Suc i) pools
          else (Some (Inl (pgstore_init err)), pools))"

definition NewPgStore :: "nat \<Rightarrow> 'q pg_attempts \<Rightarrow> (go_error + 'q) option \<times> 'q list" where
  "NewPgStore fuel e = open_loop fuel e 0 []"

section \<open>Properties\<close>

lemma open_loop_pools:
  "open_loop fuel e i pools = (r, pools') \<Longrightarrow>
   pools' = (case r of Some (Inr pool) \<Rightarrow> pool # pools | _ \<Rightarrow> pools)"
  by (induction fuel e i pools rule: open_loop.induct) (auto simp: pool_Close_def split: sum.splits option.splits if_splits)

lemma open_loop_up:
  "open_loop fuel e i pools = (Some (Inr pool), pools') \<Longrightarrow> \<exists>k. pa_New e k = Inr pool \<and> pa_Up e k = None"
proof (induction fuel e i pools rule: open_loop.induct)
  case (2 fuel e i pools)
  then show ?case by (auto split: sum.splits option.splits if_splits)
qed simp

lemma open_loop_returns:
  "i \<le> k \<Longrightarrow> pa_expired e k \<or> \<not> pa_pause e k \<Longrightarrow> k - i < fuel \<Longrightarrow> fst (open_loop fuel e i pools) \<noteq> None"
proof (induction fuel e i pools rule: open_loop.induct)
  case (2 fuel e i pools)
  show ?case
  proof (cases "i = k")
    case True
    then show ?thesis using 2(4) by (auto split: sum.splits option.splits)
  next
    case False
    then have "Suc i \<le> k" "k - Suc i < fuel" using 2 by auto
    then show ?thesis using 2(1,2) 2(4) by (auto split: sum.splits option.splits)
  qed
qed simp

text \<open>\<open>NewPgStore\<close> returns once the deadline has passed, with no pool left open on failure and exactly the returned pool on
  success, whose schema has been migrated.\<close>

theorem NewPgStore_spec:
  assumes "pa_expired e k \<or> \<not> pa_pause e k" and "k < fuel"
  shows "\<exists>r pools. NewPgStore fuel e = (Some r, pools) \<and>
    (case r of Inl err \<Rightarrow> pools = [] | Inr pool \<Rightarrow> pools = [pool] \<and> (\<exists>j. pa_New e j = Inr pool \<and> pa_Up e j = None))"
proof -
  have "fst (open_loop fuel e 0 []) \<noteq> None" using open_loop_returns [of 0 k e fuel "[]"] assms by simp
  then obtain r pools where o: "open_loop fuel e 0 [] = (Some r, pools)" by (metis not_Some_eq prod.collapse)
  with open_loop_pools [OF o] open_loop_up [of fuel e 0 "[]" _ pools] show ?thesis
    by (cases r) (auto simp: NewPgStore_def)
qed

definition demo_attempts :: "nat pg_attempts" where
  "demo_attempts = \<lparr>pa_New = (\<lambda>i. if i = 0 then Inl (ErrorString ''refused'') else Inr i),
     pa_Up = (\<lambda>i. if i = 1 then Some (ErrorString ''starting up'') else None), pa_expired = (\<lambda>i. 60 \<le> i), pa_pause = (\<lambda>_. True)\<rparr>"

theorem NewPgStore_spec_witness: "snd (NewPgStore 61 demo_attempts) = [2]"
proof -
  have "NewPgStore 61 demo_attempts = (Some (Inr 2), [2])"
    by (simp add: NewPgStore_def demo_attempts_def pool_Close_def eval_nat_numeral)
  then show ?thesis using NewPgStore_spec [of demo_attempts 60 61] by (auto simp: demo_attempts_def)
qed

text \<open>All files are applied, each once, in the order of their names, and in reverse order on the way down.\<close>

lemma apply_files_all:
  "(\<And>ddl d. exec ddl d = (Inr (), f ddl d)) \<Longrightarrow> set fs \<subseteq> dom (map_of ms) \<Longrightarrow>
   apply_files exec ms fs d = (Inr (), fold f (map (the \<circ> map_of ms) fs) d)"
  by (induction fs arbitrary: d) (auto simp: okE_def)

lemma Up_Down_order:
  assumes "\<And>ddl d. exec ddl d = (Inr (), f ddl d)"
  shows "Up exec ms d = (Inr (), fold f (map (the \<circ> map_of ms) (upFiles ms)) d)"
    and "Down exec ms d = (Inr (), fold f (map (the \<circ> map_of ms) (rev (upFiles ms))) d)"
  by (simp_all add: Up_def Down_def apply_files_all [OF assms] upFiles_def downFiles_def dom_map_of_conv_image_fst)



end
