(* ===== verification/Server.thy ===== *)
theory Server
  imports Grpc_Clients Redis_Lease Pg_Create Outbox_Relay Migrations
begin

text \<open>
  The server process, \<open>cmd/orchestrator/main.go\<close>: how \<open>run\<close> puts the components together. The gRPC library, the Redis client, the
  result of \<open>NewPgStore\<close> and the host are parameters. The partners behind gRPC and the in-memory stub have states of their own, so the
  clients work on their product. The HTTP listener, the signals and the log are left out.
\<close>

section \<open>Partner clients\<close>

definition at_remote :: "('p, 'a) go \<Rightarrow> ('p \<times> Stub, 'a) go" where
  "at_remote f ps = (case f (fst ps) of (r, p) \<Rightarrow> (r, (p, snd ps)))"

definition at_stub :: "(Stub, 'a) go \<Rightarrow> ('p \<times> Stub, 'a) go" where
  "at_stub f ps = (case f (snd ps) of (r, s) \<Rightarrow> (r, (fst ps, s)))"

definition stub_clients :: "('p \<times> Stub) Clients" where
  "stub_clients = \<lparr>
     cl_Policy = Some \<lparr>Evaluate = (\<lambda>x. at_stub (stub_Evaluate x))\<rparr>,
     cl_Payment = Some \<lparr>Authorize = (\<lambda>x. at_stub (stub_Authorize x)), Capture = (\<lambda>x. at_stub (stub_Capture x)),
       VoidAuthorization = (\<lambda>x. at_stub (stub_VoidAuthorization x)), Refund = (\<lambda>x. at_stub (stub_Refund x))\<rparr>,
     cl_Kyt = Some \<lparr>Screen = (\<lambda>x. at_stub (stub_Screen x))\<rparr>,
     cl_Mpc = Some \<lparr>Sign = (\<lambda>x. at_stub (stub_Sign x))\<rparr>,
     cl_Blockchain = Some \<lparr>Broadcast = (\<lambda>x. at_stub (stub_Broadcast x)), Status = (\<lambda>x. at_stub (stub_Status x))\<rparr>,
     cl_Ledger = Some \<lparr>PostDoubleEntry = (\<lambda>x. at_stub (stub_PostDoubleEntry x))\<rparr>,
     cl_Audit = Some \<lparr>Record = (\<lambda>x. at_stub (stub_Record x))\<rparr>\<rparr>"

text \<open>\<open>dialOnePartner\<close>: the connection, if there is one, or the error, and the clients.\<close>

definition dialOnePartner ::
  "'k host \<Rightarrow> ('k, 'c, 'p) grpc_library \<Rightarrow> environment \<Rightarrow> string \<Rightarrow> string \<Rightarrow> bool \<Rightarrow> ('p \<times> Stub) Clients \<Rightarrow>
   (go_error + 'c option) \<times> ('p \<times> Stub) Clients"
where
  "dialOnePartner h g env name url stubMode clients =
     (if name \<notin> {''policy'', ''kyt'', ''mpc'', ''ledger''} then (Inr None, clients)
      else
        (let dialled =
           (if name = ''policy'' then map_sum id (\<lambda>(c, cc). (cc, clients\<lparr>cl_Policy := Some \<lparr>Evaluate = (\<lambda>x. at_remote (Evaluate c x))\<rparr>\<rparr>)) (NewPolicy h g env url)
            else if name = ''kyt'' then map_sum id (\<lambda>(c, cc). (cc, clients\<lparr>cl_Kyt := Some \<lparr>Screen = (\<lambda>x. at_remote (Screen c x))\<rparr>\<rparr>)) (NewKyt h g env url)
            else if name = ''mpc'' then map_sum id (\<lambda>(c, cc). (cc, clients\<lparr>cl_Mpc := Some \<lparr>Sign = (\<lambda>x. at_remote (Sign c x))\<rparr>\<rparr>)) (NewMpc h g env url)
            else map_sum id (\<lambda>(c, cc). (cc, clients\<lparr>cl_Ledger := Some \<lparr>PostDoubleEntry = (\<lambda>x. at_remote (PostDoubleEntry c x))\<rparr>\<rparr>)) (NewLedger h g env url))
         in case dialled of
              Inr (cc, clients') \<Rightarrow> (Inr (Some cc), clients')
            | Inl err \<Rightarrow> if stubMode then (Inr None, clients) else (Inl err, clients)))"

text \<open>A process that goes on, or ends with an exit code.\<close>

datatype 'a exiting = Goes 'a | Exits int

fun check_rest :: "bool \<Rightarrow> (string \<times> string) list \<Rightarrow> unit exiting" where
  "check_rest stubMode [] = Goes ()"
| "check_rest stubMode ((name, url) # rs) =
     (if url = '''' \<or> url = ''stub://'' then check_rest stubMode rs
      else if stubMode then check_rest stubMode rs
      else Exits 1)"

fun dial_loop ::
  "'k host \<Rightarrow> ('k, 'c, 'p) grpc_library \<Rightarrow> environment \<Rightarrow> bool \<Rightarrow> (string \<times> string) list \<Rightarrow> ('p \<times> Stub) Clients \<Rightarrow> ('c \<times> string) list \<Rightarrow>
   (('c \<times> string) list \<times> ('p \<times> Stub) Clients) exiting"
where
  "dial_loop h g env stubMode [] clients conns = Goes (conns, clients)"
| "dial_loop h g env stubMode ((name, url) # ds) clients conns =
     (if url = '''' \<or> url = ''stub://'' then
        (if stubMode then dial_loop h g env stubMode ds clients conns else Exits 1)
      else case dialOnePartner h g env name url stubMode clients of
             (Inl err, clients') \<Rightarrow> Exits 1
           | (Inr None, clients') \<Rightarrow> dial_loop h g env stubMode ds clients' conns
           | (Inr (Some cc), clients') \<Rightarrow> dial_loop h g env stubMode ds clients' (conns @ [(cc, name)]))"

definition dialPartners ::
  "'k host \<Rightarrow> ('k, 'c, 'p) grpc_library \<Rightarrow> environment \<Rightarrow> AppConfig \<Rightarrow> bool \<Rightarrow> ('p \<times> Stub) Clients \<Rightarrow>
   (('c \<times> string) list \<times> ('p \<times> Stub) Clients) exiting"
where
  "dialPartners h g env cfg stubMode clients =
     (case check_rest stubMode [(''payment'', PaymentURL cfg), (''blockchain'', BlockchainURL cfg)] of
        Exits n \<Rightarrow> Exits n
      | Goes _ \<Rightarrow> dial_loop h g env stubMode
          [(''policy'', PolicyURL cfg), (''kyt'', KytURL cfg), (''mpc'', MpcURL cfg), (''ledger'', LedgerURL cfg)] clients [])"

type_synonym 'c grpcConn = "'c \<times> string"

definition closeConns :: "('c \<Rightarrow> 'n \<Rightarrow> 'n) \<Rightarrow> 'c grpcConn list \<Rightarrow> 'n \<Rightarrow> 'n" where
  "closeConns close conns = fold (\<lambda>c. close (fst c)) conns"

section \<open>Start-up\<close>

datatype store_choice = UseMem | UsePg

text \<open>\<open>pg\<close> is the outcome of \<open>NewPgStore\<close> for the configured URL.\<close>

definition open_store :: "go_error option \<Rightarrow> AppConfig \<Rightarrow> bool \<Rightarrow> go_error + store_choice" where
  "open_store pg cfg devMode =
     (if DBURL cfg = '''' then
        (if \<not> devMode then Inl (ErrorString ''DB_URL not set and DEV_MODE!=1; refusing to start in production mode'') else Inr UseMem)
      else case pg of Some err \<Rightarrow> Inl err | None \<Rightarrow> Inr UsePg)"

definition choose_lease :: "(string \<Rightarrow> 'l RedisClient) \<Rightarrow> AppConfig \<Rightarrow> 'l LeaseManager" where
  "choose_lease redis cfg =
     (if RedisURL cfg \<noteq> '''' then
        (case NewRedisLease redis (RedisURL cfg) (LeaseTTLOffset cfg) of Inr rl \<Rightarrow> redis_lease rl | Inl err \<Rightarrow> NoopLease)
      else NoopLease)"

record ('s, 'p, 'l, 'c) server =
  sv_Service :: "('s, unit, ('s, 'p, 'l) Dispatcher \<times> 'p net \<times> 'l) Service"
  sv_Executor :: "('s, 'p, 'l) Executor"
  sv_Dispatcher :: "('s, 'p, 'l) Dispatcher"
  sv_Bus :: "bus option"
  sv_Conns :: "'c grpcConn list"
  sv_Addr :: string

datatype 'a startup = Refuses go_error | ExitsWith int | Hangs | Serving 'a

text \<open>The part of \<open>run\<close> after the store is open: partners, executor, lease, recovery, workers, relay and service. An error of the
  recovery or of the publisher is only logged.\<close>

definition assemble ::
  "runtime \<Rightarrow> 'k host \<Rightarrow> ('k, 'c, 'p) grpc_library \<Rightarrow> (string \<Rightarrow> 'l RedisClient) \<Rightarrow> environment \<Rightarrow> AppConfig \<Rightarrow> bool \<Rightarrow>
   time \<Rightarrow> string list \<Rightarrow> 's store_ops \<Rightarrow> 's \<Rightarrow> ('s, 'p \<times> Stub, 'l, 'c) server startup"
where
  "assemble rt h g redis env cfg devMode now order s db =
     (let stubMode = devMode \<or> os_Getenv env ''ENABLE_STUB_PARTNERS'' = ''1'' in
      case dialPartners h g env cfg stubMode stub_clients of
        Exits n \<Rightarrow> ExitsWith n
      | Goes (conns, clients) \<Rightarrow>
          (let ex = (NewExecutor rt s clients (exec_config cfg))\<lparr>ex_Lease := choose_lease redis cfg\<rparr> in
           case Recover order db (New s ex (WorkerConcurrency cfg) '''' now) of
             Blocks \<Rightarrow> Hangs
           | Proceeds (err, dispatcher) \<Rightarrow> Serving \<lparr>
               sv_Service = (NewService s (Some NoopLocker))\<lparr>svc_Control := Some (worker_control rt ex)\<rparr>,
               sv_Executor = ex,
               sv_Dispatcher = Start dispatcher,
               sv_Bus = (case NewPublisher (EventBusURL cfg) of Inl err \<Rightarrow> None | Inr b \<Rightarrow> Some b),
               sv_Conns = conns,
               sv_Addr = '':'' @ Port cfg\<rparr>))"

text \<open>\<open>run\<close> up to the listener: on a fresh in-memory store, or on the database \<open>db\<close>.\<close>

definition run ::
  "runtime \<Rightarrow> 'k host \<Rightarrow> ('k, 'c, 'p) grpc_library \<Rightarrow> (string \<Rightarrow> 'l RedisClient) \<Rightarrow> go_error option \<Rightarrow> environment \<Rightarrow>
   time \<Rightarrow> string list \<Rightarrow> pg_state \<Rightarrow>
   ((mem_store, 'p \<times> Stub, 'l, 'c) server + (pg_state, 'p \<times> Stub, 'l, 'c) server) startup"
where
  "run rt h g redis pg env now order db =
     (case Load env of
        (cfg, Some err) \<Rightarrow> Refuses err
      | (cfg, None) \<Rightarrow>
          (let devMode = (os_Getenv env ''DEV_MODE'' = ''1'') in
           case open_store pg cfg devMode of
             Inl err \<Rightarrow> Refuses err
           | Inr UseMem \<Rightarrow> map_startup Inl (assemble rt h g redis env cfg devMode now order mem_ops NewMemStore)
           | Inr UsePg \<Rightarrow> map_startup Inr (assemble rt h g redis env cfg devMode now order pg_ops db)))"



section \<open>What the clients are\<close>

text \<open>The clients that dialling leaves: payment and blockchain are the stub, the other four are the stub or a gRPC client.\<close>

definition wired :: "('k, 'c, 'p) grpc_library \<Rightarrow> ('p \<times> Stub) Clients \<Rightarrow> bool" where
  "wired g c \<longleftrightarrow>
     cl_Payment c = cl_Payment stub_clients \<and> cl_Blockchain c = cl_Blockchain stub_clients \<and>
     (cl_Policy c = cl_Policy stub_clients \<or>
      (\<exists>cc. cl_Policy c = Some \<lparr>Evaluate = (\<lambda>x. at_remote (grpc_Evaluate (NewPolicyRiskEngineClient g cc) x))\<rparr>)) \<and>
     (cl_Kyt c = cl_Kyt stub_clients \<or>
      (\<exists>cc. cl_Kyt c = Some \<lparr>Screen = (\<lambda>x. at_remote (grpc_Screen (NewAmlKytScreeningClient g cc) x))\<rparr>)) \<and>
     (cl_Mpc c = cl_Mpc stub_clients \<or>
      (\<exists>cc. cl_Mpc c = Some \<lparr>Sign = (\<lambda>x. at_remote (grpc_Sign (NewMpcSigningServiceClient g cc) x))\<rparr>)) \<and>
     (cl_Ledger c = cl_Ledger stub_clients \<or>
      (\<exists>cc. cl_Ledger c = Some \<lparr>PostDoubleEntry = (\<lambda>x. at_remote (grpc_PostDoubleEntry (NewLedgerAccountingClient g cc) x))\<rparr>))"

lemma stub_wired: "wired g stub_clients"
  by (simp add: wired_def)

lemma dial_wraps: "dial name wrap h g env target = Inr (client, cc) \<Longrightarrow> client = wrap cc"
  by (elim dial_cases)

lemma New_client:
  "NewPolicy h g env url = Inr (pol, cc) \<Longrightarrow> Evaluate pol = grpc_Evaluate (NewPolicyRiskEngineClient g cc)"
  "NewKyt h g env url = Inr (kyt, cc) \<Longrightarrow> Screen kyt = grpc_Screen (NewAmlKytScreeningClient g cc)"
  "NewMpc h g env url = Inr (mpc, cc) \<Longrightarrow> Sign mpc = grpc_Sign (NewMpcSigningServiceClient g cc)"
  "NewLedger h g env url = Inr (led, cc) \<Longrightarrow> PostDoubleEntry led = grpc_PostDoubleEntry (NewLedgerAccountingClient g cc)"
  by (auto simp: NewPolicy_def NewKyt_def NewMpc_def NewLedger_def PolicyClient_def KytClient_def MpcClient_def LedgerClient_def
      dest!: dial_wraps)

lemma wired_update:
  "wired g c \<Longrightarrow> wired g (c\<lparr>cl_Policy := Some \<lparr>Evaluate = (\<lambda>x. at_remote (grpc_Evaluate (NewPolicyRiskEngineClient g cc) x))\<rparr>\<rparr>)"
  "wired g c \<Longrightarrow> wired g (c\<lparr>cl_Kyt := Some \<lparr>Screen = (\<lambda>x. at_remote (grpc_Screen (NewAmlKytScreeningClient g cc) x))\<rparr>\<rparr>)"
  "wired g c \<Longrightarrow> wired g (c\<lparr>cl_Mpc := Some \<lparr>Sign = (\<lambda>x. at_remote (grpc_Sign (NewMpcSigningServiceClient g cc) x))\<rparr>\<rparr>)"
  "wired g c \<Longrightarrow> wired g (c\<lparr>cl_Ledger := Some \<lparr>PostDoubleEntry = (\<lambda>x. at_remote (grpc_PostDoubleEntry (NewLedgerAccountingClient g cc) x))\<rparr>\<rparr>)"
  unfolding wired_def by simp_all blast+

lemma dialOnePartner_wired:
  assumes w: "wired g clients" and d: "dialOnePartner h g env name url stubMode clients = (r, clients')"
  shows "wired g clients'"
proof -
  consider "name \<notin> {''policy'', ''kyt'', ''mpc'', ''ledger''}" | "name = ''policy''" | "name = ''kyt''" | "name = ''mpc''" | "name = ''ledger''" by blast
  then show ?thesis
  proof cases
    case 1
    then show ?thesis using w d by (simp add: dialOnePartner_def)
  next
    case 2
    then show ?thesis
      using w d by (cases "NewPolicy h g env url") (auto simp: dialOnePartner_def New_client(1) wired_update(1) split: if_splits)
  next
    case 3
    then show ?thesis
      using w d by (cases "NewKyt h g env url") (auto simp: dialOnePartner_def New_client(2) wired_update(2) split: if_splits)
  next
    case 4
    then show ?thesis
      using w d by (cases "NewMpc h g env url") (auto simp: dialOnePartner_def New_client(3) wired_update(3) split: if_splits)
  next
    case 5
    then show ?thesis
      using w d by (cases "NewLedger h g env url") (auto simp: dialOnePartner_def New_client(4) wired_update(4) split: if_splits)
  qed
qed

lemma dial_loop_wired:
  "dial_loop h g env stubMode ds clients conns = Goes (conns', clients') \<Longrightarrow> wired g clients \<Longrightarrow> wired g clients'"
  by (induction h g env stubMode ds clients conns rule: dial_loop.induct)
    (auto split: if_splits sum.splits prod.splits option.splits dest: dialOnePartner_wired)

lemma dialPartners_wired:
  "dialPartners h g env cfg stubMode stub_clients = Goes (conns, clients) \<Longrightarrow> wired g clients"
  unfolding dialPartners_def by (simp del: dial_loop.simps check_rest.simps split: exiting.splits) (rule dial_loop_wired [OF _ stub_wired])

text \<open>Outside the stub mode nothing is skipped.\<close>

lemma dialOnePartner_prod:
  assumes "name \<in> {''policy'', ''kyt'', ''mpc'', ''ledger''}"
  shows "dialOnePartner h g env name url False clients \<noteq> (Inr None, clients')"
  using assms by (auto simp: dialOnePartner_def Let_def split: sum.splits prod.splits)

lemma dial_loop_prod:
  "dial_loop h g env False ds clients conns = Goes (conns', clients') \<Longrightarrow> set (map fst ds) \<subseteq> {''policy'', ''kyt'', ''mpc'', ''ledger''} \<Longrightarrow>
   map snd conns' = map snd conns @ map fst ds \<and> (\<forall>d \<in> set ds. snd d \<noteq> '''' \<and> snd d \<noteq> ''stub://'')"
proof (induction ds arbitrary: clients conns)
  case (Cons d ds)
  obtain name url where d: "d = (name, url)" by fastforce
  obtain r c1 where one: "dialOnePartner h g env name url False clients = (r, c1)" by fastforce
  have "name \<in> {''policy'', ''kyt'', ''mpc'', ''ledger''}" using Cons.prems(2) d by simp
  from dialOnePartner_prod [OF this, of h g env url clients c1] one have "r \<noteq> Inr None" by auto
  then obtain cc where r: "r = Inr (Some cc)" using Cons.prems(1) one d by (cases r) (auto split: if_splits)
  have "dial_loop h g env False ds c1 (conns @ [(cc, name)]) = Goes (conns', clients')" "url \<noteq> ''''" "url \<noteq> ''stub://''"
    using Cons.prems(1) one d r by (auto split: if_splits)
  with Cons.IH [OF this(1)] Cons.prems(2) d show ?case by simp
qed simp

section \<open>What a server is\<close>

lemma assembleE:
  assumes "assemble rt h g redis env cfg devMode now order s db = Serving sv"
  obtains clients where "dialPartners h g env cfg (devMode \<or> os_Getenv env ''ENABLE_STUB_PARTNERS'' = ''1'') stub_clients = Goes (sv_Conns sv, clients)"
    "sv_Executor sv = (NewExecutor rt s clients (exec_config cfg))\<lparr>ex_Lease := choose_lease redis cfg\<rparr>"
    "svc_Store (sv_Service sv) = s" "svc_Locker (sv_Service sv) = NoopLocker"
  using assms by (auto simp: assemble_def Let_def NewService_def split: exiting.splits prod.splits progress.splits)

lemma runE:
  assumes "run rt h g redis pg env now order db = Serving sv"
  obtains (mem) s where "sv = Inl s" "os_Getenv env ''DEV_MODE'' = ''1''" "os_Getenv env ''DB_URL'' = ''''"
      "assemble rt h g redis env (load_config env) True now order mem_ops NewMemStore = Serving s"
    | (pg) s where "sv = Inr s" "os_Getenv env ''DB_URL'' \<noteq> ''''" "pg = None"
      "assemble rt h g redis env (load_config env) (os_Getenv env ''DEV_MODE'' = ''1'') now order pg_ops db = Serving s"
proof -
  have load: "Load env = (load_config env, None)" using assms by (auto simp: run_def Load_def Let_def split: if_splits)
  have url: "DBURL (load_config env) = os_Getenv env ''DB_URL''" by (simp add: load_config_def)
  show thesis
  proof (cases "os_Getenv env ''DB_URL'' = ''''")
    case True
    then have dev: "os_Getenv env ''DEV_MODE'' = ''1''" using assms load url by (auto simp: run_def open_store_def Let_def split: if_splits)
    then have "map_startup Inl (assemble rt h g redis env (load_config env) True now order mem_ops NewMemStore) = Serving sv"
      using assms load url True by (simp add: run_def open_store_def Let_def)
    then show ?thesis using mem True dev by (cases "assemble rt h g redis env (load_config env) True now order mem_ops NewMemStore") auto
  next
    case False
    then have pgn: "pg = None" using assms load url by (auto simp: run_def open_store_def Let_def split: option.splits)
    then have "map_startup Inr (assemble rt h g redis env (load_config env) (os_Getenv env ''DEV_MODE'' = ''1'') now order pg_ops db) = Serving sv"
      using assms load url False by (simp add: run_def open_store_def Let_def)
    then show ?thesis
      using pg False pgn by (cases "assemble rt h g redis env (load_config env) (os_Getenv env ''DEV_MODE'' = ''1'') now order pg_ops db") auto
  qed
qed

section \<open>Properties of the server\<close>

text \<open>C14: what a production server is: outside the development and stub modes a server starts only on Postgres and with the policy, KYT, MPC and
  ledger services dialled, in this order; payments and broadcasts, however, go to the in-memory stub.\<close>

theorem production_server:
  assumes "run rt h g redis pg env now order db = Serving sv"
    and "os_Getenv env ''DEV_MODE'' \<noteq> ''1''" and "os_Getenv env ''ENABLE_STUB_PARTNERS'' \<noteq> ''1''"
  shows "\<exists>s clients. sv = Inr s \<and> ex_Store (sv_Executor s) = pg_ops \<and> ex_Clients (sv_Executor s) = Some clients \<and>
    map snd (sv_Conns s) = [''policy'', ''kyt'', ''mpc'', ''ledger''] \<and>
    cl_Payment clients = cl_Payment stub_clients \<and> cl_Blockchain clients = cl_Blockchain stub_clients"
  using assms(1)
proof (cases rule: runE)
  case (pg s)
  then obtain clients where c: "dialPartners h g env (load_config env) False stub_clients = Goes (sv_Conns s, clients)"
    "sv_Executor s = (NewExecutor rt pg_ops clients (exec_config (load_config env)))\<lparr>ex_Lease := choose_lease redis (load_config env)\<rparr>"
    using assms(2,3) by (auto elim!: assembleE)
  from c(1) have "\<exists>ds. map fst ds = [''policy'', ''kyt'', ''mpc'', ''ledger''] \<and> dial_loop h g env False ds stub_clients [] = Goes (sv_Conns s, clients)"
    unfolding dialPartners_def by (intro exI conjI) (auto simp del: dial_loop.simps check_rest.simps split: exiting.splits)
  then have "map snd (sv_Conns s) = [''policy'', ''kyt'', ''mpc'', ''ledger'']" using dial_loop_prod by fastforce
  moreover have "wired g clients" using c(1) by (rule dialPartners_wired)
  ultimately show ?thesis using pg(1) c(2) by (simp add: NewExecutor_def wired_def)
qed (use assms(2) in simp)

text \<open>C13: on such a server no transaction can be created: as long as no stored row has the new business id as its surrogate id,
  \<open>POST /v1/transactions\<close> never answers 201 and the database stays as it was.\<close>

theorem production_creates_nothing:
  assumes "run rt h g redis pg env now order db = Serving sv" and "os_Getenv env ''DEV_MODE'' \<noteq> ''1''"
  shows "\<exists>s. sv = Inr s \<and>
    (\<forall>fields body txID at ev ids db1 db2 q rs. \<not> references_tx txID db1 \<longrightarrow> ids 0 \<noteq> txID \<longrightarrow>
       handleCreate (sv_Service s) fields body txID at ev ids (db1, ()) = (rs, (db2, q)) \<longrightarrow> rs_code rs \<in> {400, 409, 500} \<and> db2 = db1)"
  using assms(1)
proof (cases rule: runE)
  case (pg s)
  then have "svc_Store (sv_Service s) = pg_ops" by (auto elim!: assembleE)
  then show ?thesis using pg(1) pg_create_never_succeeds [of "sv_Service s"] by blast
qed (use assms(2) in simp)

text \<open>The partners behind gRPC answer every call and approve.\<close>

definition partners_approve :: "('p \<Rightarrow> bool) \<Rightarrow> ('k, 'c, 'p) grpc_library \<Rightarrow> bool" where
  "partners_approve Q g \<longleftrightarrow> (\<forall>cc.
     answers Q (\<lambda>r. pb_Decision r \<noteq> ''deny'') (pb_Evaluate (NewPolicyRiskEngineClient g cc)) \<and>
     answers Q (\<lambda>r. pb_Decision r = ''clear'') (pb_Screen (NewAmlKytScreeningClient g cc)) \<and>
     answers Q (\<lambda>r. r \<noteq> '''') (pb_Sign (NewMpcSigningServiceClient g cc)) \<and>
     answers Q (\<lambda>r. True) (pb_PostDoubleEntry (NewLedgerAccountingClient g cc)))"

definition both_ready :: "('p \<Rightarrow> bool) \<Rightarrow> 'p \<times> Stub \<Rightarrow> bool" where
  "both_ready Q ps \<longleftrightarrow> Q (fst ps) \<and> stub_cfg (snd ps) = DefaultStubConfig"

lemma remote_answers:
  assumes "answers Q ok call" and "both_ready Q ps" and "\<And>r. ok r \<Longrightarrow> good (f r)"
  shows "\<exists>r p'. at_remote (\<lambda>p. rpc_result f (call x p)) ps = (Inr r, p') \<and> good r \<and> both_ready Q p'"
proof -
  have "Q (fst ps)" using assms(2) by (simp add: both_ready_def)
  from answers_result [OF assms(1) this, of f x] obtain r p' where "rpc_result f (call x (fst ps)) = (Inr (f r), p')" "ok r" "Q p'" by blast
  then show ?thesis using assms(2,3) by (auto simp: at_remote_def both_ready_def)
qed

lemma wired_approves:
  assumes "partners_approve Q g" and "both_ready Q ps"
  shows "\<exists>r p'. at_remote (grpc_Evaluate (NewPolicyRiskEngineClient g cc) x) ps = (Inr r, p') \<and> pls_Decision r \<noteq> PolicyDeny \<and> both_ready Q p'"
    and "\<exists>r p'. at_remote (grpc_Screen (NewAmlKytScreeningClient g cc) y) ps = (Inr r, p') \<and> kys_Decision r = KytClear \<and> both_ready Q p'"
    and "\<exists>r p'. at_remote (grpc_Sign (NewMpcSigningServiceClient g cc) z) ps = (Inr r, p') \<and> r \<noteq> '''' \<and> both_ready Q p'"
    and "\<exists>r p'. at_remote (grpc_PostDoubleEntry (NewLedgerAccountingClient g cc) l) ps = (Inr r, p') \<and> True \<and> both_ready Q p'"
proof -
  have ans: "answers Q (\<lambda>r. pb_Decision r \<noteq> ''deny'') (pb_Evaluate (NewPolicyRiskEngineClient g cc))"
    "answers Q (\<lambda>r. pb_Decision r = ''clear'') (pb_Screen (NewAmlKytScreeningClient g cc))"
    "answers Q (\<lambda>r. r \<noteq> '''') (pb_Sign (NewMpcSigningServiceClient g cc))"
    "answers Q (\<lambda>r. True) (pb_PostDoubleEntry (NewLedgerAccountingClient g cc))"
    using assms(1) by (simp_all add: partners_approve_def)
  show "\<exists>r p'. at_remote (grpc_Evaluate (NewPolicyRiskEngineClient g cc) x) ps = (Inr r, p') \<and> pls_Decision r \<noteq> PolicyDeny \<and> both_ready Q p'"
    unfolding grpc_Evaluate_def [abs_def] by (rule remote_answers [OF ans(1) assms(2)]) (simp add: policy_decision_def)
  show "\<exists>r p'. at_remote (grpc_Screen (NewAmlKytScreeningClient g cc) y) ps = (Inr r, p') \<and> kys_Decision r = KytClear \<and> both_ready Q p'"
    unfolding grpc_Screen_def [abs_def] by (rule remote_answers [OF ans(2) assms(2)]) (simp add: kyt_decision_def)
  show "\<exists>r p'. at_remote (grpc_Sign (NewMpcSigningServiceClient g cc) z) ps = (Inr r, p') \<and> r \<noteq> '''' \<and> both_ready Q p'"
    unfolding grpc_Sign_def [abs_def] by (rule remote_answers [OF ans(3) assms(2)])
  show "\<exists>r p'. at_remote (grpc_PostDoubleEntry (NewLedgerAccountingClient g cc) l) ps = (Inr r, p') \<and> True \<and> both_ready Q p'"
    unfolding grpc_PostDoubleEntry_def [abs_def] by (rule remote_answers [OF ans(4) assms(2)])
qed

lemma stub_approves:
  assumes "both_ready Q ps"
  shows "\<exists>r p'. at_stub (stub_Evaluate x) ps = (Inr r, p') \<and> pls_Decision r \<noteq> PolicyDeny \<and> both_ready Q p'"
    and "\<exists>r p'. at_stub (stub_Authorize a) ps = (Inr r, p') \<and> both_ready Q p'"
    and "\<exists>r p'. at_stub (stub_Capture c) ps = (Inr r, p') \<and> both_ready Q p'"
    and "\<exists>r p'. at_stub (stub_Screen y) ps = (Inr r, p') \<and> kys_Decision r = KytClear \<and> both_ready Q p'"
    and "\<exists>r p'. at_stub (stub_Sign z) ps = (Inr r, p') \<and> r \<noteq> '''' \<and> both_ready Q p'"
    and "\<exists>r p'. at_stub (stub_Broadcast b) ps = (Inr r, p') \<and> bcs_TxHash r \<noteq> '''' \<and> both_ready Q p'"
    and "\<exists>r p'. at_stub (stub_Status t) ps = (Inr r, p') \<and> bcs_Confirmed r \<and> both_ready Q p'"
    and "\<exists>r p'. at_stub (stub_PostDoubleEntry l) ps = (Inr r, p') \<and> both_ready Q p'"
  using assms by (auto simp: at_stub_def stub_defs both_ready_def DefaultStubConfig_def Let_def)

lemma wired_cooperative:
  assumes g: "partners_approve Q g" and w: "wired g c"
  shows "cooperative (both_ready Q) c"
proof -
  have pay: "cl_Payment c = cl_Payment stub_clients" "cl_Blockchain c = cl_Blockchain stub_clients" using w by (simp_all add: wired_def)
  obtain pol where pol: "cl_Policy c = Some pol"
    "\<And>ps x. both_ready Q ps \<Longrightarrow> \<exists>r p'. Evaluate pol x ps = (Inr r, p') \<and> pls_Decision r \<noteq> PolicyDeny \<and> both_ready Q p'"
    using w wired_approves(1) [OF g] stub_approves(1) [of Q] by (fastforce simp: wired_def stub_clients_def)
  obtain kyt where kyt: "cl_Kyt c = Some kyt"
    "\<And>ps x. both_ready Q ps \<Longrightarrow> \<exists>r p'. Screen kyt x ps = (Inr r, p') \<and> kys_Decision r = KytClear \<and> both_ready Q p'"
    using w wired_approves(2) [OF g] stub_approves(4) [of Q] by (fastforce simp: wired_def stub_clients_def)
  obtain mpc where mpc: "cl_Mpc c = Some mpc"
    "\<And>ps x. both_ready Q ps \<Longrightarrow> \<exists>r p'. Sign mpc x ps = (Inr r, p') \<and> r \<noteq> '''' \<and> both_ready Q p'"
    using w wired_approves(3) [OF g] stub_approves(5) [of Q] by (fastforce simp: wired_def stub_clients_def)
  obtain led where led: "cl_Ledger c = Some led"
    "\<And>ps x. both_ready Q ps \<Longrightarrow> \<exists>r p'. PostDoubleEntry led x ps = (Inr r, p') \<and> both_ready Q p'"
    using w wired_approves(4) [OF g] stub_approves(8) [of Q] by (fastforce simp: wired_def stub_clients_def)
  show ?thesis
    unfolding cooperative_def pay stub_clients_def Clients.simps pol(1) kyt(1) mpc(1) led(1) option.inject ex_simps simp_thms
    using pol(2) kyt(2) mpc(2) led(2) stub_approves(2,3,6,7) [of Q] by simp
qed


definition dev_env :: environment where
  "dev_env = [''DEV_MODE'' \<mapsto> ''1'', ''EVENT_BUS_URL'' \<mapsto> ''memory://'', ''KYT_URL'' \<mapsto> ''kyt:9090'']"

definition prod_env :: environment where
  "prod_env = tls_env(''DB_URL'' \<mapsto> ''postgres://db'', ''EVENT_BUS_URL'' \<mapsto> ''memory://'', ''POLICY_URL'' \<mapsto> ''policy:9090'',
     ''KYT_URL'' \<mapsto> ''kyt:9090'', ''MPC_URL'' \<mapsto> ''mpc:9090'', ''LEDGER_URL'' \<mapsto> ''ledger:9090'')"

abbreviation demo_run ::
  "environment \<Rightarrow> ((mem_store, unit \<times> Stub, string \<rightharpoonup> string, string) server + (pg_state, unit \<times> Stub, string \<rightharpoonup> string, string) server) startup"
where
  "demo_run env \<equiv> run demo_rt demo_host demo_library (\<lambda>_. map_client) None env 0 [] pg_empty"

lemma demo_library_approves: "partners_approve (\<lambda>_. True) (demo_library :: (unit, string, unit) grpc_library)"
  by (simp add: partners_approve_def answers_def demo_library_def accepts_def)

lemma assemble_idle:
  assumes "dialPartners h g env cfg (devMode \<or> os_Getenv env ''ENABLE_STUB_PARTNERS'' = ''1'') stub_clients = Goes (conns, clients)"
    and "op_ListInflightSagaIDs s order db = Inr []"
  shows "\<exists>sv. assemble rt h g redis env cfg devMode now order s db = Serving sv"
  using assms by (simp add: assemble_def Recover_def New_def Let_def)

lemma dev_serves: "\<exists>s. demo_run dev_env = Serving (Inl s)"
proof -
  have cfg: "Load dev_env = (load_config dev_env, None)" "DBURL (load_config dev_env) = ''''" "os_Getenv dev_env ''DEV_MODE'' = ''1''"
    "PolicyURL (load_config dev_env) = ''''" "KytURL (load_config dev_env) = ''kyt:9090''" "MpcURL (load_config dev_env) = ''''"
    "LedgerURL (load_config dev_env) = ''''" "PaymentURL (load_config dev_env) = ''''" "BlockchainURL (load_config dev_env) = ''''"
    by (simp_all add: Load_def load_config_def dev_env_def os_Getenv_def Let_def)
  have conn: "dial name wrap demo_host demo_library dev_env target = Inr (wrap target, target)" for name wrap target
    by (simp add: dial_def transportCredentials_def loadTLSConfig_def dev_env_def os_Getenv_def demo_library_def Let_def)
  have "\<exists>conns clients. dialPartners demo_host (demo_library :: (unit, string, unit) grpc_library) dev_env (load_config dev_env) True stub_clients = Goes (conns, clients)"
    by (simp add: dialPartners_def cfg dialOnePartner_def NewKyt_def conn)
  then obtain conns clients where d: "dialPartners demo_host (demo_library :: (unit, string, unit) grpc_library) dev_env (load_config dev_env) True stub_clients = Goes (conns, clients)"
    by blast
  have none: "op_ListInflightSagaIDs mem_ops [] NewMemStore = Inr []" by (simp add: mem_ListInflightSagaIDs_def)
  have "\<exists>s. assemble demo_rt demo_host (demo_library :: (unit, string, unit) grpc_library) (\<lambda>_. map_client) dev_env (load_config dev_env) True 0 []
      mem_ops NewMemStore = Serving s"
    by (rule assemble_idle [where conns = conns and clients = clients, OF _ none]) (simp only: d simp_thms)
  then obtain s where s: "assemble demo_rt demo_host (demo_library :: (unit, string, unit) grpc_library) (\<lambda>_. map_client) dev_env (load_config dev_env) True 0 []
      mem_ops NewMemStore = Serving s" ..
  have "open_store None (load_config dev_env) True = Inr UseMem" by (simp add: open_store_def cfg(2))
  with s cfg(3) show ?thesis unfolding run_def cfg(1) prod.case option.case Let_def by simp
qed

lemma prod_serves: "\<exists>s. demo_run prod_env = Serving (Inr s)"
proof -
  have cfg: "Load prod_env = (load_config prod_env, None)" "DBURL (load_config prod_env) = ''postgres://db''" "os_Getenv prod_env ''DEV_MODE'' = ''''"
    "os_Getenv prod_env ''ENABLE_STUB_PARTNERS'' = ''''"
    "PolicyURL (load_config prod_env) = ''policy:9090''" "KytURL (load_config prod_env) = ''kyt:9090''" "MpcURL (load_config prod_env) = ''mpc:9090''"
    "LedgerURL (load_config prod_env) = ''ledger:9090''" "PaymentURL (load_config prod_env) = ''''" "BlockchainURL (load_config prod_env) = ''''"
    by (simp_all add: Load_def load_config_def prod_env_def tls_env_def os_Getenv_def Let_def)
  have tls: "dial name wrap demo_host demo_library prod_env target = Inr (wrap target, target)" for name wrap target
    by (simp add: dial_def transportCredentials_def loadTLSConfig_def prod_env_def tls_env_def os_Getenv_def demo_host_def demo_library_def Let_def)
  have "\<exists>conns clients. dialPartners demo_host (demo_library :: (unit, string, unit) grpc_library) prod_env (load_config prod_env) False stub_clients = Goes (conns, clients)"
    by (simp add: dialPartners_def cfg dialOnePartner_def NewPolicy_def NewKyt_def NewMpc_def NewLedger_def tls)
  then obtain conns clients where d: "dialPartners demo_host (demo_library :: (unit, string, unit) grpc_library) prod_env (load_config prod_env) False stub_clients = Goes (conns, clients)"
    by blast
  have none: "op_ListInflightSagaIDs pg_ops [] pg_empty = Inr []" by (simp add: pg_ops_def pg_ListInflightSagaIDs_def pg_empty_def)
  have "\<exists>s. assemble demo_rt demo_host (demo_library :: (unit, string, unit) grpc_library) (\<lambda>_. map_client) prod_env (load_config prod_env) False 0 []
      pg_ops pg_empty = Serving s"
    by (rule assemble_idle [where conns = conns and clients = clients, OF _ none]) (simp add: d cfg(4))
  then obtain s where s: "assemble demo_rt demo_host (demo_library :: (unit, string, unit) grpc_library) (\<lambda>_. map_client) prod_env (load_config prod_env) False 0 []
      pg_ops pg_empty = Serving s" ..
  have "open_store None (load_config prod_env) False = Inr UsePg" by (simp add: open_store_def cfg(2))
  with s cfg(3) show ?thesis unfolding run_def cfg(1) prod.case option.case Let_def by simp
qed

lemma prod_mode: "os_Getenv prod_env ''DEV_MODE'' \<noteq> ''1''" "os_Getenv prod_env ''ENABLE_STUB_PARTNERS'' \<noteq> ''1''"
  by (simp_all add: prod_env_def tls_env_def os_Getenv_def)

theorem production_server_witness:
  "\<exists>s clients. demo_run prod_env = Serving (Inr s) \<and> map snd (sv_Conns s) = [''policy'', ''kyt'', ''mpc'', ''ledger''] \<and>
     ex_Clients (sv_Executor s) = Some clients \<and> cl_Payment clients = cl_Payment stub_clients"
proof -
  obtain s where s: "demo_run prod_env = Serving (Inr s)" using prod_serves by blast
  from production_server [OF s prod_mode] s show ?thesis by auto
qed

theorem production_creates_nothing_witness:
  "\<exists>s rs db2 q. demo_run prod_env = Serving (Inr s) \<and>
     handleCreate (sv_Service s) field_order (Some demo_request) sample_uuid 5 ''e'' (\<lambda>_. ''u'') (pg_empty, ()) = (rs, (db2, q)) \<and>
     rs_code rs \<in> {400, 409, 500} \<and> db2 = pg_empty"
proof -
  obtain s where s: "demo_run prod_env = Serving (Inr s)" using prod_serves by blast
  obtain rs db2 q where h: "handleCreate (sv_Service s) field_order (Some demo_request) sample_uuid 5 ''e'' (\<lambda>_. ''u'') (pg_empty, ()) = (rs, (db2, q))"
    by (metis prod.exhaust)
  have "\<not> references_tx sample_uuid pg_empty" "''u'' \<noteq> sample_uuid" by (simp_all add: references_tx_def pg_empty_def sample_uuid_def)
  with production_creates_nothing [OF s prod_mode(1)] h have "rs_code rs \<in> {400, 409, 500} \<and> db2 = pg_empty" by (metis sum.inject(2))
  with s h show ?thesis by blast
qed


end
