(* ===== verification/Go_Context.thy ===== *)
theory Go_Context
  imports Go_Strings
begin

text \<open>
  Contexts of Go and what the program stores in them: the logger of \<open>internal/logging/logging.go\<close> and the request id of
  \<open>internal/api/api.go\<close>. A context is the chain of its constructors; a cancel function is named by a number, and a state of the
  process says which have been called. A logger is the handler that decides which records are written.
\<close>

section \<open>Loggers\<close>

text \<open>The levels of \<open>log/slog\<close>.\<close>

abbreviation LevelDebug :: int where "LevelDebug \<equiv> - 4"
abbreviation LevelInfo :: int where "LevelInfo \<equiv> 0"
abbreviation LevelWarn :: int where "LevelWarn \<equiv> 4"
abbreviation LevelError :: int where "LevelError \<equiv> 8"

text \<open>\<open>slog.Default()\<close>, which nothing in the program sets, writes records of level \<open>INFO\<close> and above.\<close>

datatype logger = JSONLogger int | DefaultLogger

fun Enabled :: "logger \<Rightarrow> int \<Rightarrow> bool" where
  "Enabled (JSONLogger least) level \<longleftrightarrow> least \<le> level"
| "Enabled DefaultLogger level \<longleftrightarrow> LevelInfo \<le> level"

definition logging_New :: "string \<Rightarrow> logger" where
  "logging_New level =
     (let lv = (if level = ''debug'' then LevelDebug
                else if level = ''warn'' then LevelWarn
                else if level = ''error'' then LevelError
                else LevelInfo)
      in JSONLogger lv)"

section \<open>Contexts\<close>

datatype ctx_key = CtxKey | ReqIDKey

text \<open>A stored \<open>*slog.Logger\<close> may be nil.\<close>

datatype ctx_value = LoggerValue "logger option" | StringValue string

datatype go_context = Background | WithCancel nat go_context | WithValue go_context ctx_key ctx_value

fun ctx_Value :: "go_context \<Rightarrow> ctx_key \<Rightarrow> ctx_value option" where
  "ctx_Value Background k = None"
| "ctx_Value (WithCancel i c) k = ctx_Value c k"
| "ctx_Value (WithValue c k' v) k = (if k' = k then Some v else ctx_Value c k)"

text \<open>Whether a context is done when the cancel functions in \<open>called\<close> have been called.\<close>

fun ctx_done :: "nat set \<Rightarrow> go_context \<Rightarrow> bool" where
  "ctx_done called Background \<longleftrightarrow> False"
| "ctx_done called (WithCancel i c) \<longleftrightarrow> i \<in> called \<or> ctx_done called c"
| "ctx_done called (WithValue c k v) \<longleftrightarrow> ctx_done called c"

definition WithLogger :: "go_context \<Rightarrow> logger option \<Rightarrow> go_context" where
  "WithLogger c l = WithValue c CtxKey (LoggerValue l)"

definition logging_From :: "go_context \<Rightarrow> logger" where
  "logging_From c = (case ctx_Value c CtxKey of Some (LoggerValue (Some l)) \<Rightarrow> l | _ \<Rightarrow> DefaultLogger)"

definition WithRequestID :: "go_context \<Rightarrow> string \<Rightarrow> go_context" where
  "WithRequestID c i = WithValue c ReqIDKey (StringValue i)"

definition RequestIDFrom :: "go_context \<Rightarrow> string" where
  "RequestIDFrom c = (case ctx_Value c ReqIDKey of Some (StringValue v) \<Rightarrow> v | _ \<Rightarrow> '''')"

section \<open>What is found in a context\<close>

named_theorems context_simps

lemma From_simps [context_simps]:
  "logging_From Background = DefaultLogger"
  "logging_From (WithCancel i c) = logging_From c"
  "logging_From (WithLogger c (Some l)) = l"
  "logging_From (WithLogger c None) = DefaultLogger"
  "logging_From (WithRequestID c x) = logging_From c"
  by (simp_all add: logging_From_def WithLogger_def WithRequestID_def)

lemma RequestIDFrom_simps [context_simps]:
  "RequestIDFrom Background = ''''"
  "RequestIDFrom (WithCancel i c) = RequestIDFrom c"
  "RequestIDFrom (WithLogger c l) = RequestIDFrom c"
  "RequestIDFrom (WithRequestID c x) = x"
  by (simp_all add: RequestIDFrom_def WithLogger_def WithRequestID_def)

lemma done_simps [context_simps]:
  "ctx_done called (WithLogger c l) = ctx_done called c"
  "ctx_done called (WithRequestID c x) = ctx_done called c"
  by (simp_all add: WithLogger_def WithRequestID_def)

lemma done_mono: "ctx_done called c \<Longrightarrow> called \<subseteq> called' \<Longrightarrow> ctx_done called' c"
  by (induction c) auto

text \<open>The four names of the documentation select a level; every other name selects \<open>info\<close>.\<close>

lemma New_levels:
  "Enabled (logging_New ''debug'') level \<longleftrightarrow> LevelDebug \<le> level"
  "Enabled (logging_New ''warn'') level \<longleftrightarrow> LevelWarn \<le> level"
  "Enabled (logging_New ''error'') level \<longleftrightarrow> LevelError \<le> level"
  "name \<notin> {''debug'', ''warn'', ''error''} \<Longrightarrow> Enabled (logging_New name) level \<longleftrightarrow> LevelInfo \<le> level"
  by (simp_all add: logging_New_def)

text \<open>An error is written at every level.\<close>

lemma errors_always_logged: "Enabled (logging_New name) LevelError"
  by (simp add: logging_New_def)

end
