(* ===== verification/Process.thy ===== *)
theory Process
  imports Server Go_Context
begin

text \<open>
  The life of the server process, the second half of \<open>run\<close> in \<open>cmd/orchestrator/main.go\<close>: the listener goroutine, the signal, the
  graceful shutdown, and the deferred calls in reverse order. The main goroutine, the listener, the request handlers, the workers and
  the relay interleave freely; an event is one step of one of them. What they do with the store is the subject of theory \<open>System\<close>;
  here only what is running and what is still open counts.
\<close>

section \<open>Exit codes and console output\<close>

text \<open>\<open>main\<close>: the exit code of a process that does not start serving.\<close>

fun go_main :: "'a startup \<Rightarrow> int option" where
  "go_main (Refuses err) = Some 1"
| "go_main (ExitsWith n) = Some n"
| "go_main Hangs = None"
| "go_main (Serving sv) = None"

text \<open>\<open>toString\<close>, over the texts that \<open>%v\<close> makes of the arguments.\<close>

fun toString_loop :: "nat \<Rightarrow> string list \<Rightarrow> string \<Rightarrow> string" where
  "toString_loop i [] s = s"
| "toString_loop i (v # vs) s = toString_loop (Suc i) vs ((if 0 < i then s @ '' '' else s) @ v)"

definition toString :: "string list \<Rightarrow> string" where
  "toString a = toString_loop 0 a ''''"

lemma toString_loop_Join: "0 < i \<Longrightarrow> toString_loop i vs s = s @ concat (map (\<lambda>v. '' '' @ v) vs)"
  by (induction vs arbitrary: i s) simp_all

lemma strings_Join_concat: "strings_Join sep (v # vs) = v @ concat (map (\<lambda>x. sep @ x) vs)"
  by (induction vs arbitrary: v) simp_all

lemma toString_Join: "toString vs = strings_Join '' '' vs"
  by (cases vs) (simp_all add: toString_def toString_loop_Join strings_Join_concat)

section \<open>Deferred calls\<close>

datatype deferred = RunCancel | StoreClose | CloseConns | LeaseClose | DispatcherStop | PubClose | RelayStop | ShutCancel

text \<open>The deferred calls of a server that came up, in the order of their \<open>defer\<close> statements; the cancellation of the shutdown
  context is deferred last.\<close>

definition run_defers :: "(string \<Rightarrow> 'l RedisClient) \<Rightarrow> AppConfig \<Rightarrow> ('s, 'p, 'l, 'c) server \<Rightarrow> deferred list" where
  "run_defers redis cfg sv =
     [RunCancel] @
     (if DBURL cfg \<noteq> '''' then [StoreClose] else []) @
     [CloseConns] @
     (if RedisURL cfg \<noteq> '''' then
        (case NewRedisLease redis (RedisURL cfg) (LeaseTTLOffset cfg) of Inr rl \<Rightarrow> [LeaseClose] | Inl err \<Rightarrow> [])
      else []) @
     [DispatcherStop] @
     (case sv_Bus sv of None \<Rightarrow> [] | Some b \<Rightarrow> [PubClose, RelayStop]) @
     [ShutCancel]"

section \<open>The state of the process\<close>

datatype main_at = AtSignal | AtShutdown | AtDeferred "deferred list" | MainExited

datatype listener = Listening | ListenFailed | ListenClosed

datatype relay_at = RelayWaits | RelayDrains | RelayGone

text \<open>\<open>pr_called\<close> holds the cancel functions that have been called (\<open>0\<close> is the one of \<open>run\<close>), \<open>pr_requests\<close> counts the requests
  in their handlers, \<open>pr_ran\<close> lists the deferred calls that have returned.\<close>

record ('s, 'p, 'l) process =
  pr_main :: main_at
  pr_ctx :: go_context
  pr_called :: "nat set"
  pr_listener :: listener
  pr_requests :: nat
  pr_pool :: "('s, 'p, 'l) Dispatcher"
  pr_relay :: relay_at
  pr_relay_stop :: bool
  pr_defers :: "deferred list"
  pr_ran :: "deferred list"

definition run_context :: "AppConfig \<Rightarrow> go_context" where
  "run_context cfg = WithLogger (WithCancel 0 Background) (Some (logging_New (LogLevel cfg)))"

text \<open>The process when \<open>run\<close> waits for a signal.\<close>

definition serve :: "(string \<Rightarrow> 'l RedisClient) \<Rightarrow> AppConfig \<Rightarrow> ('s, 'p, 'l, 'c) server \<Rightarrow> ('s, 'p, 'l) process" where
  "serve redis cfg sv = \<lparr>
     pr_main = AtSignal, pr_ctx = run_context cfg, pr_called = {}, pr_listener = Listening, pr_requests = 0,
     pr_pool = sv_Dispatcher sv, pr_relay = (case sv_Bus sv of None \<Rightarrow> RelayGone | Some b \<Rightarrow> RelayWaits), pr_relay_stop = False,
     pr_defers = run_defers redis cfg sv, pr_ran = []\<rparr>"

definition cancelled :: "('s, 'p, 'l) process \<Rightarrow> bool" where
  "cancelled p = ctx_done (pr_called p) (pr_ctx p)"

text \<open>What the pool may do: handlers submit, workers receive, go on and exit. \<open>Start\<close> and \<open>Stop\<close> are called by \<open>run\<close> only.\<close>

fun pool_may :: "('s, 'p, 'l) process \<Rightarrow> pool_event \<Rightarrow> bool" where
  "pool_may p (EvSubmit c txID) \<longleftrightarrow> 0 < pr_requests p"
| "pool_may p (EvRecv g idx txID) \<longleftrightarrow> True"
| "pool_may p (EvBack g) \<longleftrightarrow> True"
| "pool_may p (EvExit c g) \<longleftrightarrow> c = cancelled p"
| "pool_may p EvStart \<longleftrightarrow> False"
| "pool_may p EvStop \<longleftrightarrow> False"

text \<open>A deferred call that waits first closes a channel: \<open>begin_deferred\<close>; it returns when \<open>deferred_done\<close>, with the effect
  \<open>end_deferred\<close>. \<open>Relay.Stop\<close> and \<open>Dispatcher.Stop\<close> wait, the others do not.\<close>

fun begin_deferred :: "deferred \<Rightarrow> ('s, 'p, 'l) process \<Rightarrow> ('s, 'p, 'l) process" where
  "begin_deferred RelayStop p = p\<lparr>pr_relay_stop := True\<rparr>"
| "begin_deferred DispatcherStop p = p\<lparr>pr_pool := close_stop (pr_pool p)\<rparr>"
| "begin_deferred d p = p"

fun deferred_done :: "deferred \<Rightarrow> ('s, 'p, 'l) process \<Rightarrow> bool" where
  "deferred_done RelayStop p \<longleftrightarrow> pr_relay_stop p \<and> pr_relay p = RelayGone"
| "deferred_done DispatcherStop p \<longleftrightarrow> d_stop (pr_pool p) \<and> wg_done (pr_pool p)"
| "deferred_done d p \<longleftrightarrow> True"

definition end_deferred :: "deferred \<Rightarrow> ('s, 'p, 'l) process \<Rightarrow> ('s, 'p, 'l) process" where
  "end_deferred d p = p\<lparr>pr_called := (if d = RunCancel then insert 0 (pr_called p) else pr_called p), pr_ran := pr_ran p @ [d]\<rparr>"

text \<open>\<open>Ended True\<close> is the end of \<open>Shutdown\<close> by its deadline of 15 seconds, \<open>Ended False\<close> by the last request.\<close>

datatype process_event =
    ListenFails | Accepts | Answers | Signal | Ended bool | Begins | Returns | RunReturns
  | InPool pool_event | RelayTicks | RelayBack | RelayExits

fun process_exec :: "process_event \<Rightarrow> ('s, 'p, 'l) process \<Rightarrow> ('s, 'p, 'l) process option" where
  "process_exec ListenFails p =
     (if pr_listener p = Listening then Some (p\<lparr>pr_listener := ListenFailed, pr_called := insert 0 (pr_called p)\<rparr>) else None)"
| "process_exec Accepts p =
     (if pr_listener p = Listening then Some (p\<lparr>pr_requests := Suc (pr_requests p)\<rparr>) else None)"
| "process_exec Answers p =
     (if 0 < pr_requests p then Some (p\<lparr>pr_requests := pr_requests p - 1\<rparr>) else None)"
| "process_exec Signal p =
     (if pr_main p = AtSignal then
        Some (p\<lparr>pr_main := AtShutdown, pr_listener := (if pr_listener p = Listening then ListenClosed else pr_listener p)\<rparr>)
      else None)"
| "process_exec (Ended deadline) p =
     (if pr_main p = AtShutdown \<and> (deadline \<or> pr_requests p = 0) then Some (p\<lparr>pr_main := AtDeferred (rev (pr_defers p))\<rparr>) else None)"
| "process_exec Begins p =
     (case pr_main p of AtDeferred (d # ds) \<Rightarrow> Some (begin_deferred d p) | _ \<Rightarrow> None)"
| "process_exec Returns p =
     (case pr_main p of
        AtDeferred (d # ds) \<Rightarrow> if deferred_done d p then Some ((end_deferred d p)\<lparr>pr_main := AtDeferred ds\<rparr>) else None
      | _ \<Rightarrow> None)"
| "process_exec RunReturns p =
     (case pr_main p of AtDeferred [] \<Rightarrow> Some (p\<lparr>pr_main := MainExited\<rparr>) | _ \<Rightarrow> None)"
| "process_exec (InPool e) p =
     (if pool_may p e then map_option (\<lambda>d. p\<lparr>pr_pool := d\<rparr>) (pool_exec e (pr_pool p)) else None)"
| "process_exec RelayTicks p = (if pr_relay p = RelayWaits then Some (p\<lparr>pr_relay := RelayDrains\<rparr>) else None)"
| "process_exec RelayBack p = (if pr_relay p = RelayDrains then Some (p\<lparr>pr_relay := RelayWaits\<rparr>) else None)"
| "process_exec RelayExits p =
     (if pr_relay p = RelayWaits \<and> (pr_relay_stop p \<or> cancelled p) then Some (p\<lparr>pr_relay := RelayGone\<rparr>) else None)"

text \<open>When \<open>main\<close> has returned the process is gone.\<close>

inductive process_runs :: "('s, 'p, 'l) process \<Rightarrow> process_event list \<Rightarrow> ('s, 'p, 'l) process \<Rightarrow> bool" where
  runs_nil: "process_runs p [] p"
| runs_step: "process_runs p es p1 \<Longrightarrow> pr_main p1 \<noteq> MainExited \<Longrightarrow> process_exec e p1 = Some p2 \<Longrightarrow> process_runs p (es @ [e]) p2"

inductive_cases runs_snocE: "process_runs p es p'"

section \<open>The order of the deferred calls\<close>

text \<open>Whoever has returned from \<open>e\<close> has returned from \<open>d\<close> before.\<close>

fun precedes :: "deferred \<Rightarrow> deferred \<Rightarrow> deferred list \<Rightarrow> bool" where
  "precedes d e [] \<longleftrightarrow> True"
| "precedes d e (x # xs) \<longleftrightarrow> x = d \<or> x \<noteq> e \<and> precedes d e xs"

lemma precedes_prefix: "precedes d e (xs @ ys) \<Longrightarrow> e \<in> set xs \<Longrightarrow> d \<in> set xs"
  by (induction xs) auto

text \<open>Publisher and relay come first, then the workers, then what they use, and the cancellation of the context last.\<close>

lemma run_defers_shape:
  obtains a b c where "run_defers redis cfg sv = [RunCancel] @ a @ [CloseConns] @ b @ [DispatcherStop] @ c @ [ShutCancel]"
    "a = [] \<or> a = [StoreClose]" "b = [] \<or> b = [LeaseClose]" "c = [] \<or> c = [PubClose, RelayStop]" "c = [] \<longleftrightarrow> sv_Bus sv = None"
proof (rule that)
  let ?a = "if DBURL cfg \<noteq> '''' then [StoreClose] else []"
  let ?b = "if RedisURL cfg \<noteq> '''' then
      (case NewRedisLease redis (RedisURL cfg) (LeaseTTLOffset cfg) of Inr rl \<Rightarrow> [LeaseClose] | Inl err \<Rightarrow> []) else []"
  let ?c = "case sv_Bus sv of None \<Rightarrow> [] | Some b \<Rightarrow> [PubClose, RelayStop]"
  show "run_defers redis cfg sv = [RunCancel] @ ?a @ [CloseConns] @ ?b @ [DispatcherStop] @ ?c @ [ShutCancel]"
    by (rule run_defers_def)
  show "?a = [] \<or> ?a = [StoreClose]" by simp
  show "?b = [] \<or> ?b = [LeaseClose]" by (simp split: sum.split)
  show "?c = [] \<or> ?c = [PubClose, RelayStop]" "?c = [] \<longleftrightarrow> sv_Bus sv = None" by (simp_all split: option.split)
qed

lemma run_defers_order:
  "precedes RelayStop PubClose (rev (run_defers redis cfg sv))"
  "e \<in> {StoreClose, CloseConns, LeaseClose, RunCancel} \<Longrightarrow> precedes DispatcherStop e (rev (run_defers redis cfg sv))"
  "RelayStop \<in> set (run_defers redis cfg sv) \<Longrightarrow> precedes RelayStop DispatcherStop (rev (run_defers redis cfg sv))"
  "RunCancel \<in> set (run_defers redis cfg sv)" "DispatcherStop \<in> set (run_defers redis cfg sv)"
  "RelayStop \<in> set (run_defers redis cfg sv) \<longleftrightarrow> sv_Bus sv \<noteq> None"
  by (rule run_defers_shape [of redis cfg sv]; elim disjE; auto)+

section \<open>The invariant of the process\<close>

text \<open>Which deferred calls have returned, given where the main goroutine is.\<close>

fun ran_so_far :: "main_at \<Rightarrow> deferred list \<Rightarrow> deferred list \<Rightarrow> bool" where
  "ran_so_far (AtDeferred ds) rs defers \<longleftrightarrow> rs @ ds = rev defers"
| "ran_so_far MainExited rs defers \<longleftrightarrow> rs = rev defers"
| "ran_so_far AtSignal rs defers \<longleftrightarrow> rs = []"
| "ran_so_far AtShutdown rs defers \<longleftrightarrow> rs = []"

lemma cancelled_iff: "pr_ctx p = run_context cfg \<Longrightarrow> cancelled p \<longleftrightarrow> 0 \<in> pr_called p"
  by (simp add: cancelled_def run_context_def context_simps)

definition process_inv :: "AppConfig \<Rightarrow> ('s, 'p, 'l) process \<Rightarrow> bool" where
  "process_inv cfg p \<longleftrightarrow>
     pr_ctx p = run_context cfg \<and>
     ran_so_far (pr_main p) (pr_ran p) (pr_defers p) \<and>
     (pr_main p = AtSignal \<longrightarrow> pr_listener p \<noteq> ListenClosed) \<and>
     (RelayStop \<in> set (pr_ran p) \<longrightarrow> pr_relay p = RelayGone) \<and>
     (DispatcherStop \<in> set (pr_ran p) \<longrightarrow> d_stop (pr_pool p) \<and> wg_done (pr_pool p)) \<and>
     (0 \<in> pr_called p \<longleftrightarrow> pr_listener p = ListenFailed \<or> RunCancel \<in> set (pr_ran p)) \<and>
     (pr_relay p \<noteq> RelayGone \<longrightarrow> RelayStop \<in> set (pr_defers p))"

text \<open>A pool whose workers are gone stays so.\<close>

lemma pool_exec_done:
  assumes "pool_exec e d = Some d'" and "e \<noteq> EvStart" and "d_stop d" and "wg_done d"
  shows "d_stop d' \<and> wg_done d'"
proof (cases e)
  case (EvSubmit c x)
  then show ?thesis using assms by (cases c) (auto simp: Let_def wg_done_def split: if_splits)
next
  case (EvRecv g idx x)
  then have "(idx, Idle) \<in> set (d_wg d)" using assms(1) by (auto elim!: worker_recvE dest: nth_mem)
  then show ?thesis using assms(4) by (auto simp: wg_done_def)
next
  case (EvBack g)
  then obtain idx x where "(idx, Busy x) \<in> set (d_wg d)" using assms(1) by (auto elim!: worker_backE dest: nth_mem)
  then show ?thesis using assms(4) by (auto simp: wg_done_def)
next
  case (EvExit c g)
  then have "g < length (d_wg d)" "snd (d_wg d ! g) = Idle" using assms(1) by (auto simp: worker_exit_def split: if_splits)
  then obtain idx where "(idx, Idle) \<in> set (d_wg d)" by (metis nth_mem prod.collapse)
  then show ?thesis using assms(4) by (auto simp: wg_done_def)
qed (use assms in \<open>auto simp: close_stop_def wg_done_def\<close>)

lemma pool_may_start: "pool_may p e \<Longrightarrow> e \<noteq> EvStart"
  by (cases e) simp_all

lemma process_exec_keeps: "process_exec e p = Some p' \<Longrightarrow> pr_defers p' = pr_defers p \<and> pr_ctx p' = pr_ctx p"
proof (cases e)
  case Begins
  assume "process_exec e p = Some p'"
  with Begins obtain d ds where "pr_main p = AtDeferred (d # ds)" "p' = begin_deferred d p"
    by (auto split: main_at.splits list.splits)
  then show ?thesis by (cases d) simp_all
qed (auto simp: end_deferred_def split: if_splits main_at.splits list.splits)

lemma begin_keeps:
  "pr_main (begin_deferred d p) = pr_main p" "pr_listener (begin_deferred d p) = pr_listener p" "pr_ran (begin_deferred d p) = pr_ran p"
  "pr_relay (begin_deferred d p) = pr_relay p" "pr_called (begin_deferred d p) = pr_called p" "pr_ctx (begin_deferred d p) = pr_ctx p"
  "pr_defers (begin_deferred d p) = pr_defers p" "pr_requests (begin_deferred d p) = pr_requests p"
  "d_wg (pr_pool (begin_deferred d p)) = d_wg (pr_pool p)" "d_stop (pr_pool p) \<Longrightarrow> d_stop (pr_pool (begin_deferred d p))"
  by (cases d; simp add: close_stop_def)+

lemma process_exec_inv:
  assumes "process_inv cfg p" and "process_exec e p = Some p'"
  shows "process_inv cfg p'"
proof (cases e)
  case (InPool x)
  then obtain d where "pool_may p x" "pool_exec x (pr_pool p) = Some d" "p' = p\<lparr>pr_pool := d\<rparr>" using assms(2) by (auto split: if_splits)
  moreover from this have "d_stop (pr_pool p) \<and> wg_done (pr_pool p) \<longrightarrow> d_stop d \<and> wg_done d"
    using pool_exec_done pool_may_start by metis
  ultimately show ?thesis using assms(1) by (auto simp: process_inv_def)
next
  case Begins
  then obtain d ds where "pr_main p = AtDeferred (d # ds)" "p' = begin_deferred d p"
    using assms(2) by (auto split: main_at.splits list.splits)
  then show ?thesis using assms(1) by (auto simp: process_inv_def begin_keeps wg_done_def)
next
  case Returns
  then obtain d ds where d: "pr_main p = AtDeferred (d # ds)" "deferred_done d p" "p' = (end_deferred d p)\<lparr>pr_main := AtDeferred ds\<rparr>"
    using assms(2) by (auto split: main_at.splits list.splits if_splits)
  then show ?thesis using assms(1) by (cases d) (simp_all add: process_inv_def end_deferred_def)
next
  case RunReturns
  then have "pr_main p = AtDeferred []" "p' = p\<lparr>pr_main := MainExited\<rparr>" using assms(2) by (auto split: main_at.splits list.splits)
  then show ?thesis using assms(1) by (auto simp: process_inv_def)
next
  case Signal
  then have "pr_main p = AtSignal" and p': "p' = p\<lparr>pr_main := AtShutdown, pr_listener := (if pr_listener p = Listening then ListenClosed else pr_listener p)\<rparr>"
    using assms(2) by (simp_all split: if_splits)
  then show ?thesis using assms(1) unfolding p' process_inv_def by (cases "pr_listener p") simp_all
next
  case (Ended b)
  then have "pr_main p = AtShutdown" and p': "p' = p\<lparr>pr_main := AtDeferred (rev (pr_defers p))\<rparr>" using assms(2) by (simp_all split: if_splits)
  then show ?thesis using assms(1) unfolding p' process_inv_def by simp
next
  case ListenFails
  then have "pr_listener p = Listening" and p': "p' = p\<lparr>pr_listener := ListenFailed, pr_called := insert 0 (pr_called p)\<rparr>"
    using assms(2) by (simp_all split: if_splits)
  then show ?thesis using assms(1) unfolding p' process_inv_def by simp
next
  case Accepts
  then have p': "p' = p\<lparr>pr_requests := Suc (pr_requests p)\<rparr>" using assms(2) by (simp split: if_splits)
  show ?thesis using assms(1) unfolding p' process_inv_def by simp
next
  case Answers
  then have p': "p' = p\<lparr>pr_requests := pr_requests p - 1\<rparr>" using assms(2) by (simp split: if_splits)
  show ?thesis using assms(1) unfolding p' process_inv_def by simp
next
  case RelayTicks
  then have "pr_relay p = RelayWaits" and p': "p' = p\<lparr>pr_relay := RelayDrains\<rparr>" using assms(2) by (simp_all split: if_splits)
  then show ?thesis using assms(1) unfolding p' process_inv_def by simp
next
  case RelayBack
  then have "pr_relay p = RelayDrains" and p': "p' = p\<lparr>pr_relay := RelayWaits\<rparr>" using assms(2) by (simp_all split: if_splits)
  then show ?thesis using assms(1) unfolding p' process_inv_def by simp
next
  case RelayExits
  then have p': "p' = p\<lparr>pr_relay := RelayGone\<rparr>" using assms(2) by (simp split: if_splits)
  show ?thesis using assms(1) unfolding p' process_inv_def by simp
qed

lemma serve_inv: "process_inv cfg (serve redis cfg sv)"
  by (simp add: process_inv_def serve_def run_defers_order split: option.split)

lemma process_runs_inv:
  assumes "process_runs p es p'" and "process_inv cfg p"
  shows "process_inv cfg p' \<and> pr_defers p' = pr_defers p"
  using assms by (induction rule: process_runs.induct) (auto dest: process_exec_inv process_exec_keeps)

text \<open>The calls that have returned, in every state that is reached.\<close>

lemma ran_prefix: "process_inv cfg p \<Longrightarrow> \<exists>rest. rev (pr_defers p) = pr_ran p @ rest"
  by (cases "pr_main p") (auto simp: process_inv_def intro: sym)

lemma ran_in_order: "process_inv cfg p \<Longrightarrow> precedes d e (rev (pr_defers p)) \<Longrightarrow> e \<in> set (pr_ran p) \<Longrightarrow> d \<in> set (pr_ran p)"
  using ran_prefix precedes_prefix by metis

lemma serve_ran_in_order:
  assumes "process_runs (serve redis cfg sv) es p" and "e \<in> {StoreClose, CloseConns, LeaseClose, RunCancel}" and "e \<in> set (pr_ran p)"
  shows "wg_done (pr_pool p) \<and> pr_relay p = RelayGone"
proof -
  have inv: "process_inv cfg p" "pr_defers p = run_defers redis cfg sv"
    using process_runs_inv [OF assms(1) serve_inv] by (simp_all add: serve_def)
  have stop: "DispatcherStop \<in> set (pr_ran p)" using ran_in_order [OF inv(1)] run_defers_order(2) [OF assms(2)] assms(3) inv(2) by metis
  moreover have "pr_relay p = RelayGone"
  proof (rule ccontr)
    assume g: "pr_relay p \<noteq> RelayGone"
    then have "RelayStop \<in> set (run_defers redis cfg sv)" using inv by (simp add: process_inv_def)
    then have "RelayStop \<in> set (pr_ran p)" using ran_in_order [OF inv(1)] run_defers_order(3) stop inv(2) by metis
    then show False using inv(1) g by (simp add: process_inv_def)
  qed
  ultimately show ?thesis using inv(1) by (simp add: process_inv_def)
qed

section \<open>Properties of the process\<close>

text \<open>C21: nothing is closed under those who use it: in every reachable state of the process, as long as a worker has not exited the pool of
  connections to the store, the connections to the partners and the Redis client are open, and as long as the relay has not exited the
  store and the publisher are open; what has been closed was closed in the reverse order of its opening.\<close>

theorem no_use_after_close:
  assumes "process_runs (serve redis cfg sv) es p"
  shows "(\<not> wg_done (pr_pool p) \<longrightarrow> set (pr_ran p) \<inter> {StoreClose, CloseConns, LeaseClose} = {}) \<and>
    (pr_relay p \<noteq> RelayGone \<longrightarrow> set (pr_ran p) \<inter> {StoreClose, PubClose} = {}) \<and>
    (\<exists>rest. rev (run_defers redis cfg sv) = pr_ran p @ rest)"
proof -
  have inv: "process_inv cfg p" "pr_defers p = run_defers redis cfg sv"
    using process_runs_inv [OF assms serve_inv] by (simp_all add: serve_def)
  have "PubClose \<in> set (pr_ran p) \<Longrightarrow> pr_relay p = RelayGone"
    using ran_in_order [OF inv(1)] run_defers_order(1) inv by (metis process_inv_def)
  then show ?thesis using serve_ran_in_order [OF assms] ran_prefix [OF inv(1)] inv(2) by auto
qed

text \<open>C22: the shutdown is graceful: unless the listener has failed, the context of the workers is cancelled only after every worker and the
  relay have exited, so no running saga is ever interrupted by it.\<close>

theorem graceful_shutdown:
  assumes "process_runs (serve redis cfg sv) es p" and "ListenFails \<notin> set es" and "cancelled p"
  shows "wg_done (pr_pool p) \<and> pr_relay p = RelayGone"
proof -
  have "pr_listener p \<noteq> ListenFailed"
    using assms(1,2)
  proof (induction "serve redis cfg sv" es p rule: process_runs.induct)
    case runs_nil
    then show ?case by (simp add: serve_def)
  next
    case (runs_step es p1 e p2)
    then have "pr_listener p1 \<noteq> ListenFailed" "e \<noteq> ListenFails" by auto
    then show ?case using runs_step.hyps(4)
      by (cases e) (auto simp: end_deferred_def begin_keeps split: if_splits main_at.splits list.splits)
  qed
  moreover have inv: "process_inv cfg p" using process_runs_inv [OF assms(1) serve_inv] by simp
  ultimately have "RunCancel \<in> set (pr_ran p)" using assms(3) cancelled_iff by (auto simp: process_inv_def)
  then show ?thesis using serve_ran_in_order [OF assms(1), of RunCancel] by simp
qed

section \<open>The process can always shut down\<close>

lemma process_runs_trans:
  assumes "process_runs p1 es' p2" and "process_runs p es p1"
  shows "process_runs p (es @ es') p2"
  using assms
proof (induction rule: process_runs.induct)
  case (runs_step p1 es' q e q')
  then show ?case using process_runs.runs_step [of p "es @ es'" q e q'] by simp
qed simp

text \<open>A way from one state to another on which no event of \<open>E\<close> happens.\<close>

definition leads :: "process_event set \<Rightarrow> ('s, 'p, 'l) process \<Rightarrow> ('s, 'p, 'l) process \<Rightarrow> bool" where
  "leads E p p' \<longleftrightarrow> (\<exists>es. set es \<inter> E = {} \<and> process_runs p es p')"

lemma leads_refl: "leads E p p"
  unfolding leads_def by (intro exI [of _ "[]"]) (simp add: runs_nil)

lemma leads_trans:
  assumes "leads E p p1" and "leads E p1 p2"
  shows "leads E p p2"
proof -
  from assms obtain es es' where "process_runs p es p1" "process_runs p1 es' p2" "set (es @ es') \<inter> E = {}" by (auto simp: leads_def)
  then show ?thesis unfolding leads_def using process_runs_trans by blast
qed

lemma leads_exec: "process_exec e p = Some p' \<Longrightarrow> pr_main p \<noteq> MainExited \<Longrightarrow> e \<notin> E \<Longrightarrow> leads E p p'"
  unfolding leads_def using runs_step [OF runs_nil] by (intro exI [of _ "[e]"]) fastforce

lemma leads_fewer: "leads E p p' \<Longrightarrow> F \<subseteq> E \<Longrightarrow> leads F p p'"
  unfolding leads_def by blast

abbreviation by_itself :: "('s, 'p, 'l) process \<Rightarrow> ('s, 'p, 'l) process \<Rightarrow> bool" where
  "by_itself \<equiv> leads {ListenFails, Signal}"

abbreviation with_signal :: "('s, 'p, 'l) process \<Rightarrow> ('s, 'p, 'l) process \<Rightarrow> bool" where
  "with_signal \<equiv> leads {ListenFails}"

text \<open>How much the workers still have to do before they are gone.\<close>

definition left_of :: "goroutine \<Rightarrow> nat" where
  "left_of g = (case g of Busy x \<Rightarrow> 2 | Idle \<Rightarrow> 1 | Exited \<Rightarrow> 0)"

definition pool_left :: "('s, 'p, 'l) Dispatcher \<Rightarrow> nat" where
  "pool_left d = sum_list (map (left_of \<circ> snd) (d_wg d))"

lemma pool_left_less:
  assumes "g < length (d_wg d)" and "left_of x < left_of (snd (d_wg d ! g))"
  shows "pool_left (d\<lparr>d_wg := (d_wg d)[g := (i, x)]\<rparr>) < pool_left d"
proof -
  let ?ns = "map (left_of \<circ> snd) (d_wg d)"
  have "?ns ! g \<le> sum_list ?ns" using assms(1) by (intro member_le_sum_list) (auto simp: in_set_conv_nth intro!: exI [of _ g])
  moreover have "?ns ! g = left_of (snd (d_wg d ! g))" using assms(1) by simp
  ultimately show ?thesis using assms by (simp add: pool_left_def map_update sum_list_update)
qed

lemma workers_can_exit:
  assumes "d_stop (pr_pool p) \<or> cancelled p" and "pr_main p \<noteq> MainExited"
  shows "\<exists>d. by_itself p (p\<lparr>pr_pool := d\<rparr>) \<and> d_stop d = d_stop (pr_pool p) \<and> wg_done d"
  using assms
proof (induction "pool_left (pr_pool p)" arbitrary: p rule: less_induct)
  case less
  let ?d = "pr_pool p"
  have next_worker: "\<exists>d. by_itself p (p\<lparr>pr_pool := d\<rparr>) \<and> d_stop d = d_stop (pr_pool p) \<and> wg_done d"
    if e: "pool_may p e" "pool_exec e ?d = Some (?d\<lparr>d_wg := (d_wg ?d)[g := (i, x)]\<rparr>)" and g: "g < length (d_wg ?d)" "left_of x < left_of (snd (d_wg ?d ! g))"
    for e g i x
  proof -
    let ?p = "p\<lparr>pr_pool := ?d\<lparr>d_wg := (d_wg ?d)[g := (i, x)]\<rparr>\<rparr>"
    have "process_exec (InPool e) p = Some ?p" using e by simp
    then have "by_itself p ?p" using less.prems(2) by (rule leads_exec) simp
    moreover obtain d where d: "by_itself ?p (?p\<lparr>pr_pool := d\<rparr>)" "d_stop d = d_stop (pr_pool p)" "wg_done d"
      using less.hyps [of ?p] pool_left_less [OF g] less.prems by (auto simp: cancelled_def)
    from d(1) have "by_itself ?p (p\<lparr>pr_pool := d\<rparr>)" by simp
    ultimately show ?thesis using leads_trans d(2,3) by blast
  qed
  show ?case
  proof (cases "wg_done ?d")
    case True
    then show ?thesis using less.prems leads_refl [of _ p] by (intro exI [of _ ?d]) simp
  next
    case False
    then obtain g where g: "g < length (d_wg ?d)" "snd (d_wg ?d ! g) \<noteq> Exited" by (auto simp: wg_done_def in_set_conv_nth)
    obtain i st where st: "d_wg ?d ! g = (i, st)" by fastforce
    show ?thesis
    proof (cases st)
      case Idle
      then show ?thesis using next_worker [of "EvExit (cancelled p) g" g i Exited] g st less.prems by (auto simp: worker_exit_def left_of_def)
    next
      case (Busy x)
      then show ?thesis using next_worker [of "EvBack g" g i Idle] g st less.prems by (simp add: worker_back_def left_of_def)
    next
      case Exited
      then show ?thesis using g st by simp
    qed
  qed
qed

lemma relay_can_exit:
  assumes "pr_relay_stop p \<or> cancelled p" and "pr_main p \<noteq> MainExited"
  shows "by_itself p (p\<lparr>pr_relay := RelayGone\<rparr>)"
proof -
  have exits: "by_itself q (q\<lparr>pr_relay := RelayGone\<rparr>)" if "pr_relay q = RelayWaits" "pr_relay_stop q \<or> cancelled q" "pr_main q \<noteq> MainExited" for q :: "('a, 'b, 'c) process"
    using that by (intro leads_exec [of RelayExits]) simp_all
  show ?thesis
  proof (cases "pr_relay p")
    case RelayDrains
    then have "by_itself p (p\<lparr>pr_relay := RelayWaits\<rparr>)" using assms(2) by (intro leads_exec [of RelayBack]) simp_all
    then show ?thesis using exits [of "p\<lparr>pr_relay := RelayWaits\<rparr>"] assms leads_trans by (fastforce simp: cancelled_def)
  next
    case RelayGone
    then have "p\<lparr>pr_relay := RelayGone\<rparr> = p" by simp
    then show ?thesis using leads_refl by metis
  qed (use assms exits in simp)
qed

lemma deferred_can_return:
  assumes "pr_main p = AtDeferred (d # ds)"
  shows "\<exists>p'. with_signal p p' \<and> pr_main p' = AtDeferred ds"
proof -
  have begins: "with_signal p (begin_deferred d p)" using assms by (intro leads_exec [of Begins]) simp_all
  have returns: "\<exists>p'. with_signal q p' \<and> pr_main p' = AtDeferred ds" if "pr_main q = AtDeferred (d # ds)" "deferred_done d q" for q :: "('a, 'b, 'c) process"
    using that by (intro exI [of _ "(end_deferred d q)\<lparr>pr_main := AtDeferred ds\<rparr>"]) (simp add: leads_exec [of Returns])
  consider "d = RelayStop" | "d = DispatcherStop" | "deferred_done d p" by (cases d) simp_all
  then show ?thesis
  proof cases
    case 1
    then have "with_signal p (p\<lparr>pr_relay_stop := True, pr_relay := RelayGone\<rparr>)"
      using begins leads_fewer [OF relay_can_exit [of "p\<lparr>pr_relay_stop := True\<rparr>"], of "{ListenFails}"] assms leads_trans by fastforce
    then show ?thesis using returns [of "p\<lparr>pr_relay_stop := True, pr_relay := RelayGone\<rparr>"] assms 1 leads_trans by fastforce
  next
    case 2
    let ?p = "p\<lparr>pr_pool := close_stop (pr_pool p)\<rparr>"
    obtain e where e: "with_signal ?p (?p\<lparr>pr_pool := e\<rparr>)" "d_stop e" "wg_done e"
      using leads_fewer [of "{ListenFails, Signal}" ?p _ "{ListenFails}"] workers_can_exit [of ?p] assms by (auto simp: close_stop_def)
    then have "with_signal p (p\<lparr>pr_pool := e\<rparr>)" using begins 2 leads_trans by fastforce
    then show ?thesis using returns [of "p\<lparr>pr_pool := e\<rparr>"] assms 2 e leads_trans by fastforce
  next
    case 3
    then show ?thesis using returns assms by blast
  qed
qed

lemma deferreds_can_return: "pr_main p = AtDeferred ds \<Longrightarrow> \<exists>p'. with_signal p p' \<and> pr_main p' = MainExited"
proof (induction ds arbitrary: p)
  case Nil
  then show ?case by (intro exI [of _ "p\<lparr>pr_main := MainExited\<rparr>"]) (simp add: leads_exec [of RunReturns])
next
  case (Cons d ds)
  then show ?case using deferred_can_return leads_trans by metis
qed

lemma process_can_go_on:
  fixes p :: "('s, 'p, 'l) process"
  shows "\<exists>p'. with_signal p p' \<and> pr_main p' = MainExited"
proof -
  have shut: "\<exists>p'. with_signal q p' \<and> pr_main p' = MainExited" if "pr_main q = AtShutdown" for q :: "('s, 'p, 'l) process"
  proof -
    let ?q = "q\<lparr>pr_main := AtDeferred (rev (pr_defers q))\<rparr>"
    have "with_signal q ?q" using that by (intro leads_exec [of "Ended True"]) simp_all
    moreover have "\<exists>p'. with_signal ?q p' \<and> pr_main p' = MainExited" by (rule deferreds_can_return) simp
    ultimately show ?thesis using leads_trans by blast
  qed
  show ?thesis
  proof (cases "pr_main p")
    case AtSignal
    let ?q = "p\<lparr>pr_main := AtShutdown, pr_listener := (if pr_listener p = Listening then ListenClosed else pr_listener p)\<rparr>"
    have "with_signal p ?q" using AtSignal by (intro leads_exec [of Signal]) simp_all
    with shut [of ?q] show ?thesis using leads_trans by fastforce
  qed (use shut deferreds_can_return leads_refl in blast)+
qed


text \<open>C24: a listener that fails, because the port is taken for example, does not end the process: its workers and the relay stop by
  themselves, but until a signal comes the main goroutine waits, nothing is accepted and nothing is closed.\<close>

theorem listen_failure_idles:
  assumes "process_runs (serve redis cfg sv) es p" and "Signal \<notin> set es" and "pr_listener p = ListenFailed"
  shows "(\<exists>es' p'. process_runs p es' p' \<and> Signal \<notin> set es' \<and> wg_done (pr_pool p') \<and> pr_relay p' = RelayGone) \<and>
    (\<forall>es' p'. process_runs p es' p' \<longrightarrow> Signal \<notin> set es' \<longrightarrow> pr_main p' = AtSignal \<and> Accepts \<notin> set es' \<and> pr_ran p' = [])"
proof -
  have waits: "pr_main p' = AtSignal \<and> (pr_listener p1 = ListenFailed \<longrightarrow> pr_listener p' = ListenFailed \<and> Accepts \<notin> set es')"
    if "process_runs p1 es' p'" "Signal \<notin> set es'" "pr_main p1 = AtSignal" for p1 p' :: "('a, 'b, 'c) process" and es'
    using that
  proof (induction rule: process_runs.induct)
    case (runs_step p1 es' q e q')
    then have "pr_main q = AtSignal" "pr_listener p1 = ListenFailed \<longrightarrow> pr_listener q = ListenFailed \<and> Accepts \<notin> set es'" "e \<noteq> Signal" by auto
    then show ?case using runs_step.hyps(3) by (cases e) (auto split: if_splits)
  qed simp
  have main: "pr_main p = AtSignal" using waits [OF assms(1,2)] by (simp add: serve_def)
  have inv: "process_inv cfg p" using process_runs_inv [OF assms(1) serve_inv] by simp
  have c: "cancelled p" using inv assms(3) cancelled_iff by (auto simp: process_inv_def)
  obtain d where d: "by_itself p (p\<lparr>pr_pool := d\<rparr>)" "wg_done d" using workers_can_exit [of p] c main by auto
  have "by_itself (p\<lparr>pr_pool := d\<rparr>) (p\<lparr>pr_pool := d, pr_relay := RelayGone\<rparr>)"
    using relay_can_exit [of "p\<lparr>pr_pool := d\<rparr>"] c main by (simp add: cancelled_def)
  then have "by_itself p (p\<lparr>pr_pool := d, pr_relay := RelayGone\<rparr>)" using d(1) leads_trans by blast
  then have "\<exists>es' p'. process_runs p es' p' \<and> Signal \<notin> set es' \<and> wg_done (pr_pool p') \<and> pr_relay p' = RelayGone"
    unfolding leads_def using d(2) by fastforce
  moreover have "pr_ran p' = []" if "process_runs p es' p'" "Signal \<notin> set es'" for es' p'
    using process_runs_inv [OF that(1) inv] waits [OF that main] by (simp add: process_inv_def)
  ultimately show ?thesis using waits [OF _ _ main] assms(3) by blast
qed

section \<open>Where the configured log level applies\<close>

text \<open>\<open>net/http\<close> derives the context of a request from \<open>Background\<close>, with cancel functions of its own; \<open>withRequestID\<close> adds the
  id of the response header.\<close>

definition handler_context :: "request \<Rightarrow> uuid \<Rightarrow> nat \<Rightarrow> go_context" where
  "handler_context r fresh i = WithRequestID (WithCancel (Suc i) Background) (withRequestID r fresh)"

lemma log_level_scope:
  "logging_From (pr_ctx (serve redis cfg sv)) = logging_New (LogLevel cfg)"
  "logging_From (handler_context r fresh i) = DefaultLogger"
  "Enabled (logging_From (handler_context r fresh i)) LevelInfo"
  "RequestIDFrom (handler_context r fresh i) = withRequestID r fresh"
  "RequestIDFrom (pr_ctx (serve redis cfg sv)) = ''''"
  "\<not> ctx_done {0} (handler_context r fresh i)"
  by (simp_all add: serve_def run_context_def handler_context_def context_simps)

section \<open>A development server shuts down\<close>

text \<open>Runs as a function of the events, for concrete processes.\<close>

definition play :: "process_event list \<Rightarrow> ('s, 'p, 'l) process \<Rightarrow> ('s, 'p, 'l) process option" where
  "play es p = foldl (\<lambda>q e. case q of None \<Rightarrow> None | Some q \<Rightarrow> if pr_main q = MainExited then None else process_exec e q) (Some p) es"

lemma play_runs: "play es p = Some p' \<Longrightarrow> process_runs p es p'"
proof (induction es arbitrary: p' rule: rev_induct)
  case Nil
  then show ?case by (simp add: play_def runs_nil)
next
  case (snoc e es)
  then obtain q where "play es p = Some q" "pr_main q \<noteq> MainExited" "process_exec e q = Some p'"
    by (auto simp: play_def split: option.splits if_splits)
  then show ?case using snoc.IH runs_step by blast
qed

definition demo_process :: "(mem_store, unit \<times> Stub, string \<rightharpoonup> string, string) server \<Rightarrow> (mem_store, unit \<times> Stub, string \<rightharpoonup> string) process" where
  "demo_process s = serve (\<lambda>_. map_client) (load_config dev_env) s"

theorem no_use_after_close_witness:
  "\<exists>s p. demo_run dev_env = Serving (Inl s) \<and> process_runs (demo_process s) [Accepts, Signal, Ended True] p \<and>
     pr_requests p = 1 \<and> (\<exists>rest. rev (run_defers (\<lambda>_. map_client) (load_config dev_env) s) = pr_ran p @ rest)"
proof -
  obtain s where s: "demo_run dev_env = Serving (Inl s)" using dev_serves by blast
  obtain p where "play [Accepts, Signal, Ended True] (demo_process s) = Some p" "pr_requests p = 1"
    by (simp add: play_def demo_process_def serve_def)
  then have p: "process_runs (demo_process s) [Accepts, Signal, Ended True] p" "pr_requests p = 1" by (simp_all add: play_runs)
  from no_use_after_close [OF p(1) [unfolded demo_process_def]] p s show ?thesis by auto
qed

theorem graceful_shutdown_witness:
  "\<exists>s es p. demo_run dev_env = Serving (Inl s) \<and> process_runs (demo_process s) es p \<and> cancelled p \<and> wg_done (pr_pool p)"
proof -
  obtain s where s: "demo_run dev_env = Serving (Inl s)" using dev_serves by blast
  obtain p where "with_signal (demo_process s) p" "pr_main p = MainExited" using process_can_go_on by blast
  then obtain es where p: "process_runs (demo_process s) es p" "ListenFails \<notin> set es" "pr_main p = MainExited" by (auto simp: leads_def)
  have inv: "process_inv (load_config dev_env) p" "pr_defers p = run_defers (\<lambda>_. map_client) (load_config dev_env) s"
    using process_runs_inv [OF p(1) [unfolded demo_process_def] serve_inv] by (simp_all add: serve_def)
  then have "cancelled p"
    using p(3) run_defers_order(4) [of "\<lambda>_. map_client" "load_config dev_env" s] cancelled_iff by (auto simp: process_inv_def)
  with graceful_shutdown [OF p(1,2) [unfolded demo_process_def]] p(1) s show ?thesis by blast
qed


theorem listen_failure_idles_witness:
  "\<exists>s p p' es'. demo_run dev_env = Serving (Inl s) \<and> process_runs (demo_process s) [ListenFails] p \<and> process_runs p es' p' \<and>
     wg_done (pr_pool p') \<and> pr_main p' = AtSignal \<and> pr_ran p' = []"
proof -
  obtain s where s: "demo_run dev_env = Serving (Inl s)" using dev_serves by blast
  obtain p where "play [ListenFails] (demo_process s) = Some p" "pr_listener p = ListenFailed"
    by (simp add: play_def demo_process_def serve_def)
  then have p: "process_runs (demo_process s) [ListenFails] p" "pr_listener p = ListenFailed" by (simp_all add: play_runs)
  from listen_failure_idles [OF p(1) [unfolded demo_process_def] _ p(2)] p(1) s show ?thesis by auto
qed

end
