(* ===== verification/Orchctl.thy ===== *)
theory Orchctl
  imports Server
begin

text \<open>
  The operator's command, \<open>cmd/orchctl/main.go\<close>: its subcommands, the parsing of flags (Go's package \<open>flag\<close>), the calls of
  the REST API and the dry-run replay. The HTTP client is a parameter: it takes a request and answers with a status code and a body.
  What is printed is left out.
\<close>

section \<open>Flags\<close>

datatype flag_kind = StringFlag | BoolFlag

text \<open>The result of \<open>Parse\<close> with \<open>ExitOnError\<close>: the flags that were set, with booleans as \<open>true\<close> or \<open>false\<close>, or the end of the process.\<close>

datatype parsed = Flags "string \<rightharpoonup> string" | FlagExit int

definition ParseBool :: "string \<Rightarrow> bool option" where
  "ParseBool s =
     (if s \<in> {''1'', ''t'', ''T'', ''true'', ''TRUE'', ''True''} then Some True
      else if s \<in> {''0'', ''f'', ''F'', ''false'', ''FALSE'', ''False''} then Some False else None)"

definition bool_text :: "bool \<Rightarrow> string" where
  "bool_text b = (if b then ''true'' else ''false'')"

fun parse_flags :: "(string \<Rightarrow> flag_kind option) \<Rightarrow> string list \<Rightarrow> (string \<rightharpoonup> string) \<Rightarrow> parsed" where
  "parse_flags kinds [] vals = Flags vals"
| "parse_flags kinds (s # args) vals =
     (if length s < 2 \<or> hd s \<noteq> CHR ''-'' then Flags vals
      else if s = ''--'' then Flags vals
      else
        (let body = (if s ! 1 = CHR ''-'' then drop 2 s else drop 1 s) in
         if body = '''' \<or> hd body = CHR ''-'' \<or> hd body = CHR ''='' then FlagExit 2
         else
           (let name = takeWhile (\<lambda>c. c \<noteq> CHR ''='') body; has_value = (CHR ''='' \<in> set body); v = drop (length name + 1) body in
            case kinds name of
              None \<Rightarrow> FlagExit (if name = ''help'' \<or> name = ''h'' then 0 else 2)
            | Some BoolFlag \<Rightarrow>
                (if has_value then
                   (case ParseBool v of None \<Rightarrow> FlagExit 2 | Some b \<Rightarrow> parse_flags kinds args (vals(name \<mapsto> bool_text b)))
                 else parse_flags kinds args (vals(name \<mapsto> ''true'')))
            | Some StringFlag \<Rightarrow>
                (if has_value then parse_flags kinds args (vals(name \<mapsto> v))
                 else (case args of [] \<Rightarrow> FlagExit 2 | x # rest \<Rightarrow> parse_flags kinds rest (vals(name \<mapsto> x)))))))"

definition flag_value :: "(string \<rightharpoonup> string) \<Rightarrow> string \<Rightarrow> string \<Rightarrow> string" where
  "flag_value vals name def = (case vals name of None \<Rightarrow> def | Some v \<Rightarrow> v)"

section \<open>Calls of the API\<close>

record http_request =
  hr_method :: string
  hr_url :: string
  hr_content_type :: string
  hr_authorization :: string
  hr_body :: "string option"

type_synonym 'w http_client = "http_request \<Rightarrow> ('w, int \<times> string) go"

definition envOr :: "environment \<Rightarrow> string \<Rightarrow> string \<Rightarrow> string" where
  "envOr env k def = (let v = os_Getenv env k in if v \<noteq> '''' then v else def)"

text \<open>An error of \<open>http.NewRequest\<close> is an error of the client here.\<close>

definition postJSON :: "'w http_client \<Rightarrow> string \<Rightarrow> string option \<Rightarrow> ('w, unit) go" where
  "postJSON client url b w =
     (case client \<lparr>hr_method = ''POST'', hr_url = url,
             hr_content_type = (if b \<noteq> None then ''application/json'' else ''''), hr_authorization = '''', hr_body = b\<rparr> w of
        (Inl err, w') \<Rightarrow> (Inl err, w')
      | (Inr (code, respBody), w') \<Rightarrow>
          if 400 \<le> code then (Inl (ErrorString (''HTTP '' @ fmt_d code @ '': '' @ trim_space respBody)), w')
          else (Inr (), w'))"

text \<open>A subcommand returns an error or nil, or ends the process while it parses its flags.\<close>

datatype cli = CliReturns "go_error option" | CliExits int

definition to_cli :: "go_error + unit \<Rightarrow> cli" where
  "to_cli r = CliReturns (case r of Inl err \<Rightarrow> Some err | Inr _ \<Rightarrow> None)"

definition default_url :: string where
  "default_url = ''http://localhost:8080''"

definition retryCmd :: "'w http_client \<Rightarrow> environment \<Rightarrow> string list \<Rightarrow> 'w \<Rightarrow> cli \<times> 'w" where
  "retryCmd client env args w =
     (case parse_flags [''tx-id'' \<mapsto> StringFlag, ''step'' \<mapsto> StringFlag, ''url'' \<mapsto> StringFlag] args Map.empty of
        FlagExit n \<Rightarrow> (CliExits n, w)
      | Flags vals \<Rightarrow>
          (let txID = flag_value vals ''tx-id'' ''''; step = flag_value vals ''step'' '''';
               apiURL = flag_value vals ''url'' (envOr env ''ORCHESTRATOR_URL'' default_url)
           in if txID = '''' \<or> step = '''' then (CliReturns (Some (ErrorString ''--tx-id and --step are required'')), w)
              else apfst to_cli (postJSON client (apiURL @ ''/v1/transactions/'' @ txID @ ''/retry'')
                     (Some (''{'' @ [dquote] @ ''step'' @ [dquote] @ '':'' @ fmt_q step @ ''}'')) w)))"

definition compensateCmd :: "'w http_client \<Rightarrow> environment \<Rightarrow> string list \<Rightarrow> 'w \<Rightarrow> cli \<times> 'w" where
  "compensateCmd client env args w =
     (case parse_flags [''tx-id'' \<mapsto> StringFlag, ''url'' \<mapsto> StringFlag] args Map.empty of
        FlagExit n \<Rightarrow> (CliExits n, w)
      | Flags vals \<Rightarrow>
          (let txID = flag_value vals ''tx-id'' '''';
               apiURL = flag_value vals ''url'' (envOr env ''ORCHESTRATOR_URL'' default_url)
           in if txID = '''' then (CliReturns (Some (ErrorString ''--tx-id is required'')), w)
              else apfst to_cli (postJSON client (apiURL @ ''/v1/transactions/'' @ txID @ ''/compensate'') None w)))"

section \<open>Replay\<close>

definition seed_tx :: "Transaction \<Rightarrow> time \<Rightarrow> Transaction" where
  "seed_tx tx now = \<lparr>tx_ID = '''', tx_TxID = tx_TxID tx, tx_UserID = tx_UserID tx, tx_QuoteID = tx_QuoteID tx, tx_Amount = tx_Amount tx,
     tx_Asset = tx_Asset tx, tx_Rail = tx_Rail tx, tx_DestAddress = tx_DestAddress tx, tx_Status = StateCreated,
     tx_CreatedAt = now, tx_UpdatedAt = now, tx_Version = 1\<rparr>"

definition seed_event :: "string \<Rightarrow> uuid \<Rightarrow> time \<Rightarrow> OutboxEvent" where
  "seed_event txID ev now = tx_event ev txID ''transaction.created'' Map.empty now"

definition replay_clients :: "Stub Clients" where
  "replay_clients = \<lparr>cl_Policy = Some \<lparr>Evaluate = stub_Evaluate\<rparr>,
     cl_Payment = Some \<lparr>Authorize = stub_Authorize, Capture = stub_Capture,
       VoidAuthorization = stub_VoidAuthorization, Refund = stub_Refund\<rparr>,
     cl_Kyt = Some \<lparr>Screen = stub_Screen\<rparr>, cl_Mpc = Some \<lparr>Sign = stub_Sign\<rparr>,
     cl_Blockchain = Some \<lparr>Broadcast = stub_Broadcast, Status = stub_Status\<rparr>,
     cl_Ledger = Some \<lparr>PostDoubleEntry = stub_PostDoubleEntry\<rparr>,
     cl_Audit = Some \<lparr>Record = stub_Record\<rparr>\<rparr>"

definition matched :: "StepRow list \<Rightarrow> StepRow \<Rightarrow> bool" where
  "matched replayed ps = list_ex (\<lambda>rs. row_StepName rs = row_StepName ps \<and> row_Status rs = StepSucceeded) replayed"

definition replay_mismatch :: "StepRow list \<Rightarrow> StepRow list \<Rightarrow> bool" where
  "replay_mismatch persisted replayed = list_ex (\<lambda>ps. row_Status ps = StepSucceeded \<and> \<not> matched replayed ps) persisted"

text \<open>\<open>pf\<close> bounds the polls of a wait and \<open>fuel\<close> the turns of \<open>Run\<close>. The store of the replay is a fresh \<open>MemStore\<close>; \<open>db\<close> is only read.\<close>

definition replayDryRun ::
  "runtime \<Rightarrow> nat \<Rightarrow> nat \<Rightarrow> (nat \<Rightarrow> uuid) \<Rightarrow> uuid \<Rightarrow> time \<Rightarrow> 's store_ops \<Rightarrow> 's \<Rightarrow> string \<Rightarrow> go_error option outcome"
where
  "replayDryRun rt pf fuel ids ev now ops db txID =
     (case op_LoadTx ops txID db of
        Inl err \<Rightarrow> Returned (Some (errorf_wrap_tail ''load tx: '' err))
      | Inr tx \<Rightarrow>
     (case op_ListSteps ops txID db of
        Inl err \<Rightarrow> Returned (Some (errorf_wrap_tail ''list steps: '' err))
      | Inr persistedSteps \<Rightarrow>
     (case RunInTx mem_ops (op_CreateTx mem_ops ids (seed_tx tx now) (new_steps (tx_TxID tx)) (new_saga (tx_TxID tx))
             [seed_event (tx_TxID tx) ev now]) NewMemStore of
        (Inl err, mem0) \<Rightarrow> Returned (Some (errorf_wrap_tail ''seed: '' err))
      | (Inr _, mem0) \<Rightarrow>
     (case Run rt (NewExecutor rt mem_ops replay_clients DefaultConfig) pf (tx_TxID tx) ''orchctl-replay'' fuel
             \<lparr>w_db = mem0, w_net = \<lparr>net_peers = NewStub DefaultStubConfig, net_tick = 0\<rparr>, w_leases = ()\<rparr> of
        (Panicked m, w) \<Rightarrow> Panicked m
      | (OutOfFuel, w) \<Rightarrow> OutOfFuel
      | (Returned (Some err), w) \<Rightarrow> Returned (Some (errorf_wrap_tail ''replay run: '' err))
      | (Returned None, w) \<Rightarrow>
          (let replayedSteps = (case op_ListSteps mem_ops (tx_TxID tx) (w_db w) of Inl err \<Rightarrow> [] | Inr rows \<Rightarrow> rows) in
           if replay_mismatch persistedSteps replayedSteps then Returned (Some (ErrorString ''replay produced a different step history''))
           else Returned None)))))"

text \<open>The store that \<open>openStore\<close> selects; \<open>pg\<close> is the outcome of \<open>NewPgStore\<close>.\<close>

definition orchctl_openStore :: "go_error option \<Rightarrow> environment \<Rightarrow> go_error + store_choice" where
  "orchctl_openStore pg env =
     (if os_Getenv env ''DB_URL'' = '''' then Inr UseMem else case pg of Some err \<Rightarrow> Inl err | None \<Rightarrow> Inr UsePg)"

definition replayCmd ::
  "(string \<Rightarrow> go_error option outcome) \<Rightarrow> string list \<Rightarrow> cli outcome"
where
  "replayCmd replay args =
     (case parse_flags [''tx-id'' \<mapsto> StringFlag, ''dry-run'' \<mapsto> BoolFlag] args Map.empty of
        FlagExit n \<Rightarrow> Returned (CliExits n)
      | Flags vals \<Rightarrow>
          (if flag_value vals ''tx-id'' '''' = '''' then Returned (CliReturns (Some (ErrorString ''--tx-id is required'')))
           else if flag_value vals ''dry-run'' ''false'' \<noteq> ''true''
           then Returned (CliReturns (Some (ErrorString ''only --dry-run is supported (no-side-effects replay)'')))
           else map_outcome CliReturns (replay (flag_value vals ''tx-id'' ''''))))"

section \<open>Subcommands\<close>

definition orchctl_replay ::
  "runtime \<Rightarrow> nat \<Rightarrow> nat \<Rightarrow> (nat \<Rightarrow> uuid) \<Rightarrow> uuid \<Rightarrow> time \<Rightarrow> go_error option \<Rightarrow> pg_state \<Rightarrow> environment \<Rightarrow> string \<Rightarrow> go_error option outcome"
where
  "orchctl_replay rt pf fuel ids ev now pg db env txID =
     (case orchctl_openStore pg env of
        Inl err \<Rightarrow> Returned (Some err)
      | Inr UseMem \<Rightarrow> replayDryRun rt pf fuel ids ev now mem_ops NewMemStore txID
      | Inr UsePg \<Rightarrow> replayDryRun rt pf fuel ids ev now pg_ops db txID)"

definition orchctl_run ::
  "'w http_client \<Rightarrow> (string \<Rightarrow> go_error option outcome) \<Rightarrow> environment \<Rightarrow> string list \<Rightarrow> 'w \<Rightarrow> cli outcome \<times> 'w"
where
  "orchctl_run client replay env args w =
     (case args of
        [] \<Rightarrow> (Returned (CliReturns (Some (ErrorString ''missing subcommand''))), w)
      | cmd # rest \<Rightarrow>
          if cmd = ''retry'' then apfst Returned (retryCmd client env rest w)
          else if cmd = ''compensate'' then apfst Returned (compensateCmd client env rest w)
          else if cmd = ''replay'' then (replayCmd replay rest, w)
          else if cmd \<in> {''-h'', ''--help'', ''help''} then (Returned (CliReturns None), w)
          else (Returned (CliReturns (Some (ErrorString (''unknown subcommand '' @ fmt_q cmd)))), w))"



section \<open>Properties of the replay\<close>

lemma seed_is_creation:
  "seed_tx tx now = new_tx \<lparr>rq_UserID = tx_UserID tx, rq_QuoteID = tx_QuoteID tx, rq_Amount = tx_Amount tx, rq_Asset = tx_Asset tx,
     rq_Rail = tx_Rail tx, rq_DestAddress = tx_DestAddress tx\<rparr> (tx_TxID tx) now"
  by (simp add: seed_tx_def new_tx_def)

lemma replay_cooperates: "cooperative (\<lambda>s. stub_cfg s = DefaultStubConfig) replay_clients"
  by (auto simp: cooperative_def replay_clients_def stub_defs DefaultStubConfig_def Let_def)

lemma seeded:
  obtains mem0 where "mem_CreateTx ids (seed_tx tx now) (new_steps (tx_TxID tx)) (new_saga (tx_TxID tx)) evs NewMemStore = (Inr (), mem0)"
    "under_way (tx_TxID tx) mem0" "remaining (tx_TxID tx) mem0 = StepOrder"
proof -
  obtain mem0 where c: "mem_CreateTx ids (seed_tx tx now) (new_steps (tx_TxID tx)) (new_saga (tx_TxID tx)) evs NewMemStore = (Inr (), mem0)"
    by (simp add: mem_CreateTx_def NewMemStore_def)
  note created = c [unfolded seed_is_creation]
  have "remaining (tx_TxID tx) mem0 = StepOrder"
    using created_stored(1) [OF created] by (auto dest: remaining_stored simp: steps_from_def StepOrder_def)
  with c created_under_way [OF created] that show thesis by blast
qed

lemma succeeded_matched:
  "succeeded txID st T \<Longrightarrow> row_StepName ps = st \<Longrightarrow> matched (ms_steps T txID) ps"
  by (auto simp: succeeded_def matched_def list_ex_iff row_at_def row_is_def dest!: find_row_Some)

text \<open>C17: a dry-run replay always agrees with the record: it replays against stubs that accept everything, so once the transaction and its
  steps can be loaded it returns no error, whatever the recorded history of the saga is.\<close>

theorem replay_always_agrees:
  assumes "op_LoadTx ops txID db = Inr tx" and "op_ListSteps ops txID db = Inr rows"
    and "\<forall>r \<in> set rows. row_Status r = StepSucceeded \<longrightarrow> row_StepName r \<in> set StepOrder" and "0 < pf" and "7 \<le> fuel"
  shows "replayDryRun rt pf fuel ids ev now ops db txID = Returned None"
proof -
  obtain mem0 where seed: "mem_CreateTx ids (seed_tx tx now) (new_steps (tx_TxID tx)) (new_saga (tx_TxID tx)) [seed_event (tx_TxID tx) ev now] NewMemStore = (Inr (), mem0)"
    and way: "under_way (tx_TxID tx) mem0" and left: "remaining (tx_TxID tx) mem0 = StepOrder" by (rule seeded)
  let ?w = "\<lparr>w_db = mem0, w_net = \<lparr>net_peers = NewStub DefaultStubConfig, net_tick = 0\<rparr>, w_leases = ()\<rparr> :: (mem_store, Stub, unit) world"
  have "\<exists>w' sg. Run rt (NewExecutor rt mem_ops replay_clients DefaultConfig) pf (tx_TxID tx) ''orchctl-replay'' fuel ?w = (Returned None, w') \<and>
      ms_sagas (w_db w') (tx_TxID tx) = Some sg \<and> sg_State sg = StateCompleted \<and>
      (\<forall>st. st \<in> set (remaining (tx_TxID tx) (w_db ?w)) \<or> succeeded (tx_TxID tx) st (w_db ?w) \<longrightarrow> succeeded (tx_TxID tx) st (w_db w'))"
    by (rule cooperative_Run [OF replay_cooperates _ assms(4)])
      (use way assms(5) steps_left_le [of "tx_TxID tx" mem0] in \<open>simp_all add: DefaultConfig_def NewStub_def\<close>)
  then obtain w' where w': "Run rt (NewExecutor rt mem_ops replay_clients DefaultConfig) pf (tx_TxID tx) ''orchctl-replay'' fuel ?w = (Returned None, w')"
    "\<And>st. st \<in> set StepOrder \<Longrightarrow> succeeded (tx_TxID tx) st (w_db w')" using left by auto
  have "\<not> replay_mismatch rows (ms_steps (w_db w') (tx_TxID tx))"
    using assms(3) w'(2) succeeded_matched by (fastforce simp: replay_mismatch_def list_ex_iff)
  then show ?thesis
    using assms(1,2) seed w'(1) by (simp add: replayDryRun_def RunInTx_mem_eta mem_ListSteps_def)
qed

text \<open>A failed saga: its payment was captured and refunded, the ledger never reached.\<close>

definition failed_db :: mem_store where
  "failed_db = NewMemStore\<lparr>ms_txs := [''tx-1'' \<mapsto> demo_tx\<lparr>tx_Status := StateFailedCompensated\<rparr>],
     ms_steps := (\<lambda>_. [(demo_row StepPolicy)\<lparr>row_Status := StepSucceeded\<rparr>, (demo_row StepPayment)\<lparr>row_Status := StepCompensated\<rparr>])\<rparr>"

theorem replay_always_agrees_witness:
  "replayDryRun demo_rt 1 7 (\<lambda>_. ''u'') ''e'' 5 mem_ops failed_db ''tx-1'' = Returned None"
  by (rule replay_always_agrees [where tx = "demo_tx\<lparr>tx_Status := StateFailedCompensated\<rparr>" and rows = "ms_steps failed_db ''tx-1''"])
    (auto simp: mem_LoadTx_def mem_ListSteps_def failed_db_def demo_row_def StepOrder_def)

section \<open>Against a server that checks tokens\<close>

text \<open>The client reaches the handler of a server at \<open>base\<close>: it passes on the verb, the path, the \<open>Authorization\<close> header and
  the body.\<close>

definition body_text :: "string option \<Rightarrow> string" where
  "body_text b = (case b of None \<Rightarrow> '''' | Some x \<Rightarrow> x)"

definition reaches ::
  "('s, 'q, 'c) api_state http_client \<Rightarrow> string \<Rightarrow> (byte list \<Rightarrow> go_error) \<Rightarrow> string \<times> bool \<Rightarrow> ('s, 'q, 'c) Service \<Rightarrow> bool"
where
  "reaches client base json_err secret svc \<longleftrightarrow>
     (\<forall>hr st path. hr_url hr = base @ path \<longrightarrow>
        (\<exists>r. rq_verb r = hr_method hr \<and> rq_path r = path \<and> rq_authorization r = hr_authorization hr \<and> rq_body r = body_text (hr_body hr) \<and>
           (\<forall>rs st'. Mux json_err secret svc r st = Proceeds (rs, st') \<longrightarrow> (\<exists>reply. client hr st = (Inr (rs_code rs, reply), st')))))"

lemma postJSON_unauthorized:
  assumes "reaches client base json_err (secret, False) svc" and "path \<notin> skipPaths"
  shows "\<exists>err. postJSON client (base @ path) b st = (Inl err, st)"
proof -
  let ?hr = "\<lparr>hr_method = ''POST'', hr_url = base @ path,
             hr_content_type = (if b \<noteq> None then ''application/json'' else ''''), hr_authorization = '''', hr_body = b\<rparr>"
  obtain r where r: "rq_path r = path" "rq_authorization r = ''''"
    "\<And>rs st'. Mux json_err (secret, False) svc r st = Proceeds (rs, st') \<Longrightarrow> \<exists>reply. client ?hr st = (Inr (rs_code rs, reply), st')"
    using assms(1) unfolding reaches_def by (metis http_request.select_convs(2,4))
  have "\<not> has_prefix '''' ''Bearer ''" by (simp add: has_prefix_iff)
  then have "Mux json_err (secret, False) svc r st =
      Proceeds (writeJSON 401 (UnauthorizedBody ''missing or malformed Authorization header''), st)"
    using r(1,2) assms(2) by (simp add: Mux_def Middleware_def)
  from r(3) [OF this] obtain reply where "client ?hr st = (Inr (401, reply), st)" by (auto simp: writeJSON_def)
  then show ?thesis by (simp add: postJSON_def)
qed

text \<open>C39: the command cannot talk to a server that checks tokens: with a secret configured, \<open>orchctl retry\<close> and \<open>orchctl compensate\<close> sent to it
  always return an error, and the server's state does not change.\<close>

theorem orchctl_cannot_authenticate:
  assumes "reaches client base json_err (secret, False) svc" and "os_Getenv env ''ORCHESTRATOR_URL'' = base" and "base \<noteq> ''''"
    and "args = [''retry'', ''--tx-id'', i, ''--step'', s] \<or> args = [''compensate'', ''--tx-id'', i]" and "i \<noteq> ''''" and "s \<noteq> ''''"
  shows "\<exists>err. orchctl_run client replay env args st = (Returned (CliReturns (Some err)), st)"
proof -
  have url: "envOr env ''ORCHESTRATOR_URL'' default_url = base" using assms(2,3) by (simp add: envOr_def Let_def)
  have "base @ ''/v1/transactions/'' @ i @ ''/retry'' = base @ (''/v1/transactions/'' @ i @ ''/retry'')" by simp
  have skip: "''/v1/transactions/'' @ x \<notin> skipPaths" for x by (simp add: skipPaths_def)
  note refused = postJSON_unauthorized [OF assms(1) skip, simplified]
  from assms(4) show ?thesis
  proof
    assume "args = [''retry'', ''--tx-id'', i, ''--step'', s]"
    then show ?thesis
      using refused [of "i @ ''/retry''" "Some (''{'' @ [dquote] @ ''step'' @ [dquote] @ '':'' @ fmt_q s @ ''}'')" st] url assms(5,6)
      by (auto simp: orchctl_run_def retryCmd_def flag_value_def to_cli_def Let_def)
  next
    assume "args = [''compensate'', ''--tx-id'', i]"
    then show ?thesis
      using refused [of "i @ ''/compensate''" None st] url assms(5)
      by (auto simp: orchctl_run_def compensateCmd_def flag_value_def to_cli_def Let_def)
  qed
qed

text \<open>A client connected to the model's own handler.\<close>

definition direct_client ::
  "string \<Rightarrow> (byte list \<Rightarrow> go_error) \<Rightarrow> string \<times> bool \<Rightarrow> ('s, 'q, 'c) Service \<Rightarrow> ('s, 'q, 'c) api_state http_client"
where
  "direct_client base json_err secret svc hr st =
     (case Mux json_err secret svc \<lparr>rq_verb = hr_method hr, rq_path = drop (length base) (hr_url hr), rq_authorization = hr_authorization hr,
             rq_request_id = '''', rq_body = body_text (hr_body hr), rq_order = field_order, rq_fresh = ''f'', rq_now = 0, rq_event_id = ''e'',
             rq_ids = (\<lambda>_. ''u'')\<rparr> st of
        Blocks \<Rightarrow> (Inl (ErrorString ''timeout''), st)
      | Proceeds (rs, st') \<Rightarrow> (Inr (rs_code rs, ''''), st'))"

lemma direct_client_reaches: "reaches (direct_client base json_err secret svc) base json_err secret svc"
proof -
  have "\<exists>r. rq_verb r = hr_method hr \<and> rq_path r = path \<and> rq_authorization r = hr_authorization hr \<and> rq_body r = body_text (hr_body hr) \<and>
      (\<forall>rs st'. Mux json_err secret svc r st = Proceeds (rs, st') \<longrightarrow>
        (\<exists>reply. direct_client base json_err secret svc hr st = (Inr (rs_code rs, reply), st')))"
    if "hr_url hr = base @ path" for hr st path
    by (rule exI [of _ "\<lparr>rq_verb = hr_method hr, rq_path = drop (length base) (hr_url hr), rq_authorization = hr_authorization hr,
             rq_request_id = '''', rq_body = body_text (hr_body hr), rq_order = field_order, rq_fresh = ''f'', rq_now = 0, rq_event_id = ''e'',
             rq_ids = (\<lambda>_. ''u'')\<rparr>"]) (simp add: that direct_client_def)
  then show ?thesis unfolding reaches_def by blast
qed

theorem orchctl_cannot_authenticate_witness:
  "\<exists>err. orchctl_run (direct_client ''http://o:8080'' (\<lambda>_. ErrorString ''json'') (''s'', False) demo_service) (\<lambda>_. Returned None)
     [''ORCHESTRATOR_URL'' \<mapsto> ''http://o:8080''] [''compensate'', ''--tx-id'', ''tx-1''] \<lparr>as_db = NewMemStore, as_quotes = (), as_control = ()\<rparr> =
     (Returned (CliReturns (Some err)), \<lparr>as_db = NewMemStore, as_quotes = (), as_control = ()\<rparr>)"
  by (rule orchctl_cannot_authenticate [OF direct_client_reaches, where i = "''tx-1''" and s = "''KYT''"]) (simp_all add: os_Getenv_def)

section \<open>Against a server that does not check tokens\<close>

lemma retry_route:
  assumes "CHR ''/'' \<notin> set i" and "i \<noteq> ''''"
  shows "Mux_route ''POST'' (''/v1/transactions/'' @ i @ ''/retry'') = RetryRoute i"
proof -
  have "split_on (CHR ''/'') (strings_Join ''/'' ['''', ''v1'', ''transactions'', i, ''retry'']) = ['''', ''v1'', ''transactions'', i, ''retry'']"
    using assms by (intro split_join) auto
  then have "split_on (CHR ''/'') (''/v1/transactions/'' @ i @ ''/retry'') = ['''', ''v1'', ''transactions'', i, ''retry'']" by simp
  then show ?thesis using assms(2) by (simp add: Mux_route_def Let_def)
qed

lemma handleRetry_answers:
  assumes "svc_Control svc = Some (worker_control rt ex)" and "ex_Store ex = svc_Store svc" and "op_LoadSagaState (svc_Store svc) i db = Inr sg"
  shows "Terminal (sg_State sg) \<Longrightarrow> \<exists>msg. handleRetry svc i step (db, d, n, l) = Proceeds (writeErr 409 msg, (db, d, n, l))"
    and "\<not> Terminal (sg_State sg) \<Longrightarrow> Submit SendCase i d = Some d' \<Longrightarrow>
      \<exists>st. handleRetry svc i step (db, d, n, l) = Proceeds (writeJSON 202 (RetryBody ''retry-accepted'' st), (db, d', n, l))"
  using assms by (auto simp: handleRetry_def worker_control_def Retry_def Submit_open_def simp del: Submit.simps)



end
