(* ===== verification/Divergences.thy ===== *)
theory Divergences
  imports Orchctl
begin

text \<open>
  Where the code and what is said of it differ: each lemma shows, on the model, what the code does. The properties of the other theories
  show further ones (the refund after a delivery, the ledger before the confirmation, the delivery at most once, the foreign keys of the
  schema, the listener that fails, the release of a lease).
\<close>

section \<open>The store\<close>

text \<open>\<open>RunInTx\<close> is documented as all or nothing (\<open>store.go\<close>); on \<open>MemStore\<close> a closure that fails after a write keeps the write.\<close>

lemma mem_keeps_partial_writes:
  "\<exists>s'. RunInTx mem_ops (thenE (op_AppendOutbox mem_ops (\<lambda>_. ''id'') [tx_event ''e'' ''tx'' ''t'' Map.empty 0]) (errE err)) NewMemStore = (Inl err, s') \<and>
     s' \<noteq> NewMemStore"
  by (simp add: mem_AppendOutbox_def NewMemStore_def thenE_def bindE_def errE_def)

text \<open>The error of \<open>AppendOutbox\<close> is ignored (\<open>saga.go\<close>); on Postgres the failed statement has aborted the transaction, so the commit fails and
  what was written before the event is lost with it.\<close>

lemma pg_ignored_append_loses_writes:
  assumes "write s = (Inr (), s1)" and "op_AppendOutbox pg_ops ids evs s1 = (Inl err, s2)" and "pg_aborted s2"
  shows "\<exists>e. RunInTx pg_ops (thenE write (ignE (op_AppendOutbox pg_ops ids evs) (okE ()))) s = (Inl e, s)"
  using assms by (simp add: RunInTx_def thenE_def bindE_def ignE_def okE_def pg_ops_def pg_Commit_def)

lemma pg_append_failure_aborts:
  assumes "\<not> pg_aborted s" and "pg_AppendOutbox ids evs s = (Inl err, s')"
  shows "pg_aborted s'"
  using assms
proof (induction ids evs s rule: pg_AppendOutbox.induct)
  case (2 ids e es s)
  obtain r s1 where x: "exec (insert_event (fill_event (ids 0) (ids 1) e)) s = (r, s1)" by (metis surj_pair)
  show ?case
  proof (cases r)
    case (Inl er)
    then show ?thesis using 2(2,3) x
      by (auto simp: bindE_def exec_def pg_Exec_def insert_event_def split: if_splits)
  next
    case (Inr u)
    then have "\<not> pg_aborted s1" using 2(2) x by (auto simp: exec_def pg_Exec_def insert_event_def split: if_splits)
    then show ?thesis using 2(1) 2(3) x Inr by (simp add: bindE_def)
  qed
qed simp

text \<open>The row that an attempt writes when it ends has no start time (\<open>saga.go\<close>), and the update takes it over.\<close>

lemma finished_row_drops_start:
  assumes "mem_UpdateStep (finished_row txID st status k at msg) T = (Inr (), T')"
  shows "\<exists>r. row_at txID st k T' = Some r \<and> row_StartedAt r = None"
  using mem.row_at_UpdateStep [of txID st k "finished_row txID st status k at msg" T] mem.UpdateStep_ok [of "finished_row txID st status k at msg" T] assms
  by (auto simp: finished_row_def zero_row_def)

section \<open>Steps and retries\<close>

text \<open>A failed attempt stores nothing of its result in the saga: the \<open>auth_id\<close> that \<open>payment_step.go\<close> returns with a failed capture is dropped,
  and without the ids a compensation of the payment does nothing.\<close>

lemma failed_attempt_stores_nothing:
  assumes "ex_Store e = mem_ops" and "stored txID (sc_Tx sc) (sc_Saga sc) (w_db w)" and "runStepOnce rt e step sc w = (Inl err, w')"
  shows "ms_sagas (w_db w') txID = Some (sc_Saga sc)"
  using mem.runStepOnce_guarded [OF assms(1) _ assms(3), of txID] assms(2) by (simp add: guarded_def quiet_step_def stored_def)

lemma compensation_without_ids:
  assumes "sg_Payload (sc_Saga sc) ''auth_id'' = None" and "sg_Payload (sc_Saga sc) ''capture_id'' = None"
  shows "PaymentStep_Compensate (Some c) sc n = (Inr (), n)"
  using assms by (simp add: PaymentStep_Compensate_def payload_string_def)

text \<open>A partner cannot tell two attempts of a step apart, as no request carries the attempt or its idempotency key (the six \<open>*_step.go\<close>); and an
  attempt that was interrupted before its row was finished calls the partner again when the saga is recovered (\<open>saga.go\<close>). The keys of the rows
  alone therefore do not exclude a second capture or broadcast, which the README says they do.\<close>

lemma attempts_indistinguishable:
  assumes "step \<in> set (ex_Steps (NewExecutor rt ops c cfg))"
  shows "Execute step ((sc :: 'a SagaContext)\<lparr>sc_Attempt := k\<rparr>) n = Execute step sc n"
proof -
  have same: "sc_Tx (sc\<lparr>sc_Attempt := k\<rparr>) = sc_Tx sc" "sc_Saga (sc\<lparr>sc_Attempt := k\<rparr>) = sc_Saga sc" for sc :: "'a SagaContext"
    by simp_all
  have "PolicyStep_Execute a (sc\<lparr>sc_Attempt := k\<rparr>) n = PolicyStep_Execute a sc n" "PaymentStep_Execute b (sc\<lparr>sc_Attempt := k\<rparr>) n = PaymentStep_Execute b sc n"
    "KytStep_Execute d (sc\<lparr>sc_Attempt := k\<rparr>) n = KytStep_Execute d sc n" "MpcSignStep_Execute f (sc\<lparr>sc_Attempt := k\<rparr>) n = MpcSignStep_Execute f sc n"
    "BroadcastStep_Execute g (sc\<lparr>sc_Attempt := k\<rparr>) n = BroadcastStep_Execute g sc n" "LedgerStep_Execute h (sc\<lparr>sc_Attempt := k\<rparr>) n = LedgerStep_Execute h sc n"
    for a b d f g h and sc :: "'a SagaContext" and n
    unfolding PolicyStep_Execute_def PaymentStep_Execute_def KytStep_Execute_def MpcSignStep_Execute_def BroadcastStep_Execute_def
      LedgerStep_Execute_def same by (rule refl)+
  then show ?thesis using assms
    by (auto simp: NewExecutor_def NewPolicyStep_def NewPaymentStep_def NewKytStep_def NewMpcSignStep_def NewBroadcastStep_def NewLedgerStep_def)
qed

lemma interrupted_attempt_runs_again:
  assumes "row_at txID st k T = Some r" and "row_Status r = StepRunning"
  shows "\<exists>T'. begin_attempt mem_ops txID st k now u T = (Inr False, T')"
proof -
  obtain q T' where u: "mem_UpdateStep (running_row txID st k now) T = (q, T')" by (metis surj_pair)
  moreover have "q = Inr ()"
    using mem.UpdateStep_ok [of "running_row txID st k now" T] assms(1) u by (cases q) (auto simp: running_row_def zero_row_def)
  ultimately show ?thesis using assms by (simp add: begin_attempt_def mem_LoadStep_row_at thenE_def bindE_def okE_def)
qed

text \<open>Only a failed attempt is written to the audit log (\<open>saga.go\<close>): one that succeeds is the same without an audit client, although the README
  asks for a record of every transition.\<close>

lemma success_not_audited:
  assumes "runStepOnce rt e step sc w = (Inr (), w')"
  shows "runStepOnce rt (e\<lparr>ex_Clients := map_option (\<lambda>c. c\<lparr>cl_Audit := a\<rparr>) (ex_Clients e)\<rparr>) step sc w = (Inr (), w')"
  using assms by (auto simp: runStepOnce_def Let_def split: prod.splits sum.splits bool.splits option.splits if_splits)

text \<open>A policy decision that is neither allow nor deny passes (\<open>policy_step.go\<close>).\<close>

lemma unknown_policy_decision_passes:
  assumes "rpc (Evaluate c \<lparr>plr_TxID = tx_TxID (sc_Tx sc), plr_UserID = tx_UserID (sc_Tx sc), plr_QuoteID = tx_QuoteID (sc_Tx sc),
      plr_Amount = tx_Amount (sc_Tx sc), plr_Asset = tx_Asset (sc_Tx sc), plr_Rail = tx_Rail (sc_Tx sc),
      plr_DestAddress = tx_DestAddress (sc_Tx sc)\<rparr>) n = (Inr \<lparr>pls_Decision = PolicyOther d, pls_Reason = why\<rparr>, n')"
  shows "\<exists>res. Execute (NewPolicyStep (Some c)) sc n = ((res, None), n') \<and> res_State res = StatePolicyChecked"
  using assms by (simp add: NewPolicyStep_def PolicyStep_Execute_def)

text \<open>A base backoff of one nanosecond makes \<open>backoff\<close> panic (\<open>saga.go\<close>); the environment cannot set it.\<close>

lemma backoff_can_panic: "backoff (DefaultConfig\<lparr>cfg_BaseBackoff := 1\<rparr>) 1 rnd = None"
  by (simp add: backoff_def DefaultConfig_def)

text \<open>A context that is cancelled during a backoff ends the attempts with the error of the context, and the turn then compensates the saga
  instead of leaving it to the recovery.\<close>

lemma cancelled_backoff_compensates:
  assumes "ex_Store e = mem_ops" and "stored txID tx sg (w_db w)" and "\<not> Terminal (sg_State sg)"
    and "StepByName e (sg_CurrentStep sg) = Some step" and "0 < cfg_MaxRetries (ex_Cfg e)"
    and "Acquire (ex_Lease e) txID owner (wrap64 (cfg_StepTimeout (ex_Cfg e) (step_string (Name step)) + 5 * second)) (w_leases w) = (Inr True, l)"
    and "runStepOnce rt e step \<lparr>sc_Tx = tx, sc_Saga = sg, sc_Attempt = 1, sc_Partners = ex_Clients e\<rparr> (w\<lparr>w_leases := l\<rparr>) = (Inl err, w1)"
    and "\<not> IsNonRetriable (Some err)" and "backoff (ex_Cfg e) 1 (rt_rand rt (net_tick (w_net w1))) \<noteq> None"
    and "w_wait rt w1 = (Some cerr, w2)"
  shows "\<exists>w3. w_db w3 = w_db w1 \<and>
    run_turn rt e pf txID owner w = (case compensateCascade rt e txID (Name step) w3 of (r, w4) \<Rightarrow> (Stop (Returned r), w4))"
proof -
  let ?sc = "\<lparr>sc_Tx = tx, sc_Saga = sg, sc_Attempt = 1, sc_Partners = ex_Clients e\<rparr>"
  obtain m where m: "nat (cfg_MaxRetries (ex_Cfg e)) = Suc m" using assms(5) by (metis zero_less_nat_eq gr0_conv_Suc)
  have "?sc\<lparr>sc_Attempt := 1\<rparr> = ?sc" by simp
  then have "runStepWithRetry rt e step ?sc (w\<lparr>w_leases := l\<rparr>) = (Returned (Some cerr), w2)"
    using assms(7-10) by (auto simp: runStepWithRetry_def m retry_loop.simps split: option.splits)
  then have "run_turn rt e pf txID owner w =
      (case compensateCascade rt e txID (Name step) (w2\<lparr>w_leases := Release (ex_Lease e) txID owner (w_leases w2)\<rparr>) of
         (r, w4) \<Rightarrow> (Stop (Returned r), w4))"
    using assms(1-4,6) by (simp add: run_turn_def mem_LoadTx_def mem_LoadSagaState_def stored_def Let_def split: prod.split)
  moreover have "w_db (w2\<lparr>w_leases := Release (ex_Lease e) txID owner (w_leases w2)\<rparr>) = w_db w1"
    using assms(10) by (simp add: w_wait_fst)
  ultimately show ?thesis by blast
qed

text \<open>\<open>Run\<close> always passes a lease time of its own, so the configured one is not used (\<open>saga.go\<close>): it only counts for a time that is not positive.\<close>

lemma configured_ttl_unused: "0 < ttl \<Longrightarrow> lease_ttl l ttl = ttl"
  by (simp add: lease_ttl_def)

section \<open>The API\<close>

text \<open>A creation leaves the dispatcher alone (\<open>api.go\<close>): the new saga waits for a retry or for the next recovery.\<close>

lemma create_submits_nothing:
  assumes "Mux json_err sec svc r st = Proceeds (rs, st')" and "rq_verb r = ''POST''" and "rq_path r = ''/v1/transactions''"
  shows "as_control st' = as_control st"
proof -
  have "Mux_route (rq_verb r) (rq_path r) = CreateRoute" by (simp add: assms(2,3) Mux_route_def Let_def)
  then show ?thesis using assms(1) by (auto simp: Mux_def serve_route_def split: auth_decision.splits prod.splits)
qed

end
