(* ===== verification/Contended_Store.thy ===== *)
theory Contended_Store
  imports System
begin

text \<open>
  Sharing one \<open>MemStore\<close> between goroutines, at the grain at which they really interleave. The mutex of \<open>store/store.go\<close> is taken by each method
  and released when it returns, and \<open>memTx\<close> has no isolation, so between any two calls of one goroutine the others may have done anything.
  \<open>contended_ops\<close> is the store as one goroutine sees it: before each of its writes the others make their moves, and its loads
  see the store at some point of these. It is a third implementation of \<open>store_ops\<close>, so the executor, the poller, the relay and the API run on it
  as they are. A log, which no operation reads, keeps who did what.
\<close>

section \<open>The store as one goroutine sees it\<close>

text \<open>\<open>rv_moves n T\<close>: the states that the others lead the store through, from \<open>T\<close>, before the goroutine's write number \<open>n\<close>;
  \<open>rv_tx\<close>, \<open>rv_saga\<close>, \<open>rv_step\<close>: how many of these moves a load of a transaction, a saga or a step row before that write sees.\<close>

record rivals =
  rv_moves :: "nat \<Rightarrow> mem_store \<Rightarrow> mem_store list"
  rv_tx :: "nat \<Rightarrow> nat"
  rv_saga :: "nat \<Rightarrow> nat"
  rv_step :: "nat \<Rightarrow> nat"

text \<open>An entry of the log: whether the goroutine itself acted, and the store before and after.\<close>

type_synonym act = "bool \<times> mem_store \<times> mem_store"

record contended =
  ct_db :: mem_store
  ct_tick :: nat
  ct_log :: "act list"

definition path :: "rivals \<Rightarrow> contended \<Rightarrow> mem_store list" where
  "path rv c = ct_db c # rv_moves rv (ct_tick c) (ct_db c)"

definition glimpse :: "(nat \<Rightarrow> nat) \<Rightarrow> rivals \<Rightarrow> contended \<Rightarrow> mem_store" where
  "glimpse seen rv c = path rv c ! min (seen (ct_tick c)) (length (path rv c) - 1)"

fun moves_of :: "mem_store list \<Rightarrow> act list" where
  "moves_of (x # y # zs) = (False, x, y) # moves_of (y # zs)"
| "moves_of _ = []"

text \<open>One call of a method that writes: the others move, then the method runs under the mutex.\<close>

definition access :: "rivals \<Rightarrow> (mem_store, 'a) go \<Rightarrow> (contended, 'a) go" where
  "access rv m c =
     (let T = last (path rv c) in
      case m T of (r, T') \<Rightarrow>
        (r, \<lparr>ct_db = T', ct_tick = Suc (ct_tick c), ct_log = ct_log c @ moves_of (path rv c) @ [(True, T, T')]\<rparr>))"

definition contended_ops :: "rivals \<Rightarrow> contended store_ops" where
  "contended_ops rv = \<lparr>
     op_LoadTx = (\<lambda>i c. mem_LoadTx i (glimpse (rv_tx rv) rv c)),
     op_LoadSagaState = (\<lambda>i c. mem_LoadSagaState i (glimpse (rv_saga rv) rv c)),
     op_ListSteps = (\<lambda>i c. mem_ListSteps i (glimpse (rv_step rv) rv c)),
     op_ListOutboxPending = (\<lambda>n c. mem_ListOutboxPending n (glimpse (rv_tx rv) rv c)),
     op_ListInflightSagaIDs = (\<lambda>order c. mem_ListInflightSagaIDs order (glimpse (rv_saga rv) rv c)),
     op_CreateTx = (\<lambda>ids t steps g evs. access rv (mem_CreateTx ids t steps g evs)),
     op_UpdateStep = (\<lambda>row. access rv (mem_UpdateStep row)),
     op_InsertStep = (\<lambda>u row. access rv (mem_InsertStep u row)),
     op_UpdateTransactionStatus = (\<lambda>now i st v. access rv (mem_UpdateTransactionStatus now i st v)),
     op_SaveSagaState = (\<lambda>g. access rv (mem_SaveSagaState g)),
     op_LoadStep = (\<lambda>i st k c. mem_LoadStep i st k (glimpse (rv_step rv) rv c)),
     op_AppendOutbox = (\<lambda>_ evs. access rv (mem_AppendOutbox evs)),
     op_MarkOutboxPublished = (\<lambda>ids at. access rv (mem_MarkOutboxPublished ids at)),
     op_ClaimOutboxPending = (\<lambda>n. access rv (mem_ClaimOutboxPending n)),
     op_Commit = (\<lambda>pre post. (Inr (), post)),
     op_Rollback = (\<lambda>pre post. post)\<rparr>"

lemma contended_ops_simps [simp]:
  "op_LoadTx (contended_ops rv) i c = mem_LoadTx i (glimpse (rv_tx rv) rv c)"
  "op_LoadSagaState (contended_ops rv) i c = mem_LoadSagaState i (glimpse (rv_saga rv) rv c)"
  "op_LoadStep (contended_ops rv) i st k c = mem_LoadStep i st k (glimpse (rv_step rv) rv c)"
  "op_CreateTx (contended_ops rv) ids t steps g evs = access rv (mem_CreateTx ids t steps g evs)"
  "op_UpdateStep (contended_ops rv) row = access rv (mem_UpdateStep row)"
  "op_InsertStep (contended_ops rv) u row = access rv (mem_InsertStep u row)"
  "op_UpdateTransactionStatus (contended_ops rv) now i status v = access rv (mem_UpdateTransactionStatus now i status v)"
  "op_SaveSagaState (contended_ops rv) g = access rv (mem_SaveSagaState g)"
  "op_AppendOutbox (contended_ops rv) ids evs = access rv (mem_AppendOutbox evs)"
  "op_MarkOutboxPublished (contended_ops rv) is at = access rv (mem_MarkOutboxPublished is at)"
  "op_ClaimOutboxPending (contended_ops rv) n = access rv (mem_ClaimOutboxPending n)"
  by (simp_all add: contended_ops_def)

lemma RunInTx_contended [simp]: "RunInTx (contended_ops rv) fn c = fn c"
  by (simp add: RunInTx_def contended_ops_def split: prod.splits sum.splits)

text \<open>A goroutine that nobody disturbs has \<open>MemStore\<close> for itself: it meets the same contract, so all that is proved of the executor from the
  contract holds for it.\<close>

definition calm :: rivals where
  "calm = \<lparr>rv_moves = \<lambda>_ _. [], rv_tx = \<lambda>_. 0, rv_saga = \<lambda>_. 0, rv_step = \<lambda>_. 0\<rparr>"

lemma calm_view [simp]: "glimpse seen calm c = ct_db c" "path calm c = [ct_db c]"
  by (simp_all add: glimpse_def path_def calm_def)

lemma calm_access: "fst (access calm m c) = fst (m (ct_db c))" "ct_db (snd (access calm m c)) = snd (m (ct_db c))"
  by (simp_all add: access_def Let_def split: prod.splits)

interpretation solo: committing_store "contended_ops calm" ct_db "\<lambda>old new. new" "\<lambda>cur new. new" "\<lambda>u e. e"
  by unfold_locales
    (auto simp: calm_access mem_UpdateStep_tab mem_SaveSagaState_tab, auto simp: contended_ops_def)

lemma undisturbed_run_safe:
  assumes "ex_Store e = contended_ops calm" and "synced txID (ct_db (w_db w))"
  shows "safe_step txID (ct_db (w_db w)) (ct_db (w_db (snd (run_turn rt e pf txID owner w))))"
  using solo.run_turn_safe [OF assms] .

section \<open>Moves that every goroutine may make\<close>

text \<open>The events of the program.\<close>

definition event_types :: "string set" where
  "event_types = {''transaction.created'', ''transaction.confirmed'', ''transaction.FAILED'', ''transaction.FAILED_COMPENSATED''} \<union>
     (\<lambda>st. ''step.'' @ step_string st @ ''.succeeded'') ` set StepOrder"

text \<open>What holds of the tables whenever nobody is inside a method: rows lie under their ids, nothing is without its transaction, and
  only events of the program are announced.\<close>

definition keyed :: "mem_store \<Rightarrow> bool" where
  "keyed T \<longleftrightarrow>
     (\<forall>i tx. ms_txs T i = Some tx \<longrightarrow> tx_TxID tx = i) \<and>
     (\<forall>i g. ms_sagas T i = Some g \<longrightarrow> sg_TxID g = i \<and> ms_txs T i \<noteq> None) \<and>
     (\<forall>i. ms_steps T i \<noteq> [] \<longrightarrow> ms_txs T i \<noteq> None) \<and>
     (\<forall>e \<in> set (ms_outbox T). ms_txs T (ev_TxID e) \<noteq> None \<and> ev_EventType e \<in> event_types)"

text \<open>A write of a saga: the next version, a state that is legal after the old one or a failure, and no entry of the payload lost.\<close>

definition saga_write :: "SagaState \<Rightarrow> SagaState \<Rightarrow> bool" where
  "saga_write g g' \<longleftrightarrow> sg_Version g' = sg_Version g + 1 \<and> (moves_to (sg_State g) (sg_State g') \<or> IsFailure (sg_State g')) \<and>
     dom (sg_Payload g) \<subseteq> dom (sg_Payload g')"

definition tx_write :: "Transaction \<Rightarrow> Transaction \<Rightarrow> bool" where
  "tx_write tx tx' \<longleftrightarrow> tx_Version tx' = tx_Version tx + 1 \<and> tx_terms tx' = tx_terms tx"

primrec rank :: "OutboxStatus \<Rightarrow> nat" where
  "rank OutboxPending = 0" | "rank OutboxInflight = 1" | "rank OutboxPublished = 2"

definition delivers :: "OutboxEvent \<Rightarrow> OutboxEvent \<Rightarrow> bool" where
  "delivers e e' \<longleftrightarrow> event_core e' = event_core e \<and> rank (ev_Status e) \<le> rank (ev_Status e')"

definition outbox_grows :: "OutboxEvent list \<Rightarrow> OutboxEvent list \<Rightarrow> bool" where
  "outbox_grows os os' \<longleftrightarrow> (\<exists>es evs. os' = es @ evs \<and> list_all2 delivers os es)"

definition lawful :: "mem_store \<Rightarrow> mem_store \<Rightarrow> bool" where
  "lawful T T' \<longleftrightarrow>
     (\<forall>i tx. ms_txs T i = Some tx \<longrightarrow> (\<exists>tx'. ms_txs T' i = Some tx' \<and> (tx' = tx \<or> tx_write tx tx'))) \<and>
     (\<forall>i g. ms_sagas T i = Some g \<longrightarrow> (\<exists>g'. ms_sagas T' i = Some g' \<and> (g' = g \<or> saga_write g g'))) \<and>
     (\<forall>i g'. ms_sagas T i = None \<longrightarrow> ms_sagas T' i = Some g' \<longrightarrow> sg_State g' = StateCreated \<and> sg_Version g' = 1) \<and>
     (\<forall>i st k. find_row st k (ms_steps T i) \<noteq> None \<longrightarrow> find_row st k (ms_steps T' i) \<noteq> None) \<and>
     outbox_grows (ms_outbox T) (ms_outbox T')"

definition good :: "mem_store \<Rightarrow> mem_store \<Rightarrow> bool" where
  "good T T' \<longleftrightarrow> keyed T' \<and> lawful T T'"

lemma delivers_refl [simp]: "delivers e e"
  by (simp add: delivers_def)

lemma all2_delivers_refl [simp]: "list_all2 delivers es es"
  by (simp add: list.rel_refl)

lemma outbox_grows_appendI: "list_all2 delivers os es \<Longrightarrow> outbox_grows os (es @ evs)"
  by (auto simp: outbox_grows_def)

lemma outbox_grows_refl [simp]: "outbox_grows os os"
  using outbox_grows_appendI [of os os "[]"] by simp

lemma delivers_claim: "ev_Status e = OutboxPending \<Longrightarrow> delivers e (e\<lparr>ev_Status := OutboxInflight\<rparr>)"
  by (simp add: delivers_def event_core_def)

lemma delivers_publish: "delivers e (e\<lparr>ev_Status := OutboxPublished, ev_PublishedAt := Some at\<rparr>)"
  by (cases "ev_Status e") (simp_all add: delivers_def event_core_def)

lemma lawful_refl [simp]: "lawful T T"
  by (auto simp: lawful_def)

text \<open>Changes of one table.\<close>

lemma lawful_sagas:
  assumes "ms_sagas T i = Some g" and "saga_write g g'"
  shows "lawful T (T\<lparr>ms_sagas := (ms_sagas T)(i \<mapsto> g')\<rparr>)"
  using assms by (auto simp: lawful_def)

lemma lawful_txs:
  assumes "ms_txs T i = Some tx" and "tx_write tx tx'"
  shows "lawful T (T\<lparr>ms_txs := (ms_txs T)(i \<mapsto> tx')\<rparr>)"
  using assms by (auto simp: lawful_def)

lemma lawful_rows:
  assumes "\<And>st k. find_row st k (ms_steps T i) \<noteq> None \<Longrightarrow> find_row st k rows \<noteq> None"
  shows "lawful T (T\<lparr>ms_steps := (ms_steps T)(i := rows)\<rparr>)"
  using assms by (auto simp: lawful_def)

lemma lawful_outbox:
  assumes "list_all2 delivers (ms_outbox T) es"
  shows "lawful T (T\<lparr>ms_outbox := es @ evs\<rparr>)"
  using assms by (auto simp: lawful_def intro: outbox_grows_appendI)

section \<open>The methods make such moves\<close>

text \<open>What a saved saga needs to have been: somebody's copy of the stored one or of an older one.\<close>

definition outdated :: "SagaState \<Rightarrow> mem_store \<Rightarrow> bool" where
  "outdated g T \<longleftrightarrow> (\<exists>cur. ms_sagas T (sg_TxID g) = Some cur \<and> (cur = g \<or> sg_Version g < sg_Version cur))"

lemma found_row: "find_row st k rows = Some r \<Longrightarrow> rows \<noteq> []"
  by (auto simp: find_row_def)

lemma good_UpdateStep: "keyed T \<Longrightarrow> good T (snd (mem_UpdateStep row T))"
  by (auto simp: good_def mem_UpdateStep_def keyed_def find_replace_row dest: found_row split: option.splits intro!: lawful_rows)

lemma good_InsertStep: "keyed T \<Longrightarrow> ms_txs T (row_TxID row) \<noteq> None \<Longrightarrow> good T (snd (mem_InsertStep u row T))"
  by (auto simp: good_def mem_InsertStep_def keyed_def find_row_append split: option.splits intro!: lawful_rows)

lemma good_UpdateTransactionStatus: "keyed T \<Longrightarrow> good T (snd (mem_UpdateTransactionStatus now i st v T))"
  by (auto simp: good_def mem_UpdateTransactionStatus_def keyed_def split: option.splits intro!: lawful_txs)
    (auto simp: tx_write_def tx_terms_def)

lemma good_SaveSagaState:
  assumes "keyed T" and "outdated g T" and "sg_TxID g' = sg_TxID g" and "saga_write g g'"
  shows "good T (snd (mem_SaveSagaState g' T))"
proof -
  obtain cur where cur: "ms_sagas T (sg_TxID g) = Some cur" "cur = g \<or> sg_Version g < sg_Version cur"
    using assms(2) by (auto simp: outdated_def)
  show ?thesis
  proof (cases "sg_Version cur = sg_Version g' - 1")
    case True
    then have "cur = g" using cur(2) assms(4) by (auto simp: saga_write_def)
    then have g: "ms_sagas T (sg_TxID g') = Some g" using cur(1) assms(3) by simp
    have w: "saga_write g (g'\<lparr>sg_Version := sg_Version g + 1\<rparr>)" using assms(4) by (auto simp: saga_write_def)
    have "snd (mem_SaveSagaState g' T) = T\<lparr>ms_sagas := (ms_sagas T)(sg_TxID g' \<mapsto> g'\<lparr>sg_Version := sg_Version g + 1\<rparr>)\<rparr>"
      using True \<open>cur = g\<close> g by (simp add: mem_SaveSagaState_def)
    then show ?thesis using lawful_sagas [OF g w] assms(1) g by (auto simp: good_def keyed_def)
  next
    case False
    then show ?thesis using cur(1) assms(1,3) by (simp add: mem_SaveSagaState_def good_def)
  qed
qed

lemma good_AppendOutbox:
  assumes "keyed T" and "\<And>e. e \<in> set evs \<Longrightarrow> ms_txs T (ev_TxID e) \<noteq> None \<and> ev_EventType e \<in> event_types"
  shows "good T (snd (mem_AppendOutbox evs T))"
  using assms lawful_outbox [of T "ms_outbox T" evs] by (auto simp: good_def mem_AppendOutbox_def keyed_def)

lemma claim_delivers: "claim_upto limit n es = (c, r) \<Longrightarrow> list_all2 delivers es r"
proof (induction limit n es arbitrary: c r rule: claim_upto.induct)
  case (2 limit n e es)
  then show ?case by (auto simp: Let_def delivers_claim split: if_splits prod.splits)
qed simp

lemma mark_delivers: "list_all2 delivers es (mark_first at i es)"
  by (induction es) (simp_all add: delivers_publish)

lemma delivers_trans: "delivers a b \<Longrightarrow> delivers b c \<Longrightarrow> delivers a c"
  by (auto simp: delivers_def)

lemma marks_deliver: "list_all2 delivers es (fold (mark_first at) is es)"
proof (induction "is" arbitrary: es)
  case (Cons i ids)
  show ?case using list_all2_trans [OF delivers_trans mark_delivers Cons] by simp
qed simp

lemma delivers_kind: "delivers e e' \<Longrightarrow> ev_TxID e' = ev_TxID e \<and> ev_EventType e' = ev_EventType e"
  by (cases e; cases e') (simp add: delivers_def event_core_def)

lemma good_delivery:
  assumes "keyed T" and "list_all2 delivers (ms_outbox T) es"
  shows "good T (T\<lparr>ms_outbox := es\<rparr>)"
proof -
  have "\<exists>e' \<in> set (ms_outbox T). delivers e' e" if "e \<in> set es" for e
    using that assms(2) by (metis in_set_conv_nth list_all2_conv_all_nth)
  then have "keyed (T\<lparr>ms_outbox := es\<rparr>)" using assms(1) delivers_kind by (fastforce simp: keyed_def)
  then show ?thesis using lawful_outbox [OF assms(2), of "[]"] by (simp add: good_def)
qed

lemma good_ClaimOutboxPending: "keyed T \<Longrightarrow> good T (snd (mem_ClaimOutboxPending limit T))"
  by (auto simp: mem_ClaimOutboxPending_def split: prod.splits intro: good_delivery dest: claim_delivers)

lemma good_MarkOutboxPublished: "keyed T \<Longrightarrow> good T (snd (mem_MarkOutboxPublished is at T))"
  by (auto simp: mem_MarkOutboxPublished_def intro: good_delivery marks_deliver)

end
