(* ===== verification/Contended_Run.thy ===== *)
theory Contended_Run
  imports Contended_Store
begin

text \<open>
  The executor, the poller, the relay, the operator and the API on a contended store. What each of them promises is \<open>sound\<close>: its own
  writes are \<open>good\<close> as long as everything that happened before was. Since every goroutine promises it, all writes of
  all of them are good, whatever the interleaving (\<open>interleaving_good\<close>).
\<close>

section \<open>Promises\<close>

definition all_good :: "act list \<Rightarrow> bool" where
  "all_good = list_all (\<lambda>(own, T, T'). good T T')"

text \<open>The goroutine is never the first to do wrong.\<close>

definition faultless :: "act list \<Rightarrow> bool" where
  "faultless log \<longleftrightarrow> (\<forall>xs T T' ys. log = xs @ (True, T, T') # ys \<longrightarrow> all_good xs \<longrightarrow> good T T')"

text \<open>\<open>F\<close> is what the goroutine knows of the store; nobody else can make it untrue.\<close>

definition stable :: "(mem_store \<Rightarrow> bool) \<Rightarrow> bool" where
  "stable F \<longleftrightarrow> (\<forall>T T'. lawful T T' \<longrightarrow> F T \<longrightarrow> F T')"

definition sound :: "rivals \<Rightarrow> (mem_store \<Rightarrow> bool) \<Rightarrow> contended \<Rightarrow> bool" where
  "sound rv F c \<longleftrightarrow> faultless (ct_log c) \<and>
     (all_good (ct_log c) \<longrightarrow> keyed (ct_db c) \<and> (successively good (path rv c) \<longrightarrow> F (last (path rv c))))"

lemma all_good_append [simp]: "all_good (xs @ ys) \<longleftrightarrow> all_good xs \<and> all_good ys"
  by (auto simp: all_good_def)

lemma all_good_simps [simp]: "all_good []" "all_good ((b, T, T') # xs) \<longleftrightarrow> good T T' \<and> all_good xs"
  by (auto simp: all_good_def)

lemma all_good_moves [simp]: "all_good (moves_of p) \<longleftrightarrow> successively good p"
  by (induction p rule: moves_of.induct) auto

lemma moves_of_others: "a \<in> set (moves_of p) \<Longrightarrow> \<not> fst a"
  by (induction p rule: moves_of.induct) auto

lemma faultless_snoc: "faultless (xs @ [(own, T, T')]) \<longleftrightarrow> faultless xs \<and> (own \<longrightarrow> all_good xs \<longrightarrow> good T T')"
proof
  assume f: "faultless (xs @ [(own, T, T')])"
  have "faultless xs" unfolding faultless_def
  proof (intro allI impI)
    fix ys A B zs assume "xs = ys @ (True, A, B) # zs" "all_good ys"
    with f show "good A B" unfolding faultless_def by (metis append.assoc append_Cons)
  qed
  with f show "faultless xs \<and> (own \<longrightarrow> all_good xs \<longrightarrow> good T T')" unfolding faultless_def by blast
next
  assume f: "faultless xs \<and> (own \<longrightarrow> all_good xs \<longrightarrow> good T T')"
  show "faultless (xs @ [(own, T, T')])" unfolding faultless_def
  proof (intro allI impI)
    fix ys A B zs assume eq: "xs @ [(own, T, T')] = ys @ (True, A, B) # zs" and g: "all_good ys"
    show "good A B"
    proof (cases zs rule: rev_cases)
      case Nil
      then show ?thesis using eq f g by simp
    next
      case (snoc us u)
      then have "xs = ys @ (True, A, B) # us" using eq by (metis append_Cons append_assoc butlast_snoc)
      then show ?thesis using f g unfolding faultless_def by blast
    qed
  qed
qed

lemma faultless_others: "(\<And>a. a \<in> set ys \<Longrightarrow> \<not> fst a) \<Longrightarrow> faultless (xs @ ys) \<longleftrightarrow> faultless xs"
proof (induction ys rule: rev_induct)
  case (snoc y ys)
  obtain own T T' where y: "y = (own, T, T')" by (metis prod_cases3)
  have "\<not> own" using snoc.prems [of y] y by simp
  then have "faultless ((xs @ ys) @ [(own, T, T')]) \<longleftrightarrow> faultless (xs @ ys)" by (simp only: faultless_snoc) simp
  then show ?case using snoc y by simp
qed simp

lemma faultless_Nil [simp]: "faultless []"
  by (simp add: faultless_def)

section \<open>What is known stays known\<close>

lemma along_path:
  assumes "successively good p" and "\<And>T T'. good T T' \<Longrightarrow> P T \<Longrightarrow> P T'" and "j < length p" and "P (p ! j)"
  shows "P (last p)"
proof -
  have "P (p ! (j + d))" if "j + d < length p" for d
    using that
  proof (induction d)
    case (Suc d)
    then have "good (p ! (j + d)) (p ! Suc (j + d))" using assms(1) by (simp add: successively_conv_nth)
    then show ?case using Suc assms(2) by simp
  qed (use assms(4) in simp)
  from this [of "length p - 1 - j"] assms(3) show ?thesis by (cases p) (auto simp: last_conv_nth)
qed

lemma along_stable: "stable F \<Longrightarrow> good T T' \<Longrightarrow> F T \<Longrightarrow> F T'"
  by (auto simp: stable_def good_def)

lemma keyed_path:
  assumes "successively good (path rv c)" and "keyed (ct_db c)" and "j < length (path rv c)"
  shows "keyed (path rv c ! j)"
  using assms
proof (induction j)
  case (Suc j)
  then show ?case by (auto simp: successively_conv_nth good_def)
qed (simp add: path_def)

lemma soundI:
  "faultless (ct_log c) \<Longrightarrow>
   (all_good (ct_log c) \<Longrightarrow> keyed (ct_db c) \<and> (successively good (path rv c) \<longrightarrow> F (last (path rv c)))) \<Longrightarrow> sound rv F c"
  by (simp add: sound_def)

lemma sound_access:
  assumes s: "sound rv F c" and F: "stable F" and m: "\<And>T. keyed T \<Longrightarrow> F T \<Longrightarrow> good T (snd (m T))"
  shows "sound rv F (snd (access rv m c))"
proof -
  let ?p = "path rv c"
  obtain r T' where T': "m (last ?p) = (r, T')" by fastforce
  let ?c = "\<lparr>ct_db = T', ct_tick = Suc (ct_tick c), ct_log = ct_log c @ moves_of ?p @ [(True, last ?p, T')]\<rparr>"
  have c': "snd (access rv m c) = ?c" by (simp add: access_def T')
  have own: "good (last ?p) T' \<and> F (last ?p)" if "all_good (ct_log c)" "successively good ?p"
  proof -
    have "keyed (ct_db c)" "F (last ?p)" using s that by (auto simp: sound_def)
    moreover have "keyed (?p ! (length ?p - 1))" by (rule keyed_path) (use that calculation in \<open>auto simp: path_def\<close>)
    then have "keyed (last ?p)" by (metis last_conv_nth list.distinct(1) path_def)
    ultimately show ?thesis using m [of "last ?p"] T' by simp
  qed
  have "faultless ((ct_log c @ moves_of ?p) @ [(True, last ?p, T')])"
    unfolding faultless_snoc
  proof (intro conjI impI)
    show "faultless (ct_log c @ moves_of ?p)" using s by (subst faultless_others) (auto simp: sound_def dest: moves_of_others)
  qed (use own in simp)
  then have "sound rv F ?c"
  proof (intro soundI)
    assume g: "all_good (ct_log ?c)"
    then have g': "good (last ?p) T'" "F (last ?p)" using own by auto
    then have "F T'" by (rule along_stable [OF F])
    moreover have "F (last (path rv ?c))" if "successively good (path rv ?c)" "F T'"
      by (rule along_path [OF that(1), of F 0]) (use that(2) along_stable [OF F] in \<open>auto simp: path_def\<close>)
    ultimately show "keyed (ct_db ?c) \<and> (successively good (path rv ?c) \<longrightarrow> F (last (path rv ?c)))"
      using g'(1) by (simp add: good_def)
  qed simp
  then show ?thesis by (simp add: c')
qed

lemma keeps_access:
  "stable F \<Longrightarrow> (\<And>T. keyed T \<Longrightarrow> F T \<Longrightarrow> good T (snd (m T))) \<Longrightarrow> keeps (sound rv F) (access rv m)"
  by (intro keepsI sound_access)

lemma sound_weaken: "sound rv F c \<Longrightarrow> (\<And>T. F T \<Longrightarrow> G T) \<Longrightarrow> sound rv G c"
  by (auto simp: sound_def)

section \<open>What a load tells\<close>

lemma stable_True [simp]: "stable (\<lambda>_. True)"
  by (simp add: stable_def)

lemma stable_conj: "stable F \<Longrightarrow> stable G \<Longrightarrow> stable (\<lambda>T. F T \<and> G T)"
  by (auto simp: stable_def)

lemma stable_const: "stable (\<lambda>_. b)"
  by (simp add: stable_def)

lemma stable_tx: "stable (\<lambda>T. ms_txs T i \<noteq> None)"
  by (fastforce simp: stable_def lawful_def)

lemma stable_outdated: "stable (outdated g)"
  unfolding stable_def
proof (intro allI impI)
  fix T T' assume l: "lawful T T'" and o: "outdated g T"
  then obtain cur where cur: "ms_sagas T (sg_TxID g) = Some cur" "cur = g \<or> sg_Version g < sg_Version cur" by (auto simp: outdated_def)
  then obtain g' where "ms_sagas T' (sg_TxID g) = Some g'" "g' = cur \<or> saga_write cur g'" using l unfolding lawful_def by blast
  then show "outdated g T'" using cur(2) by (auto simp: outdated_def saga_write_def)
qed

lemmas stable_intros = stable_True stable_conj stable_const stable_tx stable_outdated

lemma sound_glimpse:
  assumes s: "sound rv F c" and G: "stable G" and now: "\<And>T. keyed T \<Longrightarrow> T = glimpse seen rv c \<Longrightarrow> G T"
  shows "sound rv (\<lambda>T. F T \<and> G T) c"
proof -
  let ?p = "path rv c" and ?j = "min (seen (ct_tick c)) (length (path rv c) - 1)"
  have j: "?j < length ?p" by (simp add: path_def)
  have "G (last ?p)" if "keyed (ct_db c)" "successively good ?p"
    by (rule along_path [OF that(2) _ j]) (use along_stable [OF G] now keyed_path [OF that(2,1) j] in \<open>auto simp: glimpse_def\<close>)
  then show ?thesis using s by (auto simp: sound_def)
qed

lemma sound_LoadTx:
  assumes "sound rv F c" and "mem_LoadTx i (glimpse seen rv c) = Inr tx"
  shows "sound rv (\<lambda>T. F T \<and> (tx_TxID tx = i \<and> ms_txs T i \<noteq> None)) c"
  by (rule sound_glimpse [OF assms(1), where seen = seen], intro stable_intros)
    (use assms(2) in \<open>auto simp: mem_LoadTx_def keyed_def split: option.splits\<close>)

lemma sound_LoadSagaState:
  assumes "sound rv F c" and "mem_LoadSagaState i (glimpse seen rv c) = Inr g"
  shows "sound rv (\<lambda>T. F T \<and> (sg_TxID g = i \<and> outdated g T)) c"
  by (rule sound_glimpse [OF assms(1), where seen = seen], intro stable_intros)
    (use assms(2) in \<open>auto simp: mem_LoadSagaState_def keyed_def outdated_def split: option.splits\<close>)

end
