(* ===== verification/Contended_Executor.thy ===== *)
theory Contended_Executor
  imports Contended_Run
begin

text \<open>
  The executor of \<open>internal/saga/saga.go\<close> keeps its promise on a contended store: whatever the others do between its calls, its own writes
  are good. It works on copies of a transaction and a saga that it loaded earlier and that may be outdated; what makes its writes good is
  that \<open>SaveSagaState\<close> refuses a copy that is, so the checked transition is one from the stored state.
\<close>

section \<open>The transactions of the executor\<close>

text \<open>What the executor knows while it works on its copies.\<close>

definition holding :: "string \<Rightarrow> Transaction \<Rightarrow> SagaState \<Rightarrow> mem_store \<Rightarrow> bool" where
  "holding i tx g T \<longleftrightarrow> (tx_TxID tx = i \<and> ms_txs T i \<noteq> None) \<and> (sg_TxID g = i \<and> outdated g T)"

lemma stable_holding [simp, intro]: "stable (holding i tx g)"
  unfolding holding_def by (intro stable_intros)

lemma holdingD: "holding i tx g T \<Longrightarrow> tx_TxID tx = i \<and> ms_txs T i \<noteq> None \<and> sg_TxID g = i \<and> outdated g T"
  by (simp add: holding_def)

text \<open>What is asked of a registered step: its name is one of the six, and a terminal result that comes with an error is a failure.\<close>

definition mannered :: "'p step_impl \<Rightarrow> bool" where
  "mannered step \<longleftrightarrow> Name step \<in> set StepOrder \<and>
     (\<forall>sc n res er n'. Execute step sc n = ((res, Some er), n') \<longrightarrow> res_Terminal res \<longrightarrow> IsFailure (res_State res))"

lemma step_event_type: "st \<in> set StepOrder \<Longrightarrow> ''step.'' @ step_string st @ ''.succeeded'' \<in> event_types"
  unfolding event_types_def by (intro UnI2 imageI)

lemma failure_event_type: "IsFailure st \<Longrightarrow> ''transaction.'' @ state_string st \<in> event_types"
  by (cases st) (auto simp: event_types_def IsFailure_def)

lemma confirmed_event_type: "''transaction.confirmed'' \<in> event_types"
  by (simp add: event_types_def)

lemma event_kind [simp]:
  "ev_TxID (step_event u i t st k s at) = i" "ev_EventType (step_event u i t st k s at) = t"
  "ev_TxID (tx_event u i t p at) = i" "ev_EventType (tx_event u i t p at) = t"
  by (simp_all add: step_event_def tx_event_def)

lemma keeps_Save:
  assumes "sg_TxID g' = sg_TxID g" and "saga_write g g'"
  shows "keeps (sound rv (holding i tx g)) (access rv (mem_SaveSagaState g'))"
  by (rule keeps_access) (use assms in \<open>auto dest: holdingD intro: good_SaveSagaState\<close>)

lemma keeps_Append:
  assumes "t \<in> event_types" and "ev_TxID e = i" "ev_EventType e = t"
  shows "keeps (sound rv (holding i tx g)) (access rv (mem_AppendOutbox [e]))"
  by (rule keeps_access) (use assms in \<open>auto dest!: holdingD intro!: good_AppendOutbox\<close>)

lemma keeps_Status: "keeps (sound rv (holding i tx g)) (access rv (mem_UpdateTransactionStatus now j st v))"
  by (rule keeps_access) (auto intro: good_UpdateTransactionStatus)

lemma keeps_Update: "keeps (sound rv (holding i tx g)) (access rv (mem_UpdateStep row))"
  by (rule keeps_access) (auto intro: good_UpdateStep)

lemma keeps_Insert: "row_TxID row = i \<Longrightarrow> keeps (sound rv (holding i tx g)) (access rv (mem_InsertStep u row))"
  by (rule keeps_access) (auto dest: holdingD intro: good_InsertStep)

lemmas keeps_methods = keeps_Status keeps_Update keeps_thenE keeps_ignE keeps_okE keeps_errE

lemma dom_merge: "dom p \<subseteq> dom (mergePayload p q)"
  by (auto simp: mergePayload_def)

lemma advanced_saga_write:
  assumes "validatePath (sg_State g) (res_State res) (sg_State (advanced_saga g st res)) = None"
  shows "saga_write g (advanced_saga g st res)"
proof -
  have "sg_Version (advanced_saga g st res) = sg_Version g + 1" "sg_Payload (advanced_saga g st res) = mergePayload (sg_Payload g) (res_PayloadMerge res)"
    by (auto simp: advanced_saga_def Let_def split: option.splits)
  then show ?thesis using validatePath_moves [OF assms] dom_merge by (auto simp: saga_write_def)
qed

lemma keeps_persist_success:
  assumes "st \<in> set StepOrder" and "i = tx_TxID (sc_Tx sc)"
  shows "keeps (sound rv (holding i (sc_Tx sc) (sc_Saga sc))) (persist_success (contended_ops rv) st sc res fin now ids)"
  unfolding persist_success_def Let_def contended_ops_simps
  using assms(1)
  by (cases "validatePath (sg_State (sc_Saga sc)) (res_State res) (sg_State (advanced_saga (sc_Saga sc) st res))")
    (auto intro!: keeps_methods keeps_Save keeps_Append [OF step_event_type] advanced_saga_write simp: assms(2))

lemma keeps_persistTerminal:
  assumes "IsFailure (res_State res)" and "i = tx_TxID (sc_Tx sc)"
  shows "keeps (sound rv (holding i (sc_Tx sc) (sc_Saga sc))) (persistTerminal (contended_ops rv) st sc res fin now ids)"
proof -
  let ?g = "terminal_saga (sc_Saga sc) res"
  have "saga_write (sc_Saga sc) ?g" using assms(1) dom_merge by (simp add: saga_write_def terminal_saga_def)
  moreover have "sg_TxID ?g = sg_TxID (sc_Saga sc)" "sg_State ?g = res_State res" by (simp_all add: terminal_saga_def)
  moreover have "keeps P (RunInTx (contended_ops rv) fn) = keeps P fn" for P and fn :: "(contended, unit) go" by (simp add: keeps_def)
  ultimately show ?thesis
    unfolding persistTerminal_def Let_def contended_ops_simps
    by (cases "snd (Transition (sg_State (sc_Saga sc)) (sg_State ?g))")
      (auto intro!: keeps_methods keeps_Save keeps_Append [OF failure_event_type] simp: assms)
qed

lemma keeps_persist_compensation:
  assumes "IsFailure target"
  shows "keeps (sound rv (holding i tx g)) (persist_compensation (contended_ops rv) i tx g target clk ids)"
  unfolding persist_compensation_def Let_def contended_ops_simps
  using assms by (auto intro!: keeps_methods keeps_Save keeps_Append [OF failure_event_type] simp: saga_write_def)

lemma keeps_persist_confirmed:
  "keeps (sound rv (holding i tx g)) (persist_confirmed (contended_ops rv) i tx g clk ids)"
proof (cases "snd (Transition (sg_State g) StateConfirmed)")
  case None
  then have "moves_to (sg_State g) StateConfirmed" by (auto simp: Transition_ok_iff)
  then show ?thesis
    unfolding persist_confirmed_def Let_def contended_ops_simps
    by (auto intro!: keeps_methods keeps_Save keeps_Append [OF confirmed_event_type] simp: saga_write_def None)
qed (simp add: persist_confirmed_def)

lemma begin_attempt_sound:
  assumes "sound rv (holding i tx g) c"
  shows "sound rv (holding i tx g) (snd (begin_attempt (contended_ops rv) i st k now u c))"
proof -
  have row: "row_TxID (running_row i st k now) = i" by (simp add: running_row_def)
  have "keeps (sound rv (holding i tx g)) (thenE (access rv (mem_UpdateStep (running_row i st k now))) (okE False))"
    "keeps (sound rv (holding i tx g)) (thenE (access rv (mem_InsertStep u (running_row i st k now))) (okE False))"
    by (intro keeps_methods keeps_Insert row)+
  from keepsD [OF this(1) assms] keepsD [OF this(2) assms] assms show ?thesis
    unfolding begin_attempt_def contended_ops_simps by (simp split: sum.split)
qed

lemma mark_sound:
  assumes "sound rv (holding i tx g) c"
  shows "sound rv (holding i tx g) (snd (mark_compensating (contended_ops rv) i st c))"
    and "sound rv (holding i tx g) (snd (mark_compensation_failed (contended_ops rv) i st er c))"
    and "sound rv (holding i tx g) (snd (mark_compensated (contended_ops rv) i st c))"
proof -
  have k: "keeps (sound rv (holding i tx g)) (ignE (access rv (mem_UpdateStep r)) (okE ()))" for r by (intro keeps_methods)
  note [simp] = keepsD [OF k assms]
  show "sound rv (holding i tx g) (snd (mark_compensating (contended_ops rv) i st c))"
    unfolding mark_compensating_def contended_ops_simps using assms by (simp split: sum.split)
  show "sound rv (holding i tx g) (snd (mark_compensation_failed (contended_ops rv) i st er c))"
    unfolding mark_compensation_failed_def contended_ops_simps Let_def using assms by simp
  show "sound rv (holding i tx g) (snd (mark_compensated (contended_ops rv) i st c))"
    unfolding mark_compensated_def contended_ops_simps Let_def using assms by simp
qed

section \<open>Attempts, retries, the cascade and the wait\<close>

text \<open>Everything that is not the store leaves the contended store alone.\<close>

lemma on_db_sound:
  "(\<And>c. sound rv F c \<Longrightarrow> sound rv F (snd (f c))) \<Longrightarrow> sound rv F (w_db w) \<Longrightarrow> sound rv F (w_db (snd (on_db f w)))"
  by simp

lemma runStepOnce_sound:
  assumes e: "ex_Store e = contended_ops rv" and m: "mannered step" and i: "i = tx_TxID (sc_Tx sc)"
    and s: "sound rv (holding i (sc_Tx sc) (sc_Saga sc)) (w_db w)"
  shows "sound rv (holding i (sc_Tx sc) (sc_Saga sc)) (w_db (snd (runStepOnce rt e step sc w)))"
proof -
  let ?F = "holding i (sc_Tx sc) (sc_Saga sc)"
  obtain clk ids w1 where w1: "w_stamp rt w = ((clk, ids), w1)" by (metis prod.exhaust)
  then have db1: "w_db w1 = w_db w" by (metis snd_conv w_stamp_db)
  obtain b w2 where w2: "on_db (RunInTx (ex_Store e) (begin_attempt (ex_Store e) i (Name step) (sc_Attempt sc) (clk 0) (ids 0))) w1 = (b, w2)"
    by (metis surj_pair)
  have s2: "sound rv ?F (w_db w2)"
    using begin_attempt_sound [of rv i "sc_Tx sc" "sc_Saga sc" "w_db w1" "Name step" "sc_Attempt sc" "clk 0" "ids 0"] s w2 db1
    by (simp add: e on_db_def split: prod.splits) (metis snd_conv select_convs(1) world.select_convs(1) world.surjective world.update_convs(1))
  obtain res err w3 where w3: "on_net (Execute step sc) w2 = ((res, err), w3)" by (metis prod.exhaust)
  then have db3: "w_db w3 = w_db w2" by (metis on_net_db(1) snd_conv)
  obtain clk' ids' w4 where w4: "w_stamp rt w3 = ((clk', ids'), w4)" by (metis prod.exhaust)
  then have s4: "sound rv ?F (w_db w4)" using s2 db3 by (metis snd_conv w_stamp_db)
  have upd: "keeps (sound rv ?F) (access rv (mem_UpdateStep row))" for row by (rule keeps_Update)
  note fin = keepsD [OF upd s4]
  have st: "Name step \<in> set StepOrder" using m by (simp add: mannered_def)
  note suc = keepsD [OF keeps_persist_success [OF st i] s4]
  have ter: "sound rv ?F (snd (persistTerminal (contended_ops rv) (Name step) sc res (clk' 0) (clk' 1) ids' (w_db w4)))"
    if "err = Some er" "res_Terminal res" for er
  proof (rule keepsD [OF keeps_persistTerminal s4])
    have "\<exists>n'. Execute step sc (w_net w2) = ((res, err), n')" using w3 by (auto simp: on_net_def split: prod.splits)
    then show "IsFailure (res_State res)" using m that unfolding mannered_def by blast
  qed (fact i)
  show ?thesis
    unfolding runStepOnce_def Let_def w1 prod.case
    using s2 s4 w2 w3 w4 fin suc ter
    by (auto simp: e i split: sum.splits bool.splits option.splits prod.splits)
qed

lemma retry_loop_sound:
  assumes e: "ex_Store e = contended_ops rv" and m: "mannered step" and i: "i = tx_TxID (sc_Tx sc)"
    and s: "sound rv (holding i (sc_Tx sc) (sc_Saga sc)) (w_db w)"
  shows "sound rv (holding i (sc_Tx sc) (sc_Saga sc)) (w_db (snd (retry_loop n rt e step sc k lastErr w)))"
  using s
proof (induction n arbitrary: k lastErr w)
  case 0
  then show ?case by (simp add: retry_loop.simps Let_def)
next
  case (Suc n)
  obtain r w1 where w1: "runStepOnce rt e step (sc\<lparr>sc_Attempt := k\<rparr>) w = (r, w1)" by (metis surj_pair)
  have s1: "sound rv (holding i (sc_Tx sc) (sc_Saga sc)) (w_db w1)"
    using runStepOnce_sound [OF e m, of i "sc\<lparr>sc_Attempt := k\<rparr>" w rt] i Suc.prems w1 by simp
  obtain cerr w2 where w2: "w_wait rt w1 = (cerr, w2)" by (metis surj_pair)
  then have "w_db w2 = w_db w1" by (rule w_wait_fst)
  then have s2: "sound rv (holding i (sc_Tx sc) (sc_Saga sc)) (w_db w2)" using s1 by simp
  show ?case using s1 s2 Suc.IH [OF s2] by (auto simp: retry_loop.simps w1 w2 split: sum.splits option.splits)
qed

lemma cascade_loop_sound:
  assumes "sound rv (holding i tx g) (w_db w)"
  shows "sound rv (holding i tx g) (w_db (snd (cascade_loop (contended_ops rv) i sc steps w)))"
  using assms
proof (induction steps arbitrary: w)
  case Nil
  then show ?case by (simp add: cascade_loop.simps)
next
  case (Cons st steps)
  let ?w1 = "snd (on_db (RunInTx (contended_ops rv) (mark_compensating (contended_ops rv) i (Name st))) w)"
  have s1: "sound rv (holding i tx g) (w_db ?w1)" using mark_sound(1) [OF Cons.prems] by simp
  obtain r w2 where w2: "on_net (Compensate st sc) ?w1 = (r, w2)" by (metis surj_pair)
  then have s2: "sound rv (holding i tx g) (w_db w2)" using s1 by (metis on_net_db(1) snd_conv)
  have s3: "sound rv (holding i tx g) (w_db (snd (on_db (RunInTx (contended_ops rv) (mark_compensated (contended_ops rv) i (Name st))) w2)))"
    using mark_sound(3) [OF s2] by simp
  show ?case
    using w2 Cons.IH [OF s3] mark_sound(2) [OF s2]
    by (simp add: cascade_loop.simps Let_def split: sum.split)
qed

lemma compensateCascade_sound:
  assumes e: "ex_Store e = contended_ops rv" and s: "sound rv (\<lambda>_. True) (w_db w)"
  shows "sound rv (\<lambda>_. True) (w_db (snd (compensateCascade rt e i failed w)))"
proof -
  have weak: "sound rv (holding i tx g) c \<Longrightarrow> sound rv (\<lambda>_. True) c" for tx g c by (rule sound_weaken) simp_all
  have fin: "sound rv (\<lambda>_. True) (snd (persist_compensation (contended_ops rv) i tx g tgt clk ids c))"
    if "IsFailure tgt" "sound rv (holding i tx g) c" for tx g tgt clk ids c
    by (rule weak [OF keepsD [OF keeps_persist_compensation [OF that(1)] that(2)]])
  have run: "sound rv (holding i tx g) (w_db w2)"
    if g: "mem_LoadSagaState i (glimpse (rv_saga rv) rv (w_db w)) = Inr g" and tx: "mem_LoadTx i (glimpse (rv_tx rv) rv (w_db w)) = Inr tx"
      and w1: "cascade_loop (contended_ops rv) i sc steps w = (ce, w1)" and w2: "w_stamp rt w1 = (st, w2)" for tx g sc steps ce w1 st w2
  proof -
    have "sound rv (holding i tx g) (w_db w)"
      using sound_LoadTx [OF sound_LoadSagaState [OF s g] tx] by (rule sound_weaken) (simp add: holding_def)
    then have "sound rv (holding i tx g) (w_db w1)" using cascade_loop_sound w1 by (metis snd_conv)
    then show ?thesis using w2 by (metis snd_conv w_stamp_db)
  qed
  show ?thesis
    unfolding compensateCascade_def Let_def
    using s by (auto simp: e IsFailure_def intro!: fin intro: run split: sum.splits option.splits prod.splits)
qed

lemma persistConfirmedInline_sound:
  assumes s: "sound rv (\<lambda>T. F T \<and> (sg_TxID g = i \<and> outdated g T)) (w_db w)"
  shows "sound rv (\<lambda>_. True) (w_db (snd (persistConfirmedInline rt (contended_ops rv) i g w)))"
proof -
  have "sound rv (\<lambda>_. True) (w_db (snd (on_db (RunInTx (contended_ops rv) (persist_confirmed (contended_ops rv) i tx g clk ids)) w1)))"
    if tx: "mem_LoadTx i (glimpse (rv_tx rv) rv (w_db w)) = Inr tx" and w1: "w_stamp rt w = ((clk, ids), w1)" for tx clk ids w1
  proof -
    have "sound rv (holding i tx g) (w_db w)" using sound_LoadTx [OF s tx] by (rule sound_weaken) (simp add: holding_def)
    then have "sound rv (holding i tx g) (w_db w1)" using w1 by (metis snd_conv w_stamp_db)
    from keepsD [OF keeps_persist_confirmed this] show ?thesis by (auto intro: sound_weaken)
  qed
  moreover have "sound rv (\<lambda>_. True) (w_db w)" using s by (rule sound_weaken) simp
  ultimately show ?thesis unfolding persistConfirmedInline_def by (auto split: sum.splits prod.splits)
qed

lemma poll_loop_sound:
  assumes "sound rv (\<lambda>T. F T \<and> (sg_TxID g = i \<and> outdated g T)) (w_db w)"
  shows "sound rv (\<lambda>_. True) (w_db (snd (poll_loop n rt (contended_ops rv) bc i h g w)))"
  using assms
proof (induction n arbitrary: w)
  case 0
  then show ?case by (auto simp: poll_loop.simps intro: sound_weaken)
next
  case (Suc n)
  obtain st w1 where w1: "on_net (rpc (Status bc h)) w = (st, w1)" by (metis surj_pair)
  then have s1: "sound rv (\<lambda>T. F T \<and> (sg_TxID g = i \<and> outdated g T)) (w_db w1)" using Suc.prems by (metis on_net_db(1) snd_conv)
  obtain cerr w2 where w2: "w_wait rt w1 = (cerr, w2)" by (metis surj_pair)
  then have s2: "sound rv (\<lambda>T. F T \<and> (sg_TxID g = i \<and> outdated g T)) (w_db w2)" using s1 w_wait_fst by metis
  have t2: "sound rv (\<lambda>_. True) (w_db w2)" using s2 by (rule sound_weaken) simp
  show ?case
    using Suc.IH [OF s2] t2 persistConfirmedInline_sound [OF s1, of rt] w1 w2
    by (auto simp: poll_loop.simps split: sum.splits prod.splits option.splits)
qed

lemma advanceToConfirmed_sound:
  assumes e: "ex_Store e = contended_ops rv" and s: "sound rv (\<lambda>_. True) (w_db w)"
  shows "sound rv (\<lambda>_. True) (w_db (snd (advanceToConfirmed pf rt e i w)))"
proof -
  have "sound rv (\<lambda>_. True) (w_db (snd (poll_loop pf rt (contended_ops rv) bc i h g w)))"
    if "mem_LoadSagaState i (glimpse (rv_saga rv) rv (w_db w)) = Inr g" for bc h g
    using sound_LoadSagaState [OF s that] by (rule poll_loop_sound)
  then show ?thesis using s unfolding advanceToConfirmed_def Let_def by (auto simp: e split: option.splits sum.splits)
qed

lemma after_step_sound:
  assumes e: "ex_Store e = contended_ops rv" and s: "sound rv (\<lambda>_. True) (w_db w)"
  shows "sound rv (\<lambda>_. True) (w_db (snd (after_step rt e pf i w)))"
  using advanceToConfirmed_sound [OF e s, of pf rt i] s
  by (auto simp: after_step_def Let_def split: prod.splits outcome.splits)

lemma StepByName_mannered: "StepByName e st = Some step \<Longrightarrow> \<forall>s \<in> set (ex_Steps e). mannered s \<Longrightarrow> mannered step"
  by (auto simp: StepByName_def find_Some_iff)

lemma run_turn_sound:
  assumes e: "ex_Store e = contended_ops rv" and m: "\<forall>step \<in> set (ex_Steps e). mannered step"
    and s: "sound rv (\<lambda>_. True) (w_db w)"
  shows "sound rv (\<lambda>_. True) (w_db (snd (run_turn rt e pf i owner w)))"
proof (cases "mem_LoadTx i (glimpse (rv_tx rv) rv (w_db w))")
  case Inl
  then show ?thesis using s by (simp add: run_turn_def e Let_def)
next
  case tx: (Inr tx)
  show ?thesis
  proof (cases "mem_LoadSagaState i (glimpse (rv_saga rv) rv (w_db w))")
    case Inl
    then show ?thesis using s tx by (simp add: run_turn_def e Let_def)
  next
    case g: (Inr g)
    let ?sc = "\<lparr>sc_Tx = tx, sc_Saga = g, sc_Attempt = 1, sc_Partners = ex_Clients e\<rparr>"
    have h: "sound rv (holding i tx g) (w_db w)"
      using sound_LoadSagaState [OF sound_LoadTx [OF s tx] g] by (rule sound_weaken) (simp add: holding_def)
    have wait: "sound rv (\<lambda>_. True) (w_db w1)" if "w_wait rt (w\<lparr>w_leases := l\<rparr>) = (c, w1)" for l c w1
      using s w_wait_fst [OF that] by simp
    have run: "sound rv (\<lambda>_. True) (w_db w1)"
      if "StepByName e (sg_CurrentStep g) = Some step" "runStepWithRetry rt e step ?sc (w\<lparr>w_leases := l\<rparr>) = (r, w1)" for step l r w1
    proof -
      have "sound rv (holding (tx_TxID tx) tx g) (w_db w)" using h by (rule sound_weaken) (auto simp: holding_def)
      then have "sound rv (holding (tx_TxID tx) tx g) (w_db (snd (runStepWithRetry rt e step ?sc (w\<lparr>w_leases := l\<rparr>))))"
        using retry_loop_sound [OF e StepByName_mannered [OF that(1) m], of "tx_TxID tx" ?sc "w\<lparr>w_leases := l\<rparr>"]
        by (simp add: runStepWithRetry_def)
      then show ?thesis unfolding that(2) by (auto intro: sound_weaken)
    qed
    have aft: "sound rv (\<lambda>_. True) (w_db (snd (after_step rt e pf i (w1\<lparr>w_leases := l\<rparr>))))" if "sound rv (\<lambda>_. True) (w_db w1)" for w1 l
      using after_step_sound [OF e, of "w1\<lparr>w_leases := l\<rparr>"] that by simp
    have comp: "sound rv (\<lambda>_. True) (w_db w2)"
      if "compensateCascade rt e i st (w1\<lparr>w_leases := l\<rparr>) = (r, w2)" "sound rv (\<lambda>_. True) (w_db w1)" for w1 l st r w2
      using compensateCascade_sound [OF e, of "w1\<lparr>w_leases := l\<rparr>" rt i st] that by simp
    show ?thesis
      unfolding run_turn_def Let_def
      using s aft
      by (auto simp: e tx g dest!: run wait comp split: option.splits sum.splits prod.splits outcome.splits if_splits)
  qed
qed

end
