(* ===== verification/Contention.thy ===== *)
theory Contention
  imports Contended_Executor
begin

text \<open>
  All goroutines of a server on one \<open>MemStore\<close>, interleaved between any two calls of the store. \<open>activity\<close> says what a goroutine may be doing:
  runs of sagas, requests through the mux, confirmation pollers and drains of the relay, one after the other, in any number. \<open>interleaving\<close> relates
  the goroutines to the one sequence of writes that the store has seen.
\<close>

section \<open>What goroutines do\<close>

text \<open>A goroutine works on its view of the store. Its own partners and leases may be in any state when it starts something.\<close>

type_synonym goroutine_fn = "rivals \<Rightarrow> contended \<Rightarrow> contended"

abbreviation own_store :: "rivals \<Rightarrow> (contended, 'p, 'l) Executor \<Rightarrow> (contended, 'p, 'l) Executor" where
  "own_store rv ex \<equiv> ex\<lparr>ex_Store := contended_ops rv\<rparr>"

abbreviation own_world :: "contended \<Rightarrow> 'p net \<Rightarrow> 'l \<Rightarrow> (contended, 'p, 'l) world" where
  "own_world c n l \<equiv> \<lparr>w_db = c, w_net = n, w_leases = l\<rparr>"

definition own_service ::
  "rivals \<Rightarrow> runtime \<Rightarrow> (contended, 'p, 'l) Executor \<Rightarrow>
   (contended, 'q, (contended, 'p, 'l) Dispatcher \<times> 'p net \<times> 'l) Service \<Rightarrow>
   (contended, 'q, (contended, 'p, 'l) Dispatcher \<times> 'p net \<times> 'l) Service" where
  "own_service rv rt ex svc = svc\<lparr>svc_Store := contended_ops rv, svc_Control := Some (worker_control rt (own_store rv ex))\<rparr>"

inductive activity ::
  "(byte list \<Rightarrow> go_error) \<Rightarrow> string \<times> bool \<Rightarrow> (contended, 'q, (contended, 'p, 'l) Dispatcher \<times> 'p net \<times> 'l) Service \<Rightarrow> runtime \<Rightarrow>
   (contended, 'p, 'l) Executor \<Rightarrow> (contended, 'p) ConfirmPoller \<Rightarrow> (contended, 'b) Relay \<Rightarrow> goroutine_fn \<Rightarrow> bool"
  for json_err sec svc rt ex cp rl
where
  idle: "activity json_err sec svc rt ex cp rl (\<lambda>rv c. c)"
| run: "activity json_err sec svc rt ex cp rl (\<lambda>rv c. w_db (snd (Run rt (own_store rv ex) pf txID owner fuel (own_world c n l))))"
| request: "activity json_err sec svc rt ex cp rl
     (\<lambda>rv c. case Mux json_err sec (own_service rv rt ex svc) r (S\<lparr>as_db := c\<rparr>) of Blocks \<Rightarrow> c | Proceeds (rs, S') \<Rightarrow> as_db S')"
| poll: "activity json_err sec svc rt ex cp rl
     (\<lambda>rv c. w_db (snd (confirm_Run fuel rt (cp\<lparr>cp_Store := contended_ops rv\<rparr>) txID (own_world c n (l :: 'l)))))"
| drain: "activity json_err sec svc rt ex cp rl (\<lambda>rv c. fst (snd (drainOnce (rl\<lparr>rl_Store := contended_ops rv\<rparr>) now (c, b))))"
| followed: "activity json_err sec svc rt ex cp rl f \<Longrightarrow> activity json_err sec svc rt ex cp rl g \<Longrightarrow>
     activity json_err sec svc rt ex cp rl (\<lambda>rv c. g rv (f rv c))"

section \<open>Each keeps its promise\<close>

lemma Run_sound:
  assumes e: "ex_Store e = contended_ops rv" and m: "\<forall>step \<in> set (ex_Steps e). mannered step"
    and s: "sound rv (\<lambda>_. True) (w_db w)"
  shows "sound rv (\<lambda>_. True) (w_db (snd (Run rt e pf i owner fuel w)))"
  using s
proof (induction fuel arbitrary: w)
  case 0
  then show ?case by (simp add: Run.simps)
next
  case (Suc fuel)
  obtain t w1 where w1: "run_turn rt e pf i owner w = (t, w1)" by (metis surj_pair)
  then have "sound rv (\<lambda>_. True) (w_db w1)" using run_turn_sound [OF e m Suc.prems] by (metis snd_conv)
  then show ?case using Suc.IH w1 by (cases t) (simp_all add: Run.simps)
qed

lemma confirm_loop_sound:
  assumes e: "cp_Store cp = contended_ops rv" and s: "sound rv (\<lambda>_. True) (w_db w)"
  shows "sound rv (\<lambda>_. True) (w_db (snd (confirm_loop n rt cp i dl w)))"
  using s
proof (induction n arbitrary: w)
  case 0
  then show ?case by simp
next
  case (Suc n)
  show ?case
  proof (cases "mem_LoadSagaState i (glimpse (rv_saga rv) rv (w_db w))")
    case Inl
    then show ?thesis using Suc.prems by (simp add: e)
  next
    case g: (Inr g)
    let ?h = "payload_string (sg_Payload g) ''tx_hash''"
    obtain st w1 where w1: "on_net (rpc (PollStatus (cp_Client cp) ?h)) w = (st, w1)" by (metis surj_pair)
    then have db1: "w_db w1 = w_db w" by (metis on_net_db(1) snd_conv)
    have pc: "sound rv (\<lambda>_. True) (w_db (snd (persistConfirmedInline rt (contended_ops rv) i g w1)))"
      using persistConfirmedInline_sound [of rv "\<lambda>_. True" g i w1 rt] sound_LoadSagaState [OF Suc.prems g] db1 by simp
    obtain now w2 where w2: "w_now rt w1 = (now, w2)" by (metis surj_pair)
    then have db2: "w_db w2 = w_db w" using w_now_db(1) [of rt w1] db1 by simp
    obtain cerr w3 where w3: "w_wait rt w2 = (cerr, w3)" by (metis surj_pair)
    then have s3: "sound rv (\<lambda>_. True) (w_db w3)" using db2 Suc.prems by (simp add: w_wait_fst)
    show ?thesis
      using Suc.IH [OF s3] Suc.prems pc s3 db2
      by (auto simp: e g w1 w2 w3 Let_def persistConfirmed_inline split: sum.splits prod.splits option.splits)
  qed
qed

lemma drainOnce_sound:
  assumes e: "rl_Store rl = contended_ops rv" and s: "sound rv (\<lambda>_. True) c"
  shows "sound rv (\<lambda>_. True) (fst (snd (drainOnce rl now (c, b))))"
proof -
  have claim: "sound rv (\<lambda>_. True) (snd (access rv (mem_ClaimOutboxPending n) c))" for n
    by (rule sound_access [OF s]) (simp_all add: good_ClaimOutboxPending)
  have mark: "sound rv (\<lambda>_. True) (snd (access rv (mem_MarkOutboxPublished is at) c1))" if "sound rv (\<lambda>_. True) c1" for "is" at c1
    by (rule sound_access [OF that]) (simp_all add: good_MarkOutboxPublished)
  obtain r c1 where c1: "access rv (mem_ClaimOutboxPending (rl_BatchSize rl)) c = (r, c1)" by (metis surj_pair)
  then have s1: "sound rv (\<lambda>_. True) c1" using claim by (metis snd_conv)
  obtain ids b1 where p: "publish_loop rl (case r of Inr evs \<Rightarrow> evs | _ \<Rightarrow> []) b = (ids, b1)" by (metis surj_pair)
  show ?thesis
    using s1 mark [OF s1, of ids now] p
    by (auto simp: drainOnce_def e c1 split: sum.splits prod.splits)
qed

lemma good_CreateTx:
  assumes k: "keyed T"
  shows "good T (snd (mem_CreateTx ids (new_tx req i now) (new_steps i) (new_saga i) [tx_event ev i ''transaction.created'' p at] T))"
proof (cases "ms_txs T i")
  case None
  have id: "tx_TxID (new_tx req i now) = i" by (simp add: new_tx_def)
  let ?e = "with_ev_id (ids (2 + length (new_steps i))) (tx_event ev i ''transaction.created'' p at)"
  have e: "ev_TxID ?e = i" "ev_EventType ?e = ''transaction.created''" by (simp_all add: tx_event_def with_ev_id_def)
  let ?T = "snd (mem_CreateTx ids (new_tx req i now) (new_steps i) (new_saga i) [tx_event ev i ''transaction.created'' p at] T)"
  have T: "ms_txs ?T = (ms_txs T)(i \<mapsto> with_tx_id (ids 0) (new_tx req i now))"
      "ms_sagas ?T = (ms_sagas T)(i \<mapsto> with_sg_id (ids (1 + length (new_steps i))) (new_saga i))"
      "\<And>j. j \<noteq> i \<Longrightarrow> ms_steps ?T j = ms_steps T j" "ms_outbox ?T = ms_outbox T @ [?e]"
    using None by (simp_all add: mem_CreateTx_def id)
  have old: "ms_sagas T i = None" "ms_steps T i = []" using k None by (fastforce simp: keyed_def)+
  have "keyed ?T"
    using k T(3) e unfolding keyed_def T(1,2,4)
    by (auto simp: with_tx_id_def with_sg_id_def new_tx_def new_saga_def event_types_def)
  moreover have "find_row st n (ms_steps ?T j) \<noteq> None" if "find_row st n (ms_steps T j) \<noteq> None" for st n j
    using that old(2) T(3) [of j] by (cases "j = i") (auto simp: find_row_def)
  then have "lawful T ?T"
    using None old(1) unfolding lawful_def T(1,2,4)
    by (auto simp: with_sg_id_def new_saga_def intro: outbox_grows_appendI)
  ultimately show ?thesis by (simp add: good_def)
qed (use k in \<open>simp add: mem_CreateTx_def new_tx_def good_def\<close>)

lemma handleCreate_sound:
  assumes e: "svc_Store svc = contended_ops rv" and s: "sound rv (\<lambda>_. True) c"
  shows "sound rv (\<lambda>_. True) (fst (snd (handleCreate svc order body txID now ev ids (c, q))))"
proof -
  have "sound rv (\<lambda>_. True) (snd (access rv (mem_CreateTx ids (new_tx req txID now) (new_steps txID) (new_saga txID)
      [tx_event ev txID ''transaction.created'' p now]) c))" for req p
    by (rule sound_access [OF s]) (simp_all add: good_CreateTx)
  then show ?thesis
    using s unfolding handleCreate_def Let_def
    by (auto simp: e split: option.splits sum.splits prod.splits) (metis snd_conv)+
qed

lemma Control_Compensate_sound:
  assumes e: "ex_Store (ctl_Executor ctl) = contended_ops rv" and s: "sound rv (\<lambda>_. True) (w_db w)"
  shows "sound rv (\<lambda>_. True) (w_db (snd (Control_Compensate rt ctl i w)))"
  using s compensateCascade_sound [OF e s]
  by (auto simp: Control_Compensate_def CompensateCascade_def split: sum.splits option.splits)

lemma request_sound:
  assumes s: "sound rv (\<lambda>_. True) (as_db S)" and p: "Mux json_err sec (own_service rv rt ex svc) r S = Proceeds (rs, S')"
  shows "sound rv (\<lambda>_. True) (as_db S')"
proof -
  let ?svc = "own_service rv rt ex svc" and ?db = "as_db S"
  have svc: "svc_Store ?svc = contended_ops rv" "svc_Control ?svc = Some (worker_control rt (own_store rv ex))" by (simp_all add: own_service_def)
  show ?thesis
  proof (cases "Mux_route (rq_verb r) (rq_path r)")
    case CreateRoute
    then have "as_db S' = ?db \<or> as_db S' = fst (snd (handleCreate ?svc (rq_order r) (Decode_create (rq_body r)) (rq_fresh r) (rq_now r)
        (rq_event_id r) (rq_ids r) (?db, as_quotes S)))"
      using p by (auto simp: Mux_def serve_route_def split: auth_decision.splits prod.splits)
    then show ?thesis using handleCreate_sound [OF svc(1) s] s by metis
  next
    case (RetryRoute i)
    obtain d where "as_db S' = ?db \<or> (\<exists>c'. handleRetry ?svc i (Decode_step (rq_body r)) (?db, as_control S) = Proceeds (d, (as_db S', c')))"
      using p RetryRoute by (fastforce simp: Mux_def serve_route_def with_control_def split: auth_decision.splits progress.splits prod.splits)
    then have "as_db S' = ?db" using retry_db [OF svc(2)] by metis
    then show ?thesis using s by simp
  next
    case (CompensateRoute i)
    obtain d where h: "as_db S' = ?db \<or> (\<exists>c'. handleCompensate ?svc i (?db, as_control S) = Proceeds (d, (as_db S', c')))"
      using p CompensateRoute by (fastforce simp: Mux_def serve_route_def with_control_def split: auth_decision.splits progress.splits prod.splits)
    obtain dp n l where c: "as_control S = (dp, n, l)" by (metis surj_pair)
    let ?run = "Control_Compensate rt \<lparr>ctl_Dispatcher = dp, ctl_Executor = own_store rv ex\<rparr> i (own_world ?db n l)"
    have "as_db S' = ?db \<or> as_db S' = w_db (snd ?run)"
      using h svc(2) by (auto simp: handleCompensate_def worker_control_def c split: option.splits prod.splits)
    then show ?thesis using Control_Compensate_sound [of _ rv "own_world ?db n l"] s by auto
  qed (use p s in \<open>auto simp: Mux_def serve_route_def split: auth_decision.splits\<close>)
qed

lemma activity_sound:
  assumes "activity json_err sec svc rt ex cp rl f" and m: "\<forall>step \<in> set (ex_Steps ex). mannered step" and "sound rv (\<lambda>_. True) c"
  shows "sound rv (\<lambda>_. True) (f rv c)"
  using assms(1,3)
proof (induction arbitrary: c rule: activity.induct)
  case (run pf txID owner fuel n l)
  then show ?case using Run_sound [of "own_store rv ex" rv "own_world c n l"] m by simp
next
  case (request r S)
  then show ?case using request_sound [of rv "S\<lparr>as_db := c\<rparr>"] by (auto split: progress.split)
next
  case (poll fuel txID n l)
  then show ?case
    using confirm_loop_sound [of "cp\<lparr>cp_Store := contended_ops rv\<rparr>" rv "snd (w_now rt (own_world c n l))"]
    by (simp add: confirm_Run_def split: prod.split) (metis snd_conv)
next
  case (drain now b)
  then show ?case by (simp add: drainOnce_sound)
qed simp_all

section \<open>Interleavings\<close>

text \<open>What the store has seen: who called a method that writes, and the tables before and after.\<close>

type_synonym trace = "(nat \<times> mem_store \<times> mem_store) list"

definition seen_by :: "nat \<Rightarrow> trace \<Rightarrow> act list" where
  "seen_by i = map (\<lambda>(j, T, T'). (j = i, T, T'))"

fun chained :: "mem_store \<Rightarrow> trace \<Rightarrow> bool" where
  "chained T [] = True"
| "chained T ((i, A, B) # tr) \<longleftrightarrow> A = T \<and> chained B tr"

definition final :: "mem_store \<Rightarrow> trace \<Rightarrow> mem_store" where
  "final T tr = (if tr = [] then T else snd (snd (last tr)))"

text \<open>Goroutine \<open>i\<close> does \<open>f\<close>: for some moves of the others its log is the trace, or goes on after it, or ends before it while only the others go on.\<close>

definition takes_part :: "goroutine_fn \<Rightarrow> mem_store \<Rightarrow> nat \<Rightarrow> trace \<Rightarrow> bool" where
  "takes_part f T i tr \<longleftrightarrow> (\<exists>rv others rest. (\<forall>a \<in> set others. \<not> fst a) \<and>
     ct_log (f rv \<lparr>ct_db = T, ct_tick = 0, ct_log = []\<rparr>) @ others = seen_by i tr @ rest)"

definition interleaving :: "goroutine_fn list \<Rightarrow> mem_store \<Rightarrow> trace \<Rightarrow> bool" where
  "interleaving fs T tr \<longleftrightarrow> chained T tr \<and> (\<forall>(i, _) \<in> set tr. i < length fs) \<and> (\<forall>i < length fs. takes_part (fs ! i) T i tr)"

lemma all_good_seen: "all_good (seen_by i tr) \<longleftrightarrow> (\<forall>(j, A, B) \<in> set tr. good A B)"
  by (induction tr) (auto simp: seen_by_def)

lemma trace_good:
  assumes "\<And>i xs A B ys. tr = xs @ (i, A, B) # ys \<Longrightarrow> all_good (seen_by i xs) \<Longrightarrow> good A B"
  shows "\<forall>(j, A, B) \<in> set tr. good A B"
  using assms
proof (induction tr rule: rev_induct)
  case (snoc a tr)
  have ih: "\<forall>(j, A, B) \<in> set tr. good A B"
  proof (rule snoc.IH)
    fix i xs A B ys assume "tr = xs @ (i, A, B) # ys" "all_good (seen_by i xs)"
    then show "good A B" using snoc.prems [of xs i A B "ys @ [a]"] by simp
  qed
  obtain i A B where a: "a = (i, A, B)" by (metis prod_cases3)
  have "good A B" using snoc.prems [of tr i A B "[]"] ih a by (simp add: all_good_seen)
  then show ?case using ih a by auto
qed simp

lemma interleaving_good:
  assumes il: "interleaving fs T tr" and k: "keyed T" and m: "\<forall>step \<in> set (ex_Steps ex). mannered step"
    and act: "\<forall>f \<in> set fs. activity json_err sec svc rt ex cp rl f"
  shows "\<forall>(i, A, B) \<in> set tr. good A B"
proof (rule trace_good)
  fix i xs A B ys assume tr: "tr = xs @ (i, A, B) # ys" and g: "all_good (seen_by i xs)"
  have i: "i < length fs" using il tr by (auto simp: interleaving_def)
  then obtain rv others rest where v: "\<forall>a \<in> set others. \<not> fst a"
      "ct_log ((fs ! i) rv \<lparr>ct_db = T, ct_tick = 0, ct_log = []\<rparr>) @ others = seen_by i tr @ rest"
    using il unfolding interleaving_def takes_part_def by blast
  have "sound rv (\<lambda>_. True) \<lparr>ct_db = T, ct_tick = 0, ct_log = []\<rparr>" using k by (simp add: sound_def)
  then have "faultless (ct_log ((fs ! i) rv \<lparr>ct_db = T, ct_tick = 0, ct_log = []\<rparr>) @ others)"
    using activity_sound [OF _ m, of json_err sec svc rt cp rl "fs ! i"] act i v(1) faultless_others [of others] by (simp add: sound_def)
  then have "faultless (seen_by i xs @ (True, A, B) # (seen_by i ys @ rest))" using v(2) tr by (simp add: seen_by_def)
  with g show "good A B" unfolding faultless_def by blast
qed

section \<open>Histories\<close>

text \<open>What stays and what only grows from a store to any later one. A saga is in a state that is legal after the old one, or has failed.\<close>

definition later :: "mem_store \<Rightarrow> mem_store \<Rightarrow> bool" where
  "later T T' \<longleftrightarrow>
     (\<forall>i tx. ms_txs T i = Some tx \<longrightarrow> (\<exists>tx'. ms_txs T' i = Some tx' \<and> tx_terms tx' = tx_terms tx \<and> tx_Version tx \<le> tx_Version tx')) \<and>
     (\<forall>i g. ms_sagas T i = Some g \<longrightarrow> (\<exists>g'. ms_sagas T' i = Some g' \<and> (g' = g \<or> sg_Version g < sg_Version g') \<and>
        (moves_to (sg_State g) (sg_State g') \<or> IsFailure (sg_State g')) \<and> dom (sg_Payload g) \<subseteq> dom (sg_Payload g'))) \<and>
     (\<forall>i st k. find_row st k (ms_steps T i) \<noteq> None \<longrightarrow> find_row st k (ms_steps T' i) \<noteq> None) \<and>
     outbox_grows (ms_outbox T) (ms_outbox T')"

lemma outbox_grows_trans: "outbox_grows a b \<Longrightarrow> outbox_grows b c \<Longrightarrow> outbox_grows a c"
proof -
  assume "outbox_grows a b" "outbox_grows b c"
  then obtain es evs fs fvs where b: "b = es @ evs" "list_all2 delivers a es" and c: "c = fs @ fvs" "list_all2 delivers (es @ evs) fs"
    by (auto simp: outbox_grows_def)
  then obtain f1 f2 where f: "fs = f1 @ f2" "list_all2 delivers es f1" by (auto simp: list_all2_append1)
  have "list_all2 delivers a f1" by (rule list_all2_trans [OF delivers_trans b(2) f(2)])
  then show "outbox_grows a c" unfolding c f by (simp add: outbox_grows_appendI)
qed

lemma drift_trans: "moves_to s t \<or> IsFailure t \<Longrightarrow> moves_to t u \<or> IsFailure u \<Longrightarrow> moves_to s u \<or> IsFailure u"
  by (metis IsFailure_def Terminal_simps(2,3) moves_to_terminal rtranclp_trans)

lemma later_refl: "later T T"
  by (auto simp: later_def)

lemma lawful_later:
  assumes "later A B" and "lawful B C"
  shows "later A C"
proof -
  have tx: "\<exists>tx'. ms_txs C i = Some tx' \<and> tx_terms tx' = tx_terms tx \<and> tx_Version tx \<le> tx_Version tx'" if "ms_txs A i = Some tx" for i tx
  proof -
    obtain b where b: "ms_txs B i = Some b" "tx_terms b = tx_terms tx" "tx_Version tx \<le> tx_Version b" using assms(1) \<open>ms_txs A i = Some tx\<close> unfolding later_def by blast
    obtain c where "ms_txs C i = Some c" "c = b \<or> tx_write b c" using assms(2) b(1) unfolding lawful_def by blast
    then show ?thesis using b by (auto simp: tx_write_def)
  qed
  have sg: "\<exists>g'. ms_sagas C i = Some g' \<and> (g' = g \<or> sg_Version g < sg_Version g') \<and>
      (moves_to (sg_State g) (sg_State g') \<or> IsFailure (sg_State g')) \<and> dom (sg_Payload g) \<subseteq> dom (sg_Payload g')" if g: "ms_sagas A i = Some g" for i g
  proof -
    obtain b where b: "ms_sagas B i = Some b" "b = g \<or> sg_Version g < sg_Version b" "moves_to (sg_State g) (sg_State b) \<or> IsFailure (sg_State b)"
        "dom (sg_Payload g) \<subseteq> dom (sg_Payload b)"
      using assms(1) g unfolding later_def by blast
    obtain c where c: "ms_sagas C i = Some c" "c = b \<or> saga_write b c" using assms(2) b(1) unfolding lawful_def by blast
    show ?thesis
    proof (cases "c = b")
      case False
      then have w: "sg_Version c = sg_Version b + 1" "moves_to (sg_State b) (sg_State c) \<or> IsFailure (sg_State c)" "dom (sg_Payload b) \<subseteq> dom (sg_Payload c)"
        using c(2) by (simp_all add: saga_write_def)
      show ?thesis using c(1) b(2) w(1) drift_trans [OF b(3) w(2)] subset_trans [OF b(4) w(3)] by auto
    qed (use b c in auto)
  qed
  have rows: "find_row st k (ms_steps C i) \<noteq> None" if "find_row st k (ms_steps A i) \<noteq> None" for i st k
  proof -
    have "find_row st k (ms_steps B i) \<noteq> None" using assms(1) that by (simp add: later_def)
    then show ?thesis using assms(2) by (simp add: lawful_def)
  qed
  have "outbox_grows (ms_outbox A) (ms_outbox C)"
    by (rule outbox_grows_trans [of _ "ms_outbox B"]) (use assms in \<open>simp_all add: later_def lawful_def\<close>)
  then show ?thesis unfolding later_def using tx sg rows by (intro conjI allI impI)
qed

lemma chained_append: "chained T (xs @ ys) \<longleftrightarrow> chained T xs \<and> chained (final T xs) ys"
  by (induction T xs rule: chained.induct) (auto simp: final_def)

lemma chained_later:
  assumes "chained T tr" and "\<forall>(i, A, B) \<in> set tr. good A B"
  shows "later T (final T tr)" and "keyed T \<Longrightarrow> keyed (final T tr)"
proof -
  have "later T (final T tr) \<and> (keyed T \<longrightarrow> keyed (final T tr))"
    using assms
  proof (induction tr rule: rev_induct)
    case Nil
    then show ?case by (simp add: final_def later_refl)
  next
    case (snoc a tr)
    obtain i A B where a: "a = (i, A, B)" by (metis prod_cases3)
    have "A = final T tr" "good A B" using snoc.prems a by (auto simp: chained_append)
    moreover have "later T (final T tr)" using snoc by (auto simp: chained_append)
    ultimately show ?case using lawful_later a by (auto simp: final_def good_def)
  qed
  then show "later T (final T tr)" and "keyed T \<Longrightarrow> keyed (final T tr)" by auto
qed

text \<open>The steps of the program are mannered.\<close>

lemma mannered_NewExecutor: "ex_Steps ex = ex_Steps (NewExecutor rt s cl cfg) \<Longrightarrow> \<forall>step \<in> set (ex_Steps ex). mannered step"
  by (auto simp: NewExecutor_def mannered_def StepOrder_def
      dest: policy_step.terminal payment_step.terminal kyt_step.terminal mpc_step.terminal broadcast_step.terminal ledger_step.terminal)

section \<open>Properties under contention\<close>

text \<open>C5: requests, runs, pollers and relays of any number of goroutines, interleaved between any two calls of the store: every write leaves
  the tables keyed and is lawful. A saga is only ever replaced by its next version, in a state that is legal after its own or a failure, with all
  entries of its payload; a transaction by its next version with the same terms; a new saga is in \<open>CREATED\<close> with version 1; and no row or event
  disappears. So no update is lost, although the goroutines work on copies that may be outdated.\<close>

theorem contended_writes_lawful:
  assumes "ex_Steps ex = ex_Steps (NewExecutor rt s clients cfg)"
    and "\<forall>f \<in> set fs. activity json_err sec svc rt ex cp rl f"
    and "keyed T" and "interleaving fs T tr"
  shows "\<forall>(i, A, B) \<in> set tr. keyed B \<and> lawful A B"
  using interleaving_good [OF assms(4,3) mannered_NewExecutor [OF assms(1)] assms(2)] by (simp add: good_def)

text \<open>C6: between any two moments of such an interleaving: transactions stay with their terms, versions never go back and determine
  the saga, payloads keep their entries, rows and events stay, events are delivered in one direction only, and a saga that has failed remains failed.\<close>

theorem contended_history:
  assumes "ex_Steps ex = ex_Steps (NewExecutor rt s clients cfg)"
    and "\<forall>f \<in> set fs. activity json_err sec svc rt ex cp rl f"
    and "keyed T" and "interleaving fs T (xs @ ys @ zs)"
  shows "later (final T xs) (final T (xs @ ys)) \<and>
    (\<forall>i g. ms_sagas (final T xs) i = Some g \<longrightarrow> IsFailure (sg_State g) \<longrightarrow>
       (\<exists>g'. ms_sagas (final T (xs @ ys)) i = Some g' \<and> IsFailure (sg_State g')))"
proof -
  have good: "\<forall>(i, A, B) \<in> set (xs @ ys @ zs). good A B"
    by (rule interleaving_good [OF assms(4,3) mannered_NewExecutor [OF assms(1)] assms(2)])
  have "chained T (xs @ ys @ zs)" using assms(4) by (simp add: interleaving_def)
  then have "chained (final T xs) ys" by (simp add: chained_append)
  moreover have "final (final T xs) ys = final T (xs @ ys)" by (simp add: final_def)
  ultimately have l: "later (final T xs) (final T (xs @ ys))" using chained_later(1) [of "final T xs" ys] good by auto
  have "\<exists>g'. ms_sagas (final T (xs @ ys)) i = Some g' \<and> IsFailure (sg_State g')"
    if "ms_sagas (final T xs) i = Some g" "IsFailure (sg_State g)" for i g
    using l that moves_to_terminal [of "sg_State g"] unfolding later_def IsFailure_def by (metis Terminal_simps(2,3))
  with l show ?thesis by blast
qed


section \<open>A creation and a relay\<close>

text \<open>A request creates a transaction; a relay, which started before, claims its event and marks it published.\<close>

definition demo_contended_executor :: "(contended, Stub, unit) Executor" where
  "demo_contended_executor = NewExecutor demo_rt (contended_ops calm) demo_clients DefaultConfig"

definition demo_contended_service :: "(contended, unit, (contended, Stub, unit) Dispatcher \<times> Stub net \<times> unit) Service" where
  "demo_contended_service = \<lparr>svc_Store = ex_Store demo_contended_executor, svc_Locker = NoopLocker, svc_Control = None\<rparr>"

definition demo_creation :: "rivals \<Rightarrow> contended \<Rightarrow> contended" where
  "demo_creation rv c =
     (case Mux (\<lambda>_. ErrorString ''json'') (''k'', False) (own_service rv demo_rt demo_contended_executor demo_contended_service) signed_request
        (\<lparr>as_db = \<lparr>ct_db = NewMemStore, ct_tick = 0, ct_log = []\<rparr>, as_quotes = (), as_control = (New (ex_Store demo_contended_executor) demo_contended_executor 1 ''w'' 0, w_net demo_world, ())\<rparr>\<lparr>as_db := c\<rparr>) of
        Blocks \<Rightarrow> c | Proceeds (rs, S') \<Rightarrow> as_db S')"

definition demo_drain :: "rivals \<Rightarrow> contended \<Rightarrow> contended" where
  "demo_drain rv c =
     fst (snd (drainOnce (NewRelay (ex_Store demo_contended_executor) inmem_publisher 1 0\<lparr>rl_Store := contended_ops rv\<rparr>) 7 (c, NewInMemoryPublisher)))"

text \<open>The tables after the creation, the claim and the mark.\<close>

definition demo_created :: mem_store where
  "demo_created = snd (mem_CreateTx (\<lambda>_. ''u'') (new_tx demo_request ''tx-9'' 5) (new_steps ''tx-9'') (new_saga ''tx-9'')
     [created_event demo_request ''tx-9'' 5 ''ev''] NewMemStore)"

definition demo_claimed :: mem_store where
  "demo_claimed = snd (mem_ClaimOutboxPending 1 demo_created)"

definition demo_marked :: mem_store where
  "demo_marked = snd (mem_MarkOutboxPublished [''ev''] 7 demo_claimed)"

definition demo_trace :: trace where
  "demo_trace = [(0, NewMemStore, demo_created), (1, demo_created, demo_claimed), (1, demo_claimed, demo_marked)]"

lemma demo_creation_log:
  assumes free: "ms_txs (last (path rv c)) ''tx-9'' = None"
  shows "ct_log (demo_creation rv c) = ct_log c @ moves_of (path rv c) @
    [(True, last (path rv c), snd (mem_CreateTx (\<lambda>_. ''u'') (new_tx demo_request ''tx-9'' 5) (new_steps ''tx-9'') (new_saga ''tx-9'')
       [created_event demo_request ''tx-9'' 5 ''ev''] (last (path rv c))))]"
proof -
  let ?c = "\<lparr>cl_Sub = ''web'', cl_Iat = 0, cl_Exp = 9\<rparr>"
  let ?svc = "own_service rv demo_rt demo_contended_executor demo_contended_service"
  let ?m = "mem_CreateTx (\<lambda>_. ''u'') (new_tx demo_request ''tx-9'' 5) (new_steps ''tx-9'') (new_saga ''tx-9'')
      [created_event demo_request ''tx-9'' 5 ''ev'']"
  obtain c' where c': "access rv ?m c = (Inr (), c')"
    using free by (simp add: access_def mem_CreateTx_def new_tx_def Let_def)
  have h: "handleCreate ?svc field_order (Some demo_request) ''tx-9'' 5 ''ev'' (\<lambda>_. ''u'') (c, ()) = (writeJSON 201 (CreateTxResponse ''tx-9''), (c', ()))"
    using c' by (simp add: handleCreate_def own_service_def demo_contended_service_def demo_valid NoopLocker_def created_event_def Let_def)
  have path: "''/v1/transactions'' \<notin> skipPaths" by (simp add: skipPaths_def)
  have "Middleware json_err ''k'' False 0 ''/v1/transactions'' (''Bearer '' @ sign ?c ''k'') = Serve" for json_err
    using middleware_token [OF path, of ?c json_err "''k''" 0] by (simp add: claims_int64_def)
  moreover have "Mux_route ''POST'' ''/v1/transactions'' = CreateRoute" by (simp add: Mux_route_def Let_def)
  ultimately have "demo_creation rv c = c'"
    using h by (simp add: demo_creation_def Mux_def serve_route_def signed_request_def Decode_create_json del: json_print.simps)
  moreover have "ct_log c' = ct_log (snd (access rv ?m c))" using c' by simp
  ultimately show ?thesis by (simp add: access_def Let_def split: prod.split)
qed

lemma demo_interleaving: "interleaving [demo_creation, demo_drain] NewMemStore demo_trace"
proof -
  let ?rv = "\<lparr>rv_moves = \<lambda>n T. if n = 0 then [demo_created] else [], rv_tx = \<lambda>_. 0, rv_saga = \<lambda>_. 0, rv_step = \<lambda>_. 0\<rparr>"
  have free: "ms_txs NewMemStore ''tx-9'' = None" by (simp add: NewMemStore_def)
  have "ct_log (demo_creation calm \<lparr>ct_db = NewMemStore, ct_tick = 0, ct_log = []\<rparr>) @ [(False, demo_created, demo_claimed), (False, demo_claimed, demo_marked)] =
      seen_by 0 demo_trace @ []"
    using free by (simp add: demo_creation_log path_def calm_def seen_by_def demo_trace_def demo_created_def)
  then have one: "takes_part demo_creation NewMemStore 0 demo_trace" unfolding takes_part_def
    by (intro exI [of _ calm] exI [of _ "[(False, demo_created, demo_claimed), (False, demo_claimed, demo_marked)]"] exI [of _ "[]"]) simp
  have out: "ms_outbox demo_created = [with_ev_id ''u'' (created_event demo_request ''tx-9'' 5 ''ev'')]"
    by (simp add: demo_created_def mem_CreateTx_def NewMemStore_def new_tx_def)
  then have claim: "mem_ClaimOutboxPending 1 demo_created =
      (Inr [inflight (with_ev_id ''u'' (created_event demo_request ''tx-9'' 5 ''ev''))], demo_claimed)"
    by (simp add: demo_claimed_def mem_ClaimOutboxPending_def created_event_def tx_event_def with_ev_id_def inflight_def Let_def)
  have "ct_log (demo_drain ?rv \<lparr>ct_db = NewMemStore, ct_tick = 0, ct_log = []\<rparr>) @ [] = seen_by 1 demo_trace @ []"
    using claim
    by (simp add: demo_drain_def drainOnce_def NewRelay_def access_def path_def seen_by_def demo_trace_def inmem_publisher_def inmem_Publish_def
        NewInMemoryPublisher_def demo_marked_def created_event_def tx_event_def with_ev_id_def inflight_def mem_MarkOutboxPublished_def Let_def)
  then have two: "takes_part demo_drain NewMemStore 1 demo_trace" unfolding takes_part_def by (intro exI [of _ ?rv] exI [of _ "[]"]) simp
  show ?thesis
    using one two by (auto simp: interleaving_def demo_trace_def less_Suc_eq nth_Cons')
qed

lemma demo_activities:
  fixes cp :: "(contended, Stub) ConfirmPoller"
  defines "does \<equiv> activity (\<lambda>_. ErrorString ''json'') (''k'', False) demo_contended_service demo_rt demo_contended_executor cp
     (NewRelay (ex_Store demo_contended_executor) inmem_publisher 1 0)"
  shows "\<forall>f \<in> set [demo_creation, demo_drain]. does f"
proof -
  have "does demo_creation" unfolding demo_creation_def [abs_def] does_def by (rule activity.request)
  moreover have "does demo_drain" unfolding demo_drain_def [abs_def] does_def by (rule activity.drain)
  ultimately show ?thesis by simp
qed

lemma demo_executor_steps: "ex_Steps demo_contended_executor = ex_Steps (NewExecutor demo_rt mem_ops demo_clients DefaultConfig)"
  by (simp add: demo_contended_executor_def NewExecutor_def)

lemma keyed_empty: "keyed NewMemStore"
  by (simp add: keyed_def NewMemStore_def)

theorem contended_writes_lawful_witness: "lawful NewMemStore demo_created \<and> lawful demo_claimed demo_marked"
  using contended_writes_lawful [OF demo_executor_steps demo_activities keyed_empty demo_interleaving] by (simp add: demo_trace_def)

theorem contended_history_witness: "later demo_created demo_marked"
proof -
  have split: "demo_trace = [(0, NewMemStore, demo_created)] @ [(1, demo_created, demo_claimed), (1, demo_claimed, demo_marked)] @ []"
    by (simp add: demo_trace_def)
  from contended_history [OF demo_executor_steps demo_activities keyed_empty demo_interleaving [unfolded split]] show ?thesis by (simp add: final_def)
qed


end
