(* ===== verification/Races.thy ===== *)
theory Races
  imports Contention
begin

text \<open>
  What the interleavings of \<open>Contention\<close> do allow, shown by executions: a goroutine that is interrupted between two calls of one transaction
  leaves the status of a transaction and the state of its saga apart, and a run that comes late with a step compensates a transaction that another
  run has completed meanwhile. Both start from the transactions that the components really execute.
\<close>

section \<open>An interrupted transaction\<close>


section \<open>A late run\<close>

text \<open>One attempt per step, and waits that end by their timers.\<close>

definition late_rt :: runtime where
  "late_rt = demo_rt\<lparr>rt_done := \<lambda>_. None\<rparr>"

definition late_rivals :: "mem_store \<Rightarrow> rivals" where
  "late_rivals T' = \<lparr>rv_moves = \<lambda>n T. if n = 1 then [T'] else [], rv_tx = \<lambda>_. 0, rv_saga = \<lambda>_. 0, rv_step = \<lambda>_. 0\<rparr>"

definition late_executor :: "mem_store \<Rightarrow> (contended, Stub, unit) Executor" where
  "late_executor T' = NewExecutor late_rt (contended_ops (late_rivals T')) demo_clients (DefaultConfig\<lparr>cfg_MaxRetries := 1\<rparr>)"

definition late_world :: "(contended, Stub, unit) world" where
  "late_world = \<lparr>w_db = \<lparr>ct_db = demo_db, ct_tick = 0, ct_log = []\<rparr>, w_net = w_net demo_world, w_leases = ()\<rparr>"

lemma late_path: "path (late_rivals T') c = (if ct_tick c = 1 then [ct_db c, T'] else [ct_db c])"
  by (simp add: path_def late_rivals_def)

lemma late_glimpse: "glimpse seen (late_rivals T') c = (if seen (ct_tick c) = 0 then ct_db c else last (path (late_rivals T') c))"
  by (simp add: glimpse_def late_path min_def)

lemma late_begin:
  "\<exists>c. begin_attempt (contended_ops (late_rivals T')) ''tx-1'' StepPolicy 1 now u \<lparr>ct_db = demo_db, ct_tick = 0, ct_log = []\<rparr> = (Inr False, c) \<and> ct_tick c = 1"
  by (simp add: begin_attempt_def late_glimpse late_path access_def mem_LoadStep_def mem_UpdateStep_def demo_db_def demo_row_def StepOrder_def
      find_row_def row_is_def running_row_def zero_row_def go_monad_defs)

lemma late_policy:
  "\<exists>res w'. on_net (Execute (NewPolicyStep (cl_Policy demo_clients)) \<lparr>sc_Tx = demo_tx, sc_Saga = demo_saga, sc_Attempt = 1, sc_Partners = Some demo_clients\<rparr>) w =
     ((res, None), w') \<and> w_db w' = w_db w \<and> w_leases w' = w_leases w \<and> res_State res = StatePolicyChecked \<and> \<not> res_Terminal res"
  if "net_peers (w_net w) = NewStub DefaultStubConfig"
  using that by (simp add: on_net_def NewPolicyStep_def PolicyStep_Execute_def demo_clients_def rpc_def stub_Evaluate_def NewStub_def
      DefaultStubConfig_def answer_def)

lemma late_persist:
  assumes "ct_tick c = 1" and "ms_sagas T' ''tx-1'' = Some g'" and "sg_Version g' \<noteq> 1" and "find_row StepPolicy 1 (ms_steps T' ''tx-1'') = Some r"
    and "res_State res = StatePolicyChecked" and "\<not> res_Terminal res"
  shows "\<exists>c'. persist_success (contended_ops (late_rivals T')) StepPolicy \<lparr>sc_Tx = demo_tx, sc_Saga = demo_saga, sc_Attempt = 1, sc_Partners = p\<rparr> res fin now ids c =
      (Inl (Sentinel ErrConflict), c') \<and>
    ms_sagas (ct_db c') = ms_sagas T' \<and> ms_txs (ct_db c') = ms_txs T' \<and> ct_tick c' = 3 \<and> find_row StepPolicy 1 (ms_steps (ct_db c') ''tx-1'') \<noteq> None"
  using assms
  by (simp add: persist_success_def access_def late_path go_monad_defs mem_UpdateStep_def mem_SaveSagaState_def finished_row_def zero_row_def demo_tx_def
      demo_saga_def advanced_saga_def StepAfter_def StepOrder_def validatePath_def Transition_def forward_def find_replace_row row_is_def Let_def)

lemma late_attempt:
  assumes "ms_sagas T' ''tx-1'' = Some g'" and "sg_Version g' \<noteq> 1" and "find_row StepPolicy 1 (ms_steps T' ''tx-1'') = Some r"
  shows "\<exists>w1. runStepOnce late_rt (late_executor T') (NewPolicyStep (cl_Policy demo_clients))
      \<lparr>sc_Tx = demo_tx, sc_Saga = demo_saga, sc_Attempt = 1, sc_Partners = Some demo_clients\<rparr> late_world = (Inl (Sentinel ErrConflict), w1) \<and>
    ms_sagas (ct_db (w_db w1)) = ms_sagas T' \<and> ms_txs (ct_db (w_db w1)) = ms_txs T' \<and> ct_tick (w_db w1) = 3 \<and>
    find_row StepPolicy 1 (ms_steps (ct_db (w_db w1)) ''tx-1'') \<noteq> None"
proof -
  let ?sc = "\<lparr>sc_Tx = demo_tx, sc_Saga = demo_saga, sc_Attempt = 1, sc_Partners = Some demo_clients\<rparr>" and ?st = "NewPolicyStep (cl_Policy demo_clients)"
  obtain clk ids w1 where w1: "w_stamp late_rt late_world = ((clk, ids), w1)" by (metis prod.exhaust)
  have db1: "w_db w1 = \<lparr>ct_db = demo_db, ct_tick = 0, ct_log = []\<rparr>" "net_peers (w_net w1) = NewStub DefaultStubConfig"
    using w1 by (auto simp: w_stamp_def on_net_def late_world_def demo_world_def)
  obtain c where c: "begin_attempt (contended_ops (late_rivals T')) ''tx-1'' StepPolicy 1 (clk 0) (ids 0) (w_db w1) = (Inr False, c)" "ct_tick c = 1"
    using late_begin unfolding db1 by blast
  obtain res w3 where w3: "on_net (Execute ?st ?sc) (w1\<lparr>w_db := c\<rparr>) = ((res, None), w3)" "w_db w3 = c"
      "res_State res = StatePolicyChecked" "\<not> res_Terminal res"
    using late_policy [of "w1\<lparr>w_db := c\<rparr>"] db1(2) by auto
  obtain clk' ids' w4 where w4: "w_stamp late_rt w3 = ((clk', ids'), w4)" by (metis prod.exhaust)
  have db4: "w_db w4 = c" using w4 w3(2) by (metis snd_conv w_stamp_db)
  have st: "Name ?st = StepPolicy" "tx_TxID demo_tx = ''tx-1''" by (simp_all add: NewPolicyStep_def demo_tx_def)
  from late_persist [OF c(2) assms w3(3,4), of "Some demo_clients" "clk' 0" "clk' 1" ids'] show ?thesis
    by (auto simp: runStepOnce_def late_executor_def NewExecutor_def Let_def w1 w3(1) w4 db4 c(1) st on_db_def)
qed

text \<open>After the others' only move the goroutine is alone.\<close>

definition same_records :: "contended \<Rightarrow> contended \<Rightarrow> bool" where
  "same_records c c' \<longleftrightarrow> ms_sagas (ct_db c') = ms_sagas (ct_db c) \<and> ms_txs (ct_db c') = ms_txs (ct_db c) \<and> ct_tick c \<le> ct_tick c'"

lemma late_marks:
  assumes "1 < ct_tick c"
  shows "same_records c (snd (mark_compensating (contended_ops (late_rivals T')) i st c))"
    and "same_records c (snd (mark_compensated (contended_ops (late_rivals T')) i st c))"
  using assms
  by (auto simp: mark_compensating_def mark_compensated_def same_records_def late_glimpse late_path access_def ignE_def okE_def Let_def
      mem_LoadStep_def mem_UpdateStep_def split: option.splits)

lemma late_persist_compensation:
  assumes "1 < ct_tick c" and "ms_sagas (ct_db c) i = Some g" and "sg_TxID g = i"
  shows "\<exists>c' g'. persist_compensation (contended_ops (late_rivals T')) i tx g target clk ids c = (Inr (), c') \<and>
    ms_sagas (ct_db c') i = Some g' \<and> sg_State g' = target \<and> sg_Version g' = sg_Version g + 1"
  using assms
  by (auto simp: persist_compensation_def access_def late_path go_monad_defs mem_SaveSagaState_def mem_UpdateTransactionStatus_def mem_AppendOutbox_def Let_def
      split: option.splits)

lemma late_cascade:
  assumes g: "ms_sagas (ct_db (w_db w)) ''tx-1'' = Some g" "sg_TxID g = ''tx-1''" and tx: "ms_txs (ct_db (w_db w)) ''tx-1'' = Some tx" and t: "1 < ct_tick (w_db w)"
  shows "\<exists>w' g'. compensateCascade late_rt (late_executor T') ''tx-1'' StepPolicy w = (None, w') \<and>
    ms_sagas (ct_db (w_db w')) ''tx-1'' = Some g' \<and> sg_State g' = StateFailedCompensated \<and> sg_Version g' = sg_Version g + 1"
proof -
  let ?ops = "contended_ops (late_rivals T')" and ?st = "NewPolicyStep (cl_Policy demo_clients)"
  let ?w1 = "snd (on_db (RunInTx ?ops (mark_compensating ?ops ''tx-1'' StepPolicy)) w)"
  let ?w2 = "snd (on_db (RunInTx ?ops (mark_compensated ?ops ''tx-1'' StepPolicy)) ?w1)"
  have m1: "same_records (w_db w) (w_db ?w1)" using late_marks(1) [OF t] by simp
  then have "1 < ct_tick (w_db ?w1)" using t by (simp add: same_records_def)
  then have m2: "same_records (w_db ?w1) (w_db ?w2)" using late_marks(2) by simp
  have net: "on_net (Compensate ?st sc) v = (Inr (), v)" "Name ?st = StepPolicy" for sc v
    by (simp_all add: NewPolicyStep_def PolicyStep_Compensate_def on_net_def okE_def)
  obtain clk ids w3 where w3: "w_stamp late_rt ?w2 = ((clk, ids), w3)" by (metis prod.exhaust)
  then have db3: "w_db w3 = w_db ?w2" by (metis snd_conv w_stamp_db)
  have c3: "1 < ct_tick (w_db w3)" "ms_sagas (ct_db (w_db w3)) ''tx-1'' = Some g" using m1 m2 t g by (simp_all add: same_records_def db3)
  have loads: "mem_LoadSagaState ''tx-1'' (glimpse (rv_saga (late_rivals T')) (late_rivals T') (w_db w)) = Inr g"
    "mem_LoadTx ''tx-1'' (glimpse (rv_tx (late_rivals T')) (late_rivals T') (w_db w)) = Inr tx"
    using g tx t by (simp_all add: late_glimpse late_path mem_LoadSagaState_def mem_LoadTx_def)
  show ?thesis
    using late_persist_compensation [OF c3 g(2), of T' tx StateFailedCompensated clk ids]
    by (auto simp: compensateCascade_def late_executor_def NewExecutor_def loads net cascade_loop.simps w3 Let_def)
qed


definition completed_meanwhile :: mem_store where
  "completed_meanwhile = demo_db\<lparr>ms_sagas := [''tx-1'' \<mapsto> demo_saga\<lparr>sg_State := StateCompleted, sg_CurrentStep := StepLedger, sg_Version := 9\<rparr>]\<rparr>"



end
